(* ===== verification/Prelude.thy ===== *)
theory Prelude
  imports Main "HOL-Library.Word"
begin

text \<open>
  Shared material of the development: names for the machine integers and byte
  strings of the Rust sources, \<open>Result\<close> as a sum, little- and big-endian integer
  encodings, slices, and two interfaces that several components implement:
  \<^item> \<open>fixed_codec\<close>: a fixed-width encoding of a value as bytes;
  \<^item> \<open>framing\<close>: a length-delimited message format, with the lemma that an
    incremental reader recovers the messages whatever way the byte stream is cut
    into chunks.
\<close>

section \<open>Names for the types of the sources\<close>

unbundle bit_operations_syntax

type_synonym u8 = "8 word"
type_synonym u16 = "16 word"
type_synonym u32 = "32 word"
type_synonym u64 = "64 word"
type_synonym bytes = "8 word list"

text \<open>\<open>Result<T, E>\<close> is a sum, with the error on the left.\<close>

abbreviation Err :: "'e \<Rightarrow> 'e + 'a" where
  "Err \<equiv> Inl"

abbreviation Ok :: "'a \<Rightarrow> 'e + 'a" where
  "Ok \<equiv> Inr"

text \<open>The \<open>?\<close> operator.\<close>

definition bind_result :: "'e + 'a \<Rightarrow> ('a \<Rightarrow> 'e + 'b) \<Rightarrow> 'e + 'b" where
  "bind_result r f = (case r of Inl e \<Rightarrow> Inl e | Inr a \<Rightarrow> f a)"

lemma bind_result_simps [simp]:
  "bind_result (Err e) f = Err e"
  "bind_result (Ok a) f = f a"
  by (simp_all add: bind_result_def)

lemma bind_result_eq_Ok [simp]:
  "bind_result r f = Ok b \<longleftrightarrow> (\<exists>a. r = Ok a \<and> f a = Ok b)"
  by (cases r) auto

definition is_ok :: "'e + 'a \<Rightarrow> bool" where
  "is_ok r = (case r of Inl _ \<Rightarrow> False | Inr _ \<Rightarrow> True)"

definition ok :: "'e + 'a \<Rightarrow> 'a option" where
  "ok r = (case r of Inl _ \<Rightarrow> None | Inr a \<Rightarrow> Some a)"

lemma is_ok_simps [simp]: "is_ok (Ok a)" "\<not> is_ok (Err e)"
  by (simp_all add: is_ok_def)

lemma ok_simps [simp]: "ok (Ok a) = Some a" "ok (Err e) = None"
  by (simp_all add: ok_def)

lemma ok_eq_None [simp]: "ok r = None \<longleftrightarrow> \<not> is_ok r"
  by (cases r) auto

text \<open>The fact collections of the development.\<close>

named_theorems wire_simps \<open>lengths and inverses of the wire encodings\<close>
named_theorems frame_simps \<open>what one call of a decoder does on an encoded frame\<close>

section \<open>Strings as bytes\<close>

text \<open>
  A Rust \<open>String\<close> is its UTF-8 bytes; a HOL \<open>char\<close> is one byte, so a HOL
  \<open>string\<close> is that byte sequence and its \<open>length\<close> is \<open>str::len\<close>.
\<close>

definition byte_of_char :: "char \<Rightarrow> u8" where
  "byte_of_char c = word_of_nat (of_char c)"

definition char_of_byte :: "u8 \<Rightarrow> char" where
  "char_of_byte b = char_of (unat b)"

definition as_bytes :: "string \<Rightarrow> bytes" where
  "as_bytes s = map byte_of_char s"

definition from_bytes :: "bytes \<Rightarrow> string" where
  "from_bytes bs = map char_of_byte bs"

lemma char_of_byte_inverse [simp]: "char_of_byte (byte_of_char c) = c"
  by (simp add: char_of_byte_def byte_of_char_def unat_of_nat)

lemma byte_of_char_inverse [simp]: "byte_of_char (char_of_byte b) = b"
proof -
  have "unat b < 2 ^ LENGTH(8)" by (rule unsigned_less)
  then show ?thesis
    by (simp add: char_of_byte_def byte_of_char_def)
qed

lemma from_as_bytes [simp, wire_simps]: "from_bytes (as_bytes s) = s"
  by (simp add: from_bytes_def as_bytes_def o_def)

lemma as_from_bytes [simp, wire_simps]: "as_bytes (from_bytes bs) = bs"
  by (simp add: from_bytes_def as_bytes_def o_def)

lemma length_as_bytes [simp, wire_simps]: "length (as_bytes s) = length s"
  by (simp add: as_bytes_def)

lemma length_from_bytes [simp]: "length (from_bytes bs) = length bs"
  by (simp add: from_bytes_def)

lemma as_bytes_eq_iff [simp]: "as_bytes s = as_bytes t \<longleftrightarrow> s = t"
  by (metis from_as_bytes)

text \<open>Decimal rendering, as \<open>{}\<close> formats an unsigned integer.\<close>

fun show_nat :: "nat \<Rightarrow> string" where
  "show_nat n =
     (if n < 10 then [char_of (48 + n)] else show_nat (n div 10) @ [char_of (48 + n mod 10)])"

declare show_nat.simps [simp del]

section \<open>Integers as bytes\<close>

primrec le_bytes :: "nat \<Rightarrow> nat \<Rightarrow> bytes" where
  "le_bytes 0 x = []"
| "le_bytes (Suc n) x = word_of_nat (x mod 256) # le_bytes n (x div 256)"

primrec le_nat :: "bytes \<Rightarrow> nat" where
  "le_nat [] = 0"
| "le_nat (b # bs) = unat b + 256 * le_nat bs"

lemma length_le_bytes [simp]: "length (le_bytes n x) = n"
  by (induction n arbitrary: x) simp_all

lemma unat_byte_mod [simp]: "unat (word_of_nat (x mod 256) :: u8) = x mod 256"
  by (simp add: unat_of_nat)

lemma le_nat_le_bytes: "le_nat (le_bytes n x) = x mod 256 ^ n"
proof (induction n arbitrary: x)
  case 0
  then show ?case by simp
next
  case (Suc n)
  have "x mod (256 * 256 ^ n) = 256 * (x div 256 mod 256 ^ n) + x mod 256"
    by (rule mod_mult2_eq)
  with Suc show ?case by simp
qed

lemma unat_byte_less [simp]: "unat (b :: u8) < 256"
  using unsigned_less [of b] by simp

lemma le_nat_less: "le_nat bs < 256 ^ length bs"
proof (induction bs)
  case Nil
  then show ?case by simp
next
  case (Cons b bs)
  have "unat b < 256" by simp
  with Cons have "unat b + 256 * le_nat bs < 256 * 256 ^ length bs"
    by linarith
  then show ?case by simp
qed

lemma le_bytes_le_nat: "le_bytes (length bs) (le_nat bs) = bs"
proof (induction bs)
  case Nil
  then show ?case by simp
next
  case (Cons b bs)
  have "(unat b + 256 * le_nat bs) mod 256 = unat b"
    and "(unat b + 256 * le_nat bs) div 256 = le_nat bs"
    using unat_byte_less [of b] by (simp_all add: div_add1_eq)
  with Cons show ?case by simp
qed

lemma le_nat_append: "le_nat (xs @ ys) = le_nat xs + 256 ^ length xs * le_nat ys"
  by (induction xs) (simp_all add: algebra_simps)

subsection \<open>The interface of a fixed-width encoding\<close>

locale fixed_codec =
  fixes enc :: "'a \<Rightarrow> bytes" and dec :: "bytes \<Rightarrow> 'a" and width :: nat
  assumes enc_length: "length (enc x) = width"
    and dec_enc: "dec (enc x) = x"
    and enc_dec: "length bs = width \<Longrightarrow> enc (dec bs) = bs"
begin

lemma take_enc: "take width (enc x @ rest) = enc x"
  by (simp add: enc_length)

lemma drop_enc: "drop width (enc x @ rest) = rest"
  by (simp add: enc_length)

lemma dec_take_enc: "dec (take width (enc x @ rest)) = x"
  by (simp only: take_enc dec_enc)

lemma enc_inj: "enc x = enc y \<longleftrightarrow> x = y"
  by (metis dec_enc)

lemma dec_inj: "length bs = width \<Longrightarrow> length cs = width \<Longrightarrow> dec bs = dec cs \<longleftrightarrow> bs = cs"
  by (metis enc_dec)

end

definition to_le16 :: "u16 \<Rightarrow> bytes" where
  "to_le16 w = le_bytes 2 (unat w)"

definition from_le16 :: "bytes \<Rightarrow> u16" where
  "from_le16 bs = word_of_nat (le_nat bs)"

definition to_le32 :: "u32 \<Rightarrow> bytes" where
  "to_le32 w = le_bytes 4 (unat w)"

definition from_le32 :: "bytes \<Rightarrow> u32" where
  "from_le32 bs = word_of_nat (le_nat bs)"

definition to_le64 :: "u64 \<Rightarrow> bytes" where
  "to_le64 w = le_bytes 8 (unat w)"

definition from_le64 :: "bytes \<Rightarrow> u64" where
  "from_le64 bs = word_of_nat (le_nat bs)"

definition to_be32 :: "u32 \<Rightarrow> bytes" where
  "to_be32 w = rev (to_le32 w)"

definition from_be32 :: "bytes \<Rightarrow> u32" where
  "from_be32 bs = from_le32 (rev bs)"

lemma le_word_roundtrip:
  fixes w :: "'a::len word"
  assumes "LENGTH('a) = 8 * n"
  shows "word_of_nat (le_nat (le_bytes n (unat w))) = w"
proof -
  have "unat w < 2 ^ LENGTH('a)" by (rule unsigned_less)
  with assms have "unat w < 256 ^ n" by (simp add: power_mult)
  then show ?thesis by (simp add: le_nat_le_bytes)
qed

lemma le_bytes_roundtrip:
  assumes "LENGTH('a::len) = 8 * n" and "length bs = n"
  shows "le_bytes n (unat (word_of_nat (le_nat bs) :: 'a word)) = bs"
proof -
  have "le_nat bs < 2 ^ LENGTH('a)"
    using le_nat_less [of bs] assms by (simp add: power_mult)
  then have "unat (word_of_nat (le_nat bs) :: 'a word) = le_nat bs"
    by (simp add: unat_of_nat)
  with assms(2) show ?thesis using le_bytes_le_nat [of bs] by simp
qed

interpretation le16: fixed_codec to_le16 from_le16 2
  by unfold_locales
    (simp_all add: to_le16_def from_le16_def le_word_roundtrip le_bytes_roundtrip)

interpretation le32: fixed_codec to_le32 from_le32 4
  by unfold_locales
    (simp_all add: to_le32_def from_le32_def le_word_roundtrip le_bytes_roundtrip)

interpretation le64: fixed_codec to_le64 from_le64 8
  by unfold_locales
    (simp_all add: to_le64_def from_le64_def le_word_roundtrip le_bytes_roundtrip)

interpretation be32: fixed_codec to_be32 from_be32 4
proof unfold_locales
  fix x show "length (to_be32 x) = 4"
    by (simp add: to_be32_def le32.enc_length)
next
  fix x show "from_be32 (to_be32 x) = x"
    by (simp add: to_be32_def from_be32_def le32.dec_enc)
next
  fix bs :: bytes assume "length bs = 4"
  then show "to_be32 (from_be32 bs) = bs"
    by (simp add: to_be32_def from_be32_def le32.enc_dec)
qed

lemmas codec_simps [simp, wire_simps] =
  le16.enc_length le16.dec_enc
  le32.enc_length le32.dec_enc
  le64.enc_length le64.dec_enc
  be32.enc_length be32.dec_enc

text \<open>\<open>x as u32\<close> of a length keeps it when it fits.\<close>

lemma unat_u32_of_nat [simp]: "n < 2 ^ 32 \<Longrightarrow> unat (word_of_nat n :: u32) = n"
  by (simp add: unat_of_nat)

lemma unat_u64_of_nat [simp]: "n < 2 ^ 64 \<Longrightarrow> unat (word_of_nat n :: u64) = n"
  by (simp add: unat_of_nat)

section \<open>Slices\<close>

text \<open>\<open>xs[a..b]\<close>; the callers check the bounds that keep Rust from panicking.\<close>

definition slice :: "nat \<Rightarrow> nat \<Rightarrow> 'a list \<Rightarrow> 'a list" where
  "slice a b xs = take (b - a) (drop a xs)"

text \<open>\<open>xs.get(a..b)\<close>, which checks them itself.\<close>

definition get_range :: "nat \<Rightarrow> nat \<Rightarrow> 'a list \<Rightarrow> 'a list option" where
  "get_range a b xs = (if a \<le> b \<and> b \<le> length xs then Some (slice a b xs) else None)"

lemma length_slice [simp]: "b \<le> length xs \<Longrightarrow> length (slice a b xs) = b - a"
  by (simp add: slice_def)

lemma slice_append_left [simp]: "b \<le> length xs \<Longrightarrow> slice a b (xs @ ys) = slice a b xs"
  by (simp add: slice_def)

lemma slice_append_right [simp]:
  "length xs \<le> a \<Longrightarrow> slice a b (xs @ ys) = slice (a - length xs) (b - length xs) ys"
  by (simp add: slice_def)

lemma slice_all [simp]: "length xs \<le> b \<Longrightarrow> slice 0 b xs = xs"
  by (simp add: slice_def)

lemma slice_empty [simp]: "b \<le> a \<Longrightarrow> slice a b xs = []"
  by (simp add: slice_def)

section \<open>The interface of a framed byte stream\<close>

text \<open>
  What one attempt to take a message off the front of a receive buffer can give:
  not enough bytes yet, a framing error that ends the connection, or a message and
  the unread rest.
\<close>

datatype 'm frame_result = More | Bad | Got 'm bytes

text \<open>
  The read loops of the sources all take messages off the buffer while there are any,
  and end for good at a framing error. \<open>drain\<close> is that loop on the bytes received so
  far: the messages, the bytes left in the buffer, and whether the loop has ended.
\<close>

function drain :: "(bytes \<Rightarrow> 'm frame_result) \<Rightarrow> bytes \<Rightarrow> 'm list \<times> bytes \<times> bool" where
  "drain dec buf =
     (case dec buf of
        More \<Rightarrow> ([], buf, False)
      | Bad \<Rightarrow> ([], buf, True)
      | Got m rest \<Rightarrow>
          if length rest < length buf
          then (let (ms, left, dead) = drain dec rest in (m # ms, left, dead))
          else ([m], rest, True))"
  by pat_completeness auto
termination
  by (relation "measure (\<lambda>(dec, buf). length buf)") auto

declare drain.simps [simp del]

text \<open>A reader that is fed the stream chunk by chunk, as \<open>read_buf\<close> delivers it.\<close>

fun feed :: "(bytes \<Rightarrow> 'm frame_result) \<Rightarrow> bytes \<Rightarrow> bytes list \<Rightarrow> 'm list \<times> bytes \<times> bool" where
  "feed dec buf [] = ([], buf, False)"
| "feed dec buf (c # cs) =
     (let (ms, left, dead) = drain dec (buf @ c)
      in if dead then (ms, left, True)
         else (let (ms', left', dead') = feed dec left cs in (ms @ ms', left', dead')))"

locale framing =
  fixes wf :: "'m \<Rightarrow> bool" and enc :: "'m \<Rightarrow> bytes" and dec :: "bytes \<Rightarrow> 'm frame_result"
  assumes dec_enc: "wf m \<Longrightarrow> dec (enc m @ rest) = Got m rest"
    and dec_Got_shrinks: "dec buf = Got m rest \<Longrightarrow> length rest < length buf"
    and dec_Got_append: "dec buf = Got m rest \<Longrightarrow> dec (buf @ more) = Got m (rest @ more)"
    and dec_Bad_append: "dec buf = Bad \<Longrightarrow> dec (buf @ more) = Bad"
    and dec_Nil: "dec [] = More"
begin

lemma drain_More: "dec buf = More \<Longrightarrow> drain dec buf = ([], buf, False)"
  by (simp add: drain.simps)

lemma drain_Bad: "dec buf = Bad \<Longrightarrow> drain dec buf = ([], buf, True)"
  by (simp add: drain.simps)

lemma drain_Got:
  "dec buf = Got m rest \<Longrightarrow>
   drain dec buf = (let (ms, left, dead) = drain dec rest in (m # ms, left, dead))"
  by (simp add: drain.simps [of dec buf] dec_Got_shrinks)

lemma drain_stops: "drain dec buf = (ms, left, False) \<Longrightarrow> dec left = More"
proof (induction "length buf" arbitrary: buf ms rule: less_induct)
  case less
  show ?case
  proof (cases "dec buf")
    case More
    with less.prems show ?thesis by (simp add: drain_More)
  next
    case Bad
    with less.prems show ?thesis by (simp add: drain_Bad)
  next
    case (Got m rest)
    with less.prems obtain ms' where "drain dec rest = (ms', left, False)"
      by (auto simp: drain_Got split: prod.splits)
    with less.hyps [OF dec_Got_shrinks [OF Got]] show ?thesis by blast
  qed
qed

lemma drain_dead: "drain dec buf = (ms, left, True) \<Longrightarrow> dec left = Bad"
proof (induction "length buf" arbitrary: buf ms rule: less_induct)
  case less
  show ?case
  proof (cases "dec buf")
    case More
    with less.prems show ?thesis by (simp add: drain_More)
  next
    case Bad
    with less.prems show ?thesis by (simp add: drain_Bad)
  next
    case (Got m rest)
    with less.prems obtain ms' where "drain dec rest = (ms', left, True)"
      by (auto simp: drain_Got split: prod.splits)
    with less.hyps [OF dec_Got_shrinks [OF Got]] show ?thesis by blast
  qed
qed

text \<open>Draining twice is draining once: no message is lost or invented at a cut.\<close>

lemma drain_append:
  "drain dec (buf @ more) =
     (let (ms, left, dead) = drain dec buf
      in if dead then (ms, left @ more, True)
         else (let (ms', left', dead') = drain dec (left @ more) in (ms @ ms', left', dead')))"
proof (induction "length buf" arbitrary: buf rule: less_induct)
  case less
  show ?case
  proof (cases "dec buf")
    case More
    then show ?thesis by (simp add: drain_More split: prod.splits)
  next
    case Bad
    then show ?thesis by (simp add: drain_Bad dec_Bad_append)
  next
    case (Got m rest)
    from less.hyps [OF dec_Got_shrinks [OF Got]]
    show ?thesis
      by (auto simp: drain_Got [OF Got] drain_Got [OF dec_Got_append [OF Got]]
          split: prod.splits if_splits)
  qed
qed

lemma drain_encoded:
  "list_all wf ms \<Longrightarrow>
   drain dec (concat (map enc ms) @ rest) =
     (let (ms', left, dead) = drain dec rest in (ms @ ms', left, dead))"
proof (induction ms)
  case Nil
  then show ?case by (simp split: prod.splits)
next
  case (Cons m ms)
  then have "dec (enc m @ (concat (map enc ms) @ rest)) = Got m (concat (map enc ms) @ rest)"
    by (intro dec_enc) simp
  with Cons show ?case by (simp add: drain_Got split: prod.splits)
qed

text \<open>The messages a live reader has seen depend on the bytes only, not on the cuts.\<close>

lemma feed_drain:
  assumes "feed dec buf cs = (ms, left, False)" and "dec buf = More"
  shows "drain dec (buf @ concat cs) = (ms, left, False)"
  using assms
proof (induction cs arbitrary: buf ms)
  case Nil
  then show ?case by (simp add: drain_More)
next
  case (Cons c cs)
  obtain ms1 left1 where d: "drain dec (buf @ c) = (ms1, left1, False)"
    and f: "\<exists>ms2. feed dec left1 cs = (ms2, left, False) \<and> ms = ms1 @ ms2"
    using Cons.prems(1) by (auto split: prod.splits if_splits)
  from f obtain ms2 where f2: "feed dec left1 cs = (ms2, left, False)" and ms: "ms = ms1 @ ms2"
    by blast
  from drain_stops [OF d] have "drain dec (left1 @ concat cs) = (ms2, left, False)"
    by (rule Cons.IH [OF f2])
  with d ms show ?case
    using drain_append [of "buf @ c" "concat cs"] by simp
qed

lemma drain_feed:
  assumes "drain dec (buf @ concat cs) = (ms, left, False)" and "dec buf = More"
  shows "feed dec buf cs = (ms, left, False)"
  using assms
proof (induction cs arbitrary: buf ms)
  case Nil
  then show ?case by (simp add: drain_More)
next
  case (Cons c cs)
  obtain ms1 left1 dead1 where d: "drain dec (buf @ c) = (ms1, left1, dead1)"
    by (metis prod_cases3)
  with Cons.prems(1) drain_append [of "buf @ c" "concat cs"]
  have alive: "\<not> dead1" by (auto split: if_splits)
  with d Cons.prems(1) drain_append [of "buf @ c" "concat cs"]
  obtain ms2 where d2: "drain dec (left1 @ concat cs) = (ms2, left, False)"
    and ms: "ms = ms1 @ ms2"
    by (auto split: prod.splits)
  from d alive have "dec left1 = More" by (auto intro: drain_stops)
  with d2 have "feed dec left1 cs = (ms2, left, False)" by (rule Cons.IH)
  with d alive ms show ?case by simp
qed

text \<open>
  The main fact clients use: whatever way the encodings of \<open>ms\<close> are cut into chunks,
  the reader hands over exactly \<open>ms\<close>, in order, with an empty buffer and still alive.
\<close>

lemma feed_encoded:
  assumes "list_all wf ms" and "concat cs = concat (map enc ms)"
  shows "feed dec [] cs = (ms, [], False)"
proof (rule drain_feed)
  have "drain dec (concat (map enc ms) @ []) = (ms, [], False)"
    unfolding drain_encoded [OF assms(1)] by (simp add: drain_More dec_Nil)
  then show "drain dec ([] @ concat cs) = (ms, [], False)"
    using assms(2) by simp
qed (rule dec_Nil)

end

text \<open>
  How every reader of the program cuts a stream: a header of fixed size which holds the
  length of the body, a bound on that length, then the body. Such a reader is a
  \<open>framing\<close>.
\<close>

locale header_framing =
  fixes hdr :: nat and len_of :: "bytes \<Rightarrow> nat" and limit :: nat
    and mk :: "bytes \<Rightarrow> bytes \<Rightarrow> 'm"
    and wf :: "'m \<Rightarrow> bool" and enc :: "'m \<Rightarrow> bytes" and dec :: "bytes \<Rightarrow> 'm frame_result"
  assumes hdr_pos: "0 < hdr"
    and dec_eq: "dec buf =
      (if length buf < hdr then More
       else if len_of (take hdr buf) > limit then Bad
       else if length buf < hdr + len_of (take hdr buf) then More
       else Got (mk (take hdr buf) (slice hdr (hdr + len_of (take hdr buf)) buf))
              (drop (hdr + len_of (take hdr buf)) buf))"
    and enc_eq: "wf m \<Longrightarrow> \<exists>h b. enc m = h @ b \<and> length h = hdr \<and> len_of h = length b
                   \<and> length b \<le> limit \<and> mk h b = m"

sublocale header_framing \<subseteq> framing wf enc dec
proof
  fix m rest
  assume "wf m"
  then obtain h b where "enc m = h @ b" "length h = hdr" "len_of h = length b"
      "length b \<le> limit" "mk h b = m"
    using enc_eq by blast
  then show "dec (enc m @ rest) = Got m rest"
    by (subst dec_eq) (simp add: slice_def)
next
  fix buf m rest
  assume "dec buf = Got m rest"
  then show "length rest < length buf"
    using hdr_pos by (subst (asm) dec_eq) (auto split: if_splits)
next
  fix buf m rest more
  assume "dec buf = Got m rest"
  then show "dec (buf @ more) = Got m (rest @ more)"
    by (subst (asm) dec_eq, subst dec_eq) (auto split: if_splits simp: slice_def)
next
  fix buf more
  assume "dec buf = Bad"
  then show "dec (buf @ more) = Bad"
    by (subst (asm) dec_eq, subst dec_eq) (auto split: if_splits)
next
  show "dec [] = More"
    using hdr_pos by (subst dec_eq) simp
qed

section \<open>Lists\<close>

text \<open>\<open>position\<close>, \<open>remove\<close>, \<open>find\<close> and \<open>retain\<close> of \<open>Vec\<close>.\<close>

fun position :: "('a \<Rightarrow> bool) \<Rightarrow> 'a list \<Rightarrow> nat option" where
  "position P [] = None"
| "position P (x # xs) = (if P x then Some 0 else map_option Suc (position P xs))"

definition remove_at :: "nat \<Rightarrow> 'a list \<Rightarrow> 'a list" where
  "remove_at i xs = take i xs @ drop (Suc i) xs"

lemma position_Some:
  "position P xs = Some i \<Longrightarrow>
   i < length xs \<and> P (xs ! i) \<and> find P xs = Some (xs ! i) \<and> (\<forall>x \<in> set (take i xs). \<not> P x)"
  by (induction xs arbitrary: i) (auto split: if_splits)

lemma position_None: "position P xs = None \<longleftrightarrow> (\<forall>x \<in> set xs. \<not> P x)"
  by (induction xs) auto

lemma position_split:
  assumes "position P xs = Some i"
  obtains ys x zs where "xs = ys @ x # zs" "xs ! i = x" "remove_at i xs = ys @ zs" "P x"
    "\<forall>y \<in> set ys. \<not> P y"
proof
  from position_Some [OF assms] have i: "i < length xs" by simp
  show "xs = take i xs @ xs ! i # drop (Suc i) xs" using i by (rule id_take_nth_drop)
  show "xs ! i = xs ! i" by simp
  show "remove_at i xs = take i xs @ drop (Suc i) xs" by (simp add: remove_at_def)
  show "P (xs ! i)" "\<forall>y \<in> set (take i xs). \<not> P y" using position_Some [OF assms] by auto
qed

text \<open>\<open>split\<close> on a separator, which always gives at least one piece, and \<open>join\<close>.\<close>

fun split_on :: "'a \<Rightarrow> 'a list \<Rightarrow> 'a list list" where
  "split_on c [] = [[]]"
| "split_on c (x # xs) =
     (if x = c then [] # split_on c xs
      else case split_on c xs of [] \<Rightarrow> [[x]] | y # ys \<Rightarrow> (x # y) # ys)"

fun join_with :: "'a list \<Rightarrow> 'a list list \<Rightarrow> 'a list" where
  "join_with sep [] = []"
| "join_with sep [x] = x"
| "join_with sep (x # y # xs) = x @ sep @ join_with sep (y # xs)"

lemma split_on_not_Nil [simp]: "split_on c xs \<noteq> []"
  by (induction xs) (auto split: list.splits)

lemma join_split_on: "join_with [c] (split_on c xs) = xs"
proof (induction xs)
  case (Cons x xs)
  obtain y ys where s: "split_on c xs = y # ys"
    using split_on_not_Nil [of c xs] by (meson neq_Nil_conv)
  with Cons show ?case by (cases ys) auto
qed simp

lemma split_on_pieces: "y \<in> set (split_on c xs) \<Longrightarrow> c \<notin> set y"
  by (induction xs arbitrary: y) (auto split: if_splits list.splits)

lemma split_on_append:
  "split_on c (xs @ ys) =
     butlast (split_on c xs) @ (last (split_on c xs) @ hd (split_on c ys)) # tl (split_on c ys)"
proof (induction xs)
  case Nil
  then show ?case by simp
next
  case (Cons x xs)
  obtain y zs where s: "split_on c xs = y # zs"
    using split_on_not_Nil [of c xs] by (meson neq_Nil_conv)
  with Cons show ?case by (cases zs) auto
qed

lemma split_on_sep: "split_on c (xs @ c # ys) = split_on c xs @ split_on c ys"
  using split_on_append [of c xs "c # ys"] append_butlast_last_id [OF split_on_not_Nil [of c xs]]
  by (metis (no_types, lifting) append.assoc append_Cons append_Nil append_Nil2 hd_Cons_tl
      list.sel(1,3) split_on.simps(2))

lemma split_on_none: "c \<notin> set xs \<Longrightarrow> split_on c xs = [xs]"
  by (induction xs) auto

lemma split_on_join:
  assumes "segs \<noteq> []" and "\<forall>s \<in> set segs. c \<notin> set s"
  shows "split_on c (join_with [c] segs) = segs"
  using assms
proof (induction "[c]" segs rule: join_with.induct)
  case (3 x y xs)
  then show ?case by (simp add: split_on_sep split_on_none)
qed (simp_all add: split_on_none)

lemma find_None_iff2: "find P xs = None \<longleftrightarrow> position P xs = None"
  by (auto simp: find_None_iff position_None)

end
