(* ===== verification/Proxy_Ops.thy ===== *)
theory Proxy_Ops
  imports Prelude
begin

text \<open>
  The wire types of the proxy protocol (\<open>adb-proxy/src/ops.rs\<close>): operation codes,
  status codes, open flags, file modes and the 60-byte \<open>Stat\<close> record.
\<close>

section \<open>Operation and status codes\<close>

datatype op =
    Op_Open | Op_Close | Op_Read | Op_Write | Op_Stat | Op_ListDir | Op_Mkdir | Op_Unlink
  | Op_Rmdir | Op_Rename | Op_Truncate | Op_ReadLink | Op_Symlink | Op_Lstat | Op_Utime
  | Op_DiskUsage | Op_CopyFile | Op_Fstat

fun op_code :: "op \<Rightarrow> u8" where
  "op_code Op_Open = 0x01"
| "op_code Op_Close = 0x02"
| "op_code Op_Read = 0x03"
| "op_code Op_Write = 0x04"
| "op_code Op_Stat = 0x05"
| "op_code Op_ListDir = 0x06"
| "op_code Op_Mkdir = 0x07"
| "op_code Op_Unlink = 0x08"
| "op_code Op_Rmdir = 0x09"
| "op_code Op_Rename = 0x0A"
| "op_code Op_Truncate = 0x0B"
| "op_code Op_ReadLink = 0x0D"
| "op_code Op_Symlink = 0x0E"
| "op_code Op_Lstat = 0x0F"
| "op_code Op_Utime = 0x10"
| "op_code Op_DiskUsage = 0x11"
| "op_code Op_CopyFile = 0x12"
| "op_code Op_Fstat = 0x13"

datatype status =
    Status_Ok | NotFound | PermissionDenied | IsDir | NotDir | Exists | NotEmpty | IoError
  | InvalidArg | NoSpace | NameTooLong | NotSupported

fun status_code :: "status \<Rightarrow> u8" where
  "status_code Status_Ok = 0x00"
| "status_code NotFound = 0x01"
| "status_code PermissionDenied = 0x02"
| "status_code IsDir = 0x03"
| "status_code NotDir = 0x04"
| "status_code Exists = 0x05"
| "status_code NotEmpty = 0x06"
| "status_code IoError = 0x07"
| "status_code InvalidArg = 0x08"
| "status_code NoSpace = 0x09"
| "status_code NameTooLong = 0x0A"
| "status_code NotSupported = 0x0B"

definition status_from_u8 :: "u8 \<Rightarrow> status" where
  "status_from_u8 v =
     (if v = 0x00 then Status_Ok
      else if v = 0x01 then NotFound
      else if v = 0x02 then PermissionDenied
      else if v = 0x03 then IsDir
      else if v = 0x04 then NotDir
      else if v = 0x05 then Exists
      else if v = 0x06 then NotEmpty
      else if v = 0x07 then IoError
      else if v = 0x08 then InvalidArg
      else if v = 0x09 then NoSpace
      else if v = 0x0A then NameTooLong
      else NotSupported)"

lemma status_from_code [simp]: "status_from_u8 (status_code s) = s"
  by (cases s) (simp_all add: status_from_u8_def)

lemma status_from_u8_Ok [simp]: "status_from_u8 v = Status_Ok \<longleftrightarrow> v = 0"
  by (simp add: status_from_u8_def)

lemma op_code_inj: "op_code a = op_code b \<longleftrightarrow> a = b"
  by (cases a; cases b) simp_all

section \<open>Open flags and file modes\<close>

definition OF_READ :: u32 where "OF_READ = 0x1"
definition OF_WRITE :: u32 where "OF_WRITE = 0x2"
definition OF_CREATE :: u32 where "OF_CREATE = 0x4"
definition OF_EXCL :: u32 where "OF_EXCL = 0x8"
definition OF_TRUNC :: u32 where "OF_TRUNC = 0x10"
definition OF_APPEND :: u32 where "OF_APPEND = 0x20"

lemmas open_flag_defs =
  OF_READ_def OF_WRITE_def OF_CREATE_def OF_EXCL_def OF_TRUNC_def OF_APPEND_def

text \<open>\<open>OpenFlags::from_octal\<close>; the octal masks 444 and 222 are written in hexadecimal.\<close>

definition from_octal :: "u32 \<Rightarrow> u32" where
  "from_octal mode =
     (let f = 0;
          f = (if mode AND 0x124 \<noteq> 0 then f OR OF_READ else f);
          f = (if mode AND 0x092 \<noteq> 0 then f OR OF_WRITE else f)
      in f)"

text \<open>\<open>FileMode\<close> is a newtype over \<open>u32\<close>.\<close>

definition S_IFMT :: u32 where "S_IFMT = 0xF000"
definition S_IFREG :: u32 where "S_IFREG = 0x8000"
definition S_IFDIR :: u32 where "S_IFDIR = 0x4000"
definition S_IFLNK :: u32 where "S_IFLNK = 0xA000"

definition mode_is_dir :: "u32 \<Rightarrow> bool" where
  "mode_is_dir m \<longleftrightarrow> m AND S_IFMT = S_IFDIR"

definition mode_is_symlink :: "u32 \<Rightarrow> bool" where
  "mode_is_symlink m \<longleftrightarrow> m AND S_IFMT = S_IFLNK"

definition mode_permissions :: "u32 \<Rightarrow> u32" where
  "mode_permissions m = m AND 0xFFF"

definition mode_dir :: u32 where "mode_dir = S_IFDIR OR 0x1ED"
definition mode_file :: u32 where "mode_file = S_IFREG OR 0x1A4"
definition mode_symlink :: u32 where "mode_symlink = S_IFLNK OR 0x1FF"

lemmas mode_defs =
  S_IFMT_def S_IFREG_def S_IFDIR_def S_IFLNK_def mode_is_dir_def mode_is_symlink_def
  mode_permissions_def mode_dir_def mode_file_def mode_symlink_def

section \<open>Request frames\<close>

text \<open>
  \<open>[op u8][len u32 LE][args]\<close>, as \<open>ProxyConn::request\<close> builds it; the length it
  writes has passed \<open>u32::try_from\<close>.
\<close>

definition request_frame :: "u8 \<Rightarrow> bytes \<Rightarrow> bytes" where
  "request_frame op args = op # to_le32 (word_of_nat (length args)) @ args"

section \<open>Stat\<close>

text \<open>The \<open>i64\<close> time stamps are 64-bit words; \<open>sint\<close> reads them.\<close>

record stat =
  s_mode :: u32
  s_size :: u64
  s_mtime :: u64
  s_atime :: u64
  s_ctime :: u64
  s_uid :: u32
  s_gid :: u32
  s_nlink :: u32
  s_blksize :: u32
  s_blocks :: u64

definition stat_encode :: "stat \<Rightarrow> bytes" where
  "stat_encode s =
     to_le32 (s_mode s) @ to_le64 (s_size s) @ to_le64 (s_mtime s) @ to_le64 (s_atime s)
     @ to_le64 (s_ctime s) @ to_le32 (s_uid s) @ to_le32 (s_gid s) @ to_le32 (s_nlink s)
     @ to_le32 (s_blksize s) @ to_le64 (s_blocks s)"

definition stat_decode :: "bytes \<Rightarrow> stat option" where
  "stat_decode bs =
     (if length bs < 60 then None
      else Some \<lparr>
        s_mode = from_le32 (slice 0 4 bs),
        s_size = from_le64 (slice 4 12 bs),
        s_mtime = from_le64 (slice 12 20 bs),
        s_atime = from_le64 (slice 20 28 bs),
        s_ctime = from_le64 (slice 28 36 bs),
        s_uid = from_le32 (slice 36 40 bs),
        s_gid = from_le32 (slice 40 44 bs),
        s_nlink = from_le32 (slice 44 48 bs),
        s_blksize = from_le32 (slice 48 52 bs),
        s_blocks = from_le64 (slice 52 60 bs) \<rparr>)"

record dir_entry =
  de_name :: string
  de_stat :: stat

lemma length_stat_encode [simp, wire_simps]: "length (stat_encode s) = 60"
  by (simp add: stat_encode_def)

lemma stat_decode_encode [simp, wire_simps]: "stat_decode (stat_encode s @ rest) = Some s"
  by (simp add: stat_decode_def stat_encode_def)

lemma stat_decode_encode_Nil [simp, wire_simps]: "stat_decode (stat_encode s) = Some s"
  using stat_decode_encode [of s "[]"] by simp

lemma slice_concat: "a \<le> b \<Longrightarrow> b \<le> c \<Longrightarrow> slice a b xs @ slice b c xs = slice a c xs"
proof -
  assume ab: "a \<le> b" and bc: "b \<le> c"
  then have "take (b - a) (drop a xs) @ take (c - b) (drop (b - a) (drop a xs))
      = take ((b - a) + (c - b)) (drop a xs)"
    by (metis take_add)
  with ab bc show ?thesis by (simp add: slice_def)
qed

lemma stat_encode_decode:
  assumes "stat_decode bs = Some s"
  shows "stat_encode s = take 60 bs"
proof -
  from assms have len: "60 \<le> length bs" by (simp add: stat_decode_def split: if_splits)
  with assms have "stat_encode s =
      slice 0 4 bs @ slice 4 12 bs @ slice 12 20 bs @ slice 20 28 bs @ slice 28 36 bs
      @ slice 36 40 bs @ slice 40 44 bs @ slice 44 48 bs @ slice 48 52 bs @ slice 52 60 bs"
    by (auto simp: stat_decode_def stat_encode_def le32.enc_dec le64.enc_dec)
  also have "\<dots> = slice 0 60 bs" by (simp add: slice_concat)
  finally show ?thesis by (simp add: slice_def)
qed

interpretation stat_codec: fixed_codec stat_encode "\<lambda>bs. the (stat_decode bs)" 60
proof unfold_locales
  fix bs :: bytes
  assume len: "length bs = 60"
  then obtain s where "stat_decode bs = Some s" by (simp add: stat_decode_def)
  with stat_encode_decode [OF this] len show "stat_encode (the (stat_decode bs)) = bs" by simp
qed simp_all

end
