(* ===== verification/Device_Proxy.thy ===== *)
theory Device_Proxy
  imports Proxy_Ops "HOL-Library.AList"
begin

text \<open>
  The phone-side helper (\<open>adbshare-proxy-device/src/main.rs\<close>): request framing, the
  handler of every operation code, the table of open descriptors and the idle
  watchdog. The kernel is not part of the sources: its system calls are the fields of
  a record \<open>libc\<close> over an arbitrary kernel state, and every handler takes that record
  as an argument. The log file (\<open>wlog\<close>) is not modelled.
\<close>

definition MAX_REQUEST :: nat where "MAX_REQUEST = 8 * 1024 * 1024"
definition MAX_PATH :: nat where "MAX_PATH = 4096"
definition MAX_RESPONSE :: nat where "MAX_RESPONSE = 8 * 1024 * 1024"
definition LISTDIR_PAGE :: nat where "LISTDIR_PAGE = 16384"

section \<open>The kernel interface\<close>

type_synonym errno = nat
type_synonym fd = u32

definition EPERM :: errno where "EPERM = 1"
definition ENOENT :: errno where "ENOENT = 2"
definition EACCES :: errno where "EACCES = 13"
definition EEXIST :: errno where "EEXIST = 17"
definition ENOTDIR :: errno where "ENOTDIR = 20"
definition EISDIR :: errno where "EISDIR = 21"
definition EINVAL :: errno where "EINVAL = 22"
definition ENOSPC :: errno where "ENOSPC = 28"
definition ENAMETOOLONG :: errno where "ENAMETOOLONG = 36"
definition ELOOP :: errno where "ELOOP = 40"

lemmas errno_defs =
  EPERM_def ENOENT_def EACCES_def EEXIST_def ENOTDIR_def EISDIR_def EINVAL_def ENOSPC_def
  ENAMETOOLONG_def ELOOP_def

definition O_RDONLY :: u32 where "O_RDONLY = 0"
definition O_WRONLY :: u32 where "O_WRONLY = 1"
definition O_RDWR :: u32 where "O_RDWR = 2"
definition O_CREAT :: u32 where "O_CREAT = 0x40"
definition O_EXCL :: u32 where "O_EXCL = 0x80"
definition O_TRUNC :: u32 where "O_TRUNC = 0x200"
definition O_APPEND :: u32 where "O_APPEND = 0x400"

lemmas libc_flag_defs =
  O_RDONLY_def O_WRONLY_def O_RDWR_def O_CREAT_def O_EXCL_def O_TRUNC_def O_APPEND_def

text \<open>The fields of \<open>struct stat\<close> the helper reads, on a 64-bit phone.\<close>

record libc_stat =
  st_dev :: u64
  st_ino :: u64
  st_mode :: u32
  st_size :: u64
  st_mtime :: u64
  st_atime :: u64
  st_ctime :: u64
  st_uid :: u32
  st_gid :: u32
  st_nlink :: u64
  st_blksize :: u64
  st_blocks :: u64

text \<open>
  The calls, on the path the kernel sees (the bytes before the terminating NUL).
  \<open>c_opendir\<close> gives the names successive \<open>readdir\<close> calls return. \<open>c_open_nofollow\<close>,
  \<open>c_open_directory\<close> and \<open>c_openat_excl\<close> are \<open>open\<close> and \<open>openat\<close> with the fixed flags
  \<open>do_copy_file\<close> uses, and \<open>c_copy\<close> is \<open>std::io::copy\<close> from a descriptor limited to
  a number of bytes, giving the number of bytes it copied.
\<close>

record 'os libc =
  c_open :: "bytes \<Rightarrow> u32 \<Rightarrow> u32 \<Rightarrow> 'os \<Rightarrow> (errno + fd) \<times> 'os"
  c_close :: "fd \<Rightarrow> 'os \<Rightarrow> bool \<times> 'os"
  c_pread :: "fd \<Rightarrow> nat \<Rightarrow> u64 \<Rightarrow> 'os \<Rightarrow> bytes option"
  c_pwrite :: "fd \<Rightarrow> bytes \<Rightarrow> u64 \<Rightarrow> 'os \<Rightarrow> nat option \<times> 'os"
  c_stat :: "bytes \<Rightarrow> 'os \<Rightarrow> errno + libc_stat"
  c_lstat :: "bytes \<Rightarrow> 'os \<Rightarrow> errno + libc_stat"
  c_fstat :: "fd \<Rightarrow> 'os \<Rightarrow> errno + libc_stat"
  c_opendir :: "bytes \<Rightarrow> 'os \<Rightarrow> errno + bytes list"
  c_mkdir :: "bytes \<Rightarrow> u32 \<Rightarrow> 'os \<Rightarrow> bool \<times> 'os"
  c_unlink :: "bytes \<Rightarrow> 'os \<Rightarrow> bool \<times> 'os"
  c_rmdir :: "bytes \<Rightarrow> 'os \<Rightarrow> bool \<times> 'os"
  c_rename :: "bytes \<Rightarrow> bytes \<Rightarrow> 'os \<Rightarrow> bool \<times> 'os"
  c_truncate :: "bytes \<Rightarrow> u64 \<Rightarrow> 'os \<Rightarrow> bool \<times> 'os"
  c_realpath :: "bytes \<Rightarrow> 'os \<Rightarrow> bytes option"
  c_readlink :: "bytes \<Rightarrow> nat \<Rightarrow> 'os \<Rightarrow> errno + bytes"
  c_symlink :: "bytes \<Rightarrow> bytes \<Rightarrow> 'os \<Rightarrow> bool \<times> 'os"
  c_utimes :: "bytes \<Rightarrow> u64 \<Rightarrow> u64 \<Rightarrow> 'os \<Rightarrow> bool \<times> 'os"
  c_statvfs :: "bytes \<Rightarrow> 'os \<Rightarrow> (u64 \<times> u64 \<times> u64) option"
  c_open_nofollow :: "bytes \<Rightarrow> 'os \<Rightarrow> (errno + fd) \<times> 'os"
  c_open_directory :: "bytes \<Rightarrow> 'os \<Rightarrow> (errno + fd) \<times> 'os"
  c_openat_excl :: "fd \<Rightarrow> bytes \<Rightarrow> 'os \<Rightarrow> (errno + fd) \<times> 'os"
  c_copy :: "fd \<Rightarrow> fd \<Rightarrow> u64 \<Rightarrow> 'os \<Rightarrow> (errno + u64) \<times> 'os"
  c_fsync :: "fd \<Rightarrow> 'os \<Rightarrow> errno option \<times> 'os"
  c_fstatat :: "fd \<Rightarrow> bytes \<Rightarrow> 'os \<Rightarrow> libc_stat option"
  c_unlinkat :: "fd \<Rightarrow> bytes \<Rightarrow> 'os \<Rightarrow> 'os"
  c_strerror :: "errno \<Rightarrow> string"

text \<open>The path a NUL-terminated buffer names.\<close>

definition c_str :: "bytes \<Rightarrow> bytes" where
  "c_str bs = takeWhile (\<lambda>b. b \<noteq> 0) bs"

lemma c_str_nul [simp]: "0 \<notin> set p \<Longrightarrow> c_str (p @ [0]) = p"
  by (induction p) (auto simp: c_str_def)

section \<open>Open descriptors and the idle watchdog\<close>

text \<open>
  \<open>OwnedFds\<close>: the \<open>HashMap\<close> from descriptor to owning connection is an association
  list. The helper's state is this table and the kernel's state.
\<close>

type_synonym owned_fds = "(fd \<times> u64) list"

record 'os dev =
  owned :: owned_fds
  kernel :: 'os

definition track :: "fd \<Rightarrow> u64 \<Rightarrow> owned_fds \<Rightarrow> owned_fds" where
  "track f conn t = AList.update f conn t"

definition untrack :: "fd \<Rightarrow> owned_fds \<Rightarrow> owned_fds" where
  "untrack f t = AList.delete f t"

definition count_for :: "u64 \<Rightarrow> owned_fds \<Rightarrow> nat" where
  "count_for conn t = length (filter (\<lambda>(_, o'). o' = conn) t)"

text \<open>
  \<open>spawn_idle_watchdog\<close>: what \<open>recv_timeout\<close> returned, together with the table as it
  was at that moment. The thread ends when the connection is gone, or after it has
  shut the socket down.
\<close>

datatype wd_event = Activity | Disconnected_wd | Timeout_wd owned_fds
datatype wd_outcome = Waiting | Returned | Shutdown

fun idle_watchdog :: "u64 \<Rightarrow> wd_event list \<Rightarrow> wd_outcome" where
  "idle_watchdog conn [] = Waiting"
| "idle_watchdog conn (Activity # es) = idle_watchdog conn es"
| "idle_watchdog conn (Disconnected_wd # es) = Returned"
| "idle_watchdog conn (Timeout_wd t # es) =
     (let held = count_for conn t
      in if held > 0 then idle_watchdog conn es else Shutdown)"

section \<open>Paths and errors\<close>

definition read_path :: "bytes \<Rightarrow> (bytes \<times> bytes) option" where
  "read_path args =
     (if length args < 4 then None
      else let len = unat (from_le32 (slice 0 4 args))
           in if len > MAX_PATH \<or> length args < 4 + len then None
              else Some (slice 4 (4 + len) args, drop (4 + len) args))"

text \<open>\<open>CString::new\<close> refuses an interior NUL.\<close>

definition cstring :: "bytes \<Rightarrow> bytes option" where
  "cstring path = (if 0 \<in> set path then None else Some path)"

definition SLASH :: u8 where "SLASH = 0x2F"
definition DOT :: u8 where "DOT = 0x2E"

definition starts_with_slash :: "bytes \<Rightarrow> bool" where
  "starts_with_slash p = (case p of [] \<Rightarrow> False | b # _ \<Rightarrow> b = SLASH)"

definition read_two_paths :: "bytes \<Rightarrow> (bytes \<times> bytes) option" where
  "read_two_paths args =
     (case read_path args of None \<Rightarrow> None
      | Some (src, rest) \<Rightarrow>
          (case read_path rest of None \<Rightarrow> None
           | Some (dst, rest) \<Rightarrow>
               if rest \<noteq> [] \<or> list_ex (\<lambda>p. \<not> starts_with_slash p \<or> 0 \<in> set p) [src, dst]
               then None else Some (src, dst)))"

text \<open>An \<open>io::Error\<close> carries an errno, or only a message.\<close>

datatype io_error = Os errno | Custom string

definition io_message :: "'os libc \<Rightarrow> io_error \<Rightarrow> string" where
  "io_message L e = (case e of Os n \<Rightarrow> c_strerror L n | Custom s \<Rightarrow> s)"

type_synonym wire_error = "u8 \<times> string"

definition copy_error :: "'os libc \<Rightarrow> io_error \<Rightarrow> wire_error" where
  "copy_error L e =
     (let status = (case e of
          Os n \<Rightarrow> (if n = ENOENT then 0x01
                  else if n = EACCES \<or> n = EPERM then 0x02
                  else if n = EISDIR then 0x03
                  else if n = ENOTDIR then 0x04
                  else if n = EEXIST then 0x05
                  else if n = EINVAL \<or> n = ELOOP then 0x08
                  else if n = ENOSPC then 0x09
                  else if n = ENAMETOOLONG then 0x0A
                  else 0x07)
        | Custom _ \<Rightarrow> 0x07)
      in (status, io_message L e))"

definition stat_error :: "'os libc \<Rightarrow> errno \<Rightarrow> wire_error" where
  "stat_error L n =
     (let status = (if n = ENOENT then 0x01
                    else if n = EACCES \<or> n = EPERM then 0x02
                    else if n = ENOTDIR then 0x04
                    else if n = ELOOP then 0x08
                    else if n = ENAMETOOLONG then 0x0A
                    else 0x07)
      in (status, c_strerror L n))"

section \<open>Stat and directory listings\<close>

definition encode_stat :: "libc_stat \<Rightarrow> bytes" where
  "encode_stat st =
     to_le32 (st_mode st) @ to_le64 (st_size st) @ to_le64 (st_mtime st)
     @ to_le64 (st_atime st) @ to_le64 (st_ctime st) @ to_le32 (st_uid st)
     @ to_le32 (st_gid st) @ to_le32 (ucast (st_nlink st)) @ to_le32 (ucast (st_blksize st))
     @ to_le64 (st_blocks st)"

definition do_stat :: "'os libc \<Rightarrow> bytes \<Rightarrow> 'os \<Rightarrow> wire_error + bytes" where
  "do_stat L path os =
     (case c_stat L (c_str (path @ [0])) os of
        Inl e \<Rightarrow> Err (stat_error L e)
      | Inr st \<Rightarrow> Ok (encode_stat st))"

definition do_lstat :: "'os libc \<Rightarrow> bytes \<Rightarrow> 'os \<Rightarrow> wire_error + bytes" where
  "do_lstat L path os =
     (case c_lstat L (c_str (path @ [0])) os of
        Inl e \<Rightarrow> Err (stat_error L e)
      | Inr st \<Rightarrow> Ok (encode_stat st))"

text \<open>The path of a directory entry: \<open>path\<close>, a slash unless it ends in one, the name.\<close>

definition entry_path :: "bytes \<Rightarrow> bytes \<Rightarrow> bytes" where
  "entry_path path name =
     (if path \<noteq> [] \<and> last path = SLASH then path else path @ [SLASH]) @ name"

definition encode_entry :: "bytes \<Rightarrow> libc_stat \<Rightarrow> bytes" where
  "encode_entry name st = to_le32 (word_of_nat (length name)) @ name @ encode_stat st"

text \<open>The loop of \<open>do_listdir\<close>, with its counters \<open>seen\<close> and \<open>emitted\<close> and its buffer.\<close>

fun listdir_loop ::
  "'os libc \<Rightarrow> bytes \<Rightarrow> 'os \<Rightarrow> nat \<Rightarrow> nat \<Rightarrow> bytes list \<Rightarrow> nat \<Rightarrow> nat \<Rightarrow> bytes \<Rightarrow> nat \<times> bytes"
where
  "listdir_loop L path os offset max_entries [] seen emitted body = (emitted, body)"
| "listdir_loop L path os offset max_entries (name # names) seen emitted body =
     (if name = [DOT] \<or> name = [DOT, DOT]
      then listdir_loop L path os offset max_entries names seen emitted body
      else let seen = seen + 1
           in if seen \<le> offset
              then listdir_loop L path os offset max_entries names seen emitted body
              else case c_lstat L (c_str (entry_path path name @ [0])) os of
                     Inl _ \<Rightarrow> listdir_loop L path os offset max_entries names seen emitted body
                   | Inr st \<Rightarrow>
                       (let body = body @ encode_entry name st;
                            emitted = emitted + 1
                        in if emitted \<ge> max_entries then (emitted, body)
                           else listdir_loop L path os offset max_entries names seen emitted body))"

definition do_listdir ::
  "'os libc \<Rightarrow> bytes \<Rightarrow> nat \<Rightarrow> nat \<Rightarrow> 'os \<Rightarrow> wire_error + bytes" where
  "do_listdir L path offset max_entries os =
     (case c_opendir L (c_str (path @ [0])) os of
        Inl e \<Rightarrow> Err (stat_error L e)
      | Inr names \<Rightarrow>
          (let (emitted, body) = listdir_loop L path os offset max_entries names 0 0 []
           in Ok (to_le32 (word_of_nat emitted) @ body)))"

section \<open>Opening a file\<close>

definition libc_open_flags :: "u32 \<Rightarrow> u32" where
  "libc_open_flags proto_flags =
     (let lflags = 0;
          lflags = (if proto_flags AND OF_READ \<noteq> 0 \<and> proto_flags AND OF_WRITE \<noteq> 0
                    then lflags OR O_RDWR
                    else if proto_flags AND OF_WRITE \<noteq> 0 then lflags OR O_WRONLY
                    else lflags OR O_RDONLY);
          lflags = (if proto_flags AND OF_CREATE \<noteq> 0 then lflags OR O_CREAT else lflags);
          lflags = (if proto_flags AND OF_EXCL \<noteq> 0 then lflags OR O_EXCL else lflags);
          lflags = (if proto_flags AND OF_TRUNC \<noteq> 0 then lflags OR O_TRUNC else lflags);
          lflags = (if proto_flags AND OF_APPEND \<noteq> 0 then lflags OR O_APPEND else lflags)
      in lflags)"

definition handle_open :: "'os libc \<Rightarrow> bytes \<Rightarrow> 'os \<Rightarrow> (wire_error + fd) \<times> 'os" where
  "handle_open L args os =
     (if length args < 8 then (Err (0x08, ''short''), os)
      else let proto_flags = from_le32 (slice 0 4 args);
               mode = from_le32 (slice 4 8 args)
           in if length args < 12 then (Err (0x08, ''short''), os)
              else let path_len = unat (from_le32 (slice 8 12 args))
                   in if length args < 12 + path_len then (Err (0x08, ''short''), os)
                      else let path = slice 12 (12 + path_len) args;
                               cpath = path @ [0];
                               lflags = libc_open_flags proto_flags
                           in case c_open L (c_str cpath) lflags mode os of
                                (Inl _, os') \<Rightarrow> (Err (0x07, ''open''), os')
                              | (Inr f, os') \<Rightarrow> (Ok f, os'))"

end
