(* ===== verification/Device_Dispatch.thy ===== *)
theory Device_Dispatch
  imports Device_Proxy
begin

text \<open>
  The phone-side helper, second part (\<open>adbshare-proxy-device/src/main.rs\<close>): copying a
  file on the phone, \<open>dispatch\<close> with one definition per operation code, and the request
  loop of \<open>handle_connection\<close>.
\<close>

section \<open>Copying a file\<close>

text \<open>The last component \<open>rsplit\<close> gives, and \<open>Path::parent\<close> of an absolute path.\<close>

definition last_component :: "bytes \<Rightarrow> bytes" where
  "last_component p = last (split_on SLASH p)"

definition path_parent :: "bytes \<Rightarrow> bytes" where
  "path_parent p =
     (let segs = rev (dropWhile (\<lambda>s. s = [] \<or> s = [DOT]) (rev (butlast (split_on SLASH p))))
      in if segs = [] then [SLASH] else join_with [SLASH] segs)"

definition mode_is_file :: "u32 \<Rightarrow> bool" where
  "mode_is_file m \<longleftrightarrow> m AND S_IFMT = S_IFREG"

definition remove_owned_partial :: "'os libc \<Rightarrow> fd \<Rightarrow> bytes \<Rightarrow> fd \<Rightarrow> 'os \<Rightarrow> 'os" where
  "remove_owned_partial L parent name file os =
     (case c_fstat L file os of
        Inl _ \<Rightarrow> os
      | Inr own \<Rightarrow>
          (case c_fstatat L parent name os of
             None \<Rightarrow> os
           | Some current \<Rightarrow>
               if st_dev current = st_dev own \<and> st_ino current = st_ino own
               then c_unlinkat L parent name os else os))"

definition copy_into_owned ::
  "'os libc \<Rightarrow> fd \<Rightarrow> u64 \<Rightarrow> fd \<Rightarrow> fd \<Rightarrow> bytes \<Rightarrow> 'os \<Rightarrow> (io_error + unit) \<times> 'os" where
  "copy_into_owned L source size' destination parent name os =
     (let (copied, os) = c_copy L source destination size' os;
          os = snd (c_close L source os);
          (result, os) =
            (case copied of
               Inl e \<Rightarrow> (Err (Os e), os)
             | Inr n \<Rightarrow>
                 if n \<noteq> size' then (Err (Custom ''source shortened during copy''), os)
                 else (case c_fsync L destination os of
                         (Some e, os) \<Rightarrow> (Err (Os e), os)
                       | (None, os) \<Rightarrow> (Ok (), os)));
          os = (if is_ok result then os else remove_owned_partial L parent name destination os)
      in (result, os))"

definition bad_copy_path :: "bytes \<Rightarrow> bool" where
  "bad_copy_path p \<longleftrightarrow> \<not> starts_with_slash p \<or> 0 \<in> set p \<or> length p > MAX_PATH"

definition do_copy_file :: "'os libc \<Rightarrow> bytes \<Rightarrow> bytes \<Rightarrow> 'os \<Rightarrow> (wire_error + unit) \<times> 'os" where
  "do_copy_file L src dst os =
     (if list_ex bad_copy_path [src, dst] then (Err (0x08, ''bad path''), os)
      else case c_open_nofollow L src os of
        (Inl e, os) \<Rightarrow> (Err (copy_error L (Os e)), os)
      | (Inr source, os) \<Rightarrow>
         (case c_fstat L source os of
            Inl e \<Rightarrow> (Err (copy_error L (Os e)), snd (c_close L source os))
          | Inr metadata \<Rightarrow>
             if \<not> mode_is_file (st_mode metadata)
             then (Err (if mode_is_dir (st_mode metadata) then 0x03 else 0x08,
                        ''source must be a regular file''), snd (c_close L source os))
             else if last_component dst \<in> {[], [DOT], [DOT, DOT]}
             then (Err (0x08, ''destination must name a file''), snd (c_close L source os))
             else let name = last_component dst
                  in case c_open_directory L (path_parent dst) os of
                       (Inl e, os) \<Rightarrow> (Err (copy_error L (Os e)), snd (c_close L source os))
                     | (Inr parent, os) \<Rightarrow>
                        (case c_openat_excl L parent name os of
                           (Inl e, os) \<Rightarrow>
                             (Err (copy_error L (Os e)),
                              snd (c_close L parent (snd (c_close L source os))))
                         | (Inr destination, os) \<Rightarrow>
                             (let (result, os) =
                                copy_into_owned L source (st_size metadata) destination parent name os;
                                  os = snd (c_close L parent (snd (c_close L destination os)))
                              in (case result of Inl e \<Rightarrow> Err (copy_error L e) | Inr u \<Rightarrow> Ok u, os)))))"

section \<open>Dispatch\<close>

text \<open>A reply body: a status byte, then the data or the message.\<close>

abbreviation reply_ok :: "bytes \<Rightarrow> bytes" where
  "reply_ok data \<equiv> 0 # data"

definition reply_err :: "u8 \<Rightarrow> string \<Rightarrow> bytes" where
  "reply_err s msg = s # as_bytes msg"

abbreviation reply_bad_path :: bytes where
  "reply_bad_path \<equiv> reply_err 0x08 ''bad path''"

text \<open>A call that succeeds or fails, reported under its own name as \<open>IoError\<close>.\<close>

definition unit_reply :: "string \<Rightarrow> bool \<times> 'os \<Rightarrow> 'os dev \<Rightarrow> bytes \<times> 'os dev" where
  "unit_reply what r d =
     (if fst r then (reply_ok [], d\<lparr>kernel := snd r\<rparr>)
      else (reply_err 0x07 what, d\<lparr>kernel := snd r\<rparr>))"

definition dispatch_open :: "'os libc \<Rightarrow> bytes \<Rightarrow> u64 \<Rightarrow> 'os dev \<Rightarrow> bytes \<times> 'os dev" where
  "dispatch_open L args conn d =
     (case handle_open L args (kernel d) of
        (Inr f, os) \<Rightarrow> (reply_ok (to_le32 f), d\<lparr>owned := track f conn (owned d), kernel := os\<rparr>)
      | (Inl (s, msg), os) \<Rightarrow> (reply_err s msg, d\<lparr>kernel := os\<rparr>))"

definition dispatch_close :: "'os libc \<Rightarrow> bytes \<Rightarrow> 'os dev \<Rightarrow> bytes \<times> 'os dev" where
  "dispatch_close L args d =
     (if length args < 4 then (reply_err 0x08 ''short'', d)
      else let f = from_le32 (slice 0 4 args)
           in case c_close L f (kernel d) of
                (True, os) \<Rightarrow> (reply_ok [], d\<lparr>owned := untrack f (owned d), kernel := os\<rparr>)
              | (False, os) \<Rightarrow> (reply_err 0x07 ''close failed'', d\<lparr>kernel := os\<rparr>))"

definition dispatch_read :: "'os libc \<Rightarrow> bytes \<Rightarrow> 'os dev \<Rightarrow> bytes \<times> 'os dev" where
  "dispatch_read L args d =
     (if length args < 16 then (reply_err 0x08 ''short'', d)
      else let f = from_le32 (slice 0 4 args);
               off = from_le64 (slice 4 12 args);
               len = unat (from_le32 (slice 12 16 args))
           in if len > MAX_RESPONSE then (reply_err 0x07 ''too big'', d)
              else case c_pread L f len off (kernel d) of
                     None \<Rightarrow> (reply_err 0x07 ''pread'', d)
                   | Some tmp \<Rightarrow> (reply_ok tmp, d))"

definition dispatch_write :: "'os libc \<Rightarrow> bytes \<Rightarrow> 'os dev \<Rightarrow> bytes \<times> 'os dev" where
  "dispatch_write L args d =
     (if length args < 16 then (reply_err 0x08 ''short'', d)
      else let f = from_le32 (slice 0 4 args);
               off = from_le64 (slice 4 12 args);
               len = unat (from_le32 (slice 12 16 args))
           in if length args < 16 + len then (reply_err 0x08 ''short'', d)
              else let data = slice 16 (16 + len) args
                   in case c_pwrite L f data off (kernel d) of
                        (None, os) \<Rightarrow> (reply_err 0x07 ''pwrite'', d\<lparr>kernel := os\<rparr>)
                      | (Some n, os) \<Rightarrow>
                          if n \<noteq> len then (reply_err 0x07 ''short write'', d\<lparr>kernel := os\<rparr>)
                          else (reply_ok [], d\<lparr>kernel := os\<rparr>))"

definition dispatch_stat :: "'os libc \<Rightarrow> u8 \<Rightarrow> bytes \<Rightarrow> 'os dev \<Rightarrow> bytes \<times> 'os dev" where
  "dispatch_stat L op args d =
     (case read_path args of
        Some (path, _) \<Rightarrow>
          (case (if op = 0x05 then do_stat L path (kernel d) else do_lstat L path (kernel d)) of
             Inr s \<Rightarrow> (reply_ok s, d)
           | Inl (s, msg) \<Rightarrow> (reply_err s msg, d))
      | None \<Rightarrow> (reply_bad_path, d))"

definition dispatch_fstat :: "'os libc \<Rightarrow> bytes \<Rightarrow> 'os dev \<Rightarrow> bytes \<times> 'os dev" where
  "dispatch_fstat L args d =
     (if length args < 4 then (reply_err 0x08 ''short fstat'', d)
      else case c_fstat L (from_le32 (slice 0 4 args)) (kernel d) of
             Inl _ \<Rightarrow> (reply_err 0x07 ''fstat'', d)
           | Inr st \<Rightarrow> (reply_ok (encode_stat st), d))"

definition dispatch_listdir :: "'os libc \<Rightarrow> bytes \<Rightarrow> 'os dev \<Rightarrow> bytes \<times> 'os dev" where
  "dispatch_listdir L args d =
     (case read_path args of
        Some (path, rest) \<Rightarrow>
          (let (offset, max_entries) =
                 (if length rest \<ge> 8
                  then (unat (from_le32 (slice 0 4 rest)), unat (from_le32 (slice 4 8 rest)))
                  else (0, LISTDIR_PAGE))
           in case do_listdir L path offset (max max_entries 1) (kernel d) of
                Inr data \<Rightarrow> (reply_ok data, d)
              | Inl (s, msg) \<Rightarrow> (reply_err s msg, d))
      | None \<Rightarrow> (reply_bad_path, d))"

definition dispatch_mkdir :: "'os libc \<Rightarrow> bytes \<Rightarrow> 'os dev \<Rightarrow> bytes \<times> 'os dev" where
  "dispatch_mkdir L args d =
     (case read_path args of
        Some (path, rest) \<Rightarrow>
          if length rest < 4 then (reply_err 0x08 ''short'', d)
          else let mode = from_le32 (slice 0 4 rest)
               in (case cstring path of
                     Some p \<Rightarrow> unit_reply ''mkdir'' (c_mkdir L p mode (kernel d)) d
                   | None \<Rightarrow> (reply_bad_path, d))
      | None \<Rightarrow> (reply_bad_path, d))"

definition dispatch_unlink :: "'os libc \<Rightarrow> bytes \<Rightarrow> 'os dev \<Rightarrow> bytes \<times> 'os dev" where
  "dispatch_unlink L args d =
     (case read_path args of
        Some (path, _) \<Rightarrow>
          (case cstring path of
             Some p \<Rightarrow> unit_reply ''unlink'' (c_unlink L p (kernel d)) d
           | None \<Rightarrow> (reply_bad_path, d))
      | None \<Rightarrow> (reply_bad_path, d))"

definition dispatch_rmdir :: "'os libc \<Rightarrow> bytes \<Rightarrow> 'os dev \<Rightarrow> bytes \<times> 'os dev" where
  "dispatch_rmdir L args d =
     (case read_path args of
        Some (path, _) \<Rightarrow>
          (case cstring path of
             Some p \<Rightarrow> unit_reply ''rmdir'' (c_rmdir L p (kernel d)) d
           | None \<Rightarrow> (reply_bad_path, d))
      | None \<Rightarrow> (reply_bad_path, d))"

definition dispatch_rename :: "'os libc \<Rightarrow> bytes \<Rightarrow> 'os dev \<Rightarrow> bytes \<times> 'os dev" where
  "dispatch_rename L args d =
     (case read_path args of
        Some (src, rest) \<Rightarrow>
          (case read_path rest of
             Some (dst, _) \<Rightarrow>
               (case (cstring src, cstring dst) of
                  (Some s, Some t) \<Rightarrow> unit_reply ''rename'' (c_rename L s t (kernel d)) d
                | _ \<Rightarrow> (reply_bad_path, d))
           | None \<Rightarrow> (reply_bad_path, d))
      | None \<Rightarrow> (reply_bad_path, d))"

definition dispatch_truncate :: "'os libc \<Rightarrow> bytes \<Rightarrow> 'os dev \<Rightarrow> bytes \<times> 'os dev" where
  "dispatch_truncate L args d =
     (case read_path args of
        Some (path, rest) \<Rightarrow>
          if length rest < 8 then (reply_err 0x08 ''short'', d)
          else let size' = from_le64 (slice 0 8 rest)
               in (case cstring path of
                     Some p \<Rightarrow> unit_reply ''truncate'' (c_truncate L p size' (kernel d)) d
                   | None \<Rightarrow> (reply_bad_path, d))
      | None \<Rightarrow> (reply_bad_path, d))"

definition dispatch_realpath :: "'os libc \<Rightarrow> bytes \<Rightarrow> 'os dev \<Rightarrow> bytes \<times> 'os dev" where
  "dispatch_realpath L args d =
     (case read_path args of
        Some (path, _) \<Rightarrow>
          (case cstring path of
             Some p \<Rightarrow>
               (case c_realpath L p (kernel d) of
                  None \<Rightarrow> (reply_err 0x01 ''realpath'', d)
                | Some r \<Rightarrow> (reply_ok (to_le32 (word_of_nat (length r)) @ r), d))
           | None \<Rightarrow> (reply_bad_path, d))
      | None \<Rightarrow> (reply_bad_path, d))"

definition dispatch_readlink :: "'os libc \<Rightarrow> bytes \<Rightarrow> 'os dev \<Rightarrow> bytes \<times> 'os dev" where
  "dispatch_readlink L args d =
     (case read_path args of
        Some (path, _) \<Rightarrow>
          (case cstring path of
             Some p \<Rightarrow>
               (case c_readlink L p 4096 (kernel d) of
                  Inl e \<Rightarrow>
                    (let (status, msg) = (if e = EINVAL then (0x08, c_strerror L e) else stat_error L e)
                     in (reply_err status msg, d))
                | Inr buf \<Rightarrow> (reply_ok (to_le32 (word_of_nat (length buf)) @ buf), d))
           | None \<Rightarrow> (reply_bad_path, d))
      | None \<Rightarrow> (reply_bad_path, d))"

definition dispatch_symlink :: "'os libc \<Rightarrow> bytes \<Rightarrow> 'os dev \<Rightarrow> bytes \<times> 'os dev" where
  "dispatch_symlink L args d =
     (case read_path args of
        Some (target, rest) \<Rightarrow>
          (case read_path rest of
             Some (linkpath, _) \<Rightarrow>
               (case (cstring target, cstring linkpath) of
                  (Some t, Some l) \<Rightarrow> unit_reply ''symlink'' (c_symlink L t l (kernel d)) d
                | _ \<Rightarrow> (reply_bad_path, d))
           | None \<Rightarrow> (reply_bad_path, d))
      | None \<Rightarrow> (reply_bad_path, d))"

definition dispatch_utime :: "'os libc \<Rightarrow> bytes \<Rightarrow> 'os dev \<Rightarrow> bytes \<times> 'os dev" where
  "dispatch_utime L args d =
     (case read_path args of
        Some (path, rest) \<Rightarrow>
          if length rest < 16 then (reply_err 0x08 ''short'', d)
          else let atime = from_le64 (slice 0 8 rest);
                   mtime = from_le64 (slice 8 16 rest)
               in (case cstring path of
                     Some p \<Rightarrow> unit_reply ''utimes'' (c_utimes L p atime mtime (kernel d)) d
                   | None \<Rightarrow> (reply_bad_path, d))
      | None \<Rightarrow> (reply_bad_path, d))"

definition dispatch_diskusage :: "'os libc \<Rightarrow> bytes \<Rightarrow> 'os dev \<Rightarrow> bytes \<times> 'os dev" where
  "dispatch_diskusage L args d =
     (case read_path args of
        Some (path, _) \<Rightarrow>
          (case cstring path of
             Some p \<Rightarrow>
               (case c_statvfs L p (kernel d) of
                  None \<Rightarrow> (reply_err 0x07 ''statvfs'', d)
                | Some (bavail, blocks, bsize) \<Rightarrow>
                    (reply_ok (to_le64 bavail @ to_le64 blocks @ to_le64 bsize), d))
           | None \<Rightarrow> (reply_bad_path, d))
      | None \<Rightarrow> (reply_bad_path, d))"

definition dispatch_copyfile :: "'os libc \<Rightarrow> bytes \<Rightarrow> 'os dev \<Rightarrow> bytes \<times> 'os dev" where
  "dispatch_copyfile L args d =
     (case read_two_paths args of
        Some (src, dst) \<Rightarrow>
          (case do_copy_file L src dst (kernel d) of
             (Inr _, os) \<Rightarrow> (reply_ok [], d\<lparr>kernel := os\<rparr>)
           | (Inl (s, msg), os) \<Rightarrow> (reply_err s msg, d\<lparr>kernel := os\<rparr>))
      | None \<Rightarrow> (reply_bad_path, d))"

text \<open>The \<open>match\<close> on the operation code, and the length prefix around every reply.\<close>

definition dispatch_body :: "'os libc \<Rightarrow> u8 \<Rightarrow> bytes \<Rightarrow> u64 \<Rightarrow> 'os dev \<Rightarrow> bytes \<times> 'os dev" where
  "dispatch_body L op args conn d =
     (if op = 0x01 then dispatch_open L args conn d
      else if op = 0x02 then dispatch_close L args d
      else if op = 0x03 then dispatch_read L args d
      else if op = 0x04 then dispatch_write L args d
      else if op = 0x05 \<or> op = 0x0F then dispatch_stat L op args d
      else if op = 0x13 then dispatch_fstat L args d
      else if op = 0x06 then dispatch_listdir L args d
      else if op = 0x07 then dispatch_mkdir L args d
      else if op = 0x08 then dispatch_unlink L args d
      else if op = 0x09 then dispatch_rmdir L args d
      else if op = 0x0A then dispatch_rename L args d
      else if op = 0x0B then dispatch_truncate L args d
      else if op = 0x0C then dispatch_realpath L args d
      else if op = 0x0D then dispatch_readlink L args d
      else if op = 0x0E then dispatch_symlink L args d
      else if op = 0x10 then dispatch_utime L args d
      else if op = 0x11 then dispatch_diskusage L args d
      else if op = 0x12 then dispatch_copyfile L args d
      else (reply_err 0x0B ''unknown op'', d))"

definition frame_reply :: "bytes \<Rightarrow> bytes" where
  "frame_reply out = to_le32 (word_of_nat (length out)) @ out"

definition dispatch :: "'os libc \<Rightarrow> u8 \<Rightarrow> bytes \<Rightarrow> u64 \<Rightarrow> 'os dev \<Rightarrow> bytes \<times> 'os dev" where
  "dispatch L op args conn d =
     (let (out, d') = dispatch_body L op args conn d in (frame_reply out, d'))"

section \<open>The request loop\<close>

text \<open>
  A request frame is the operation code, a little-endian length and the arguments.
  \<open>next_request\<close> is one turn of \<open>handle_connection\<close> up to the point where it has a
  request; an oversized length ends the connection.
\<close>

type_synonym request = "u8 \<times> bytes"

definition next_request :: "bytes \<Rightarrow> request frame_result" where
  "next_request buf =
     (if length buf < 5 then More
      else let len = unat (from_le32 (slice 1 5 buf))
           in if len > MAX_REQUEST then Bad
              else if length buf < 5 + len then More
              else Got (buf ! 0, slice 5 (5 + len) buf) (drop (5 + len) buf))"

definition too_big_reply :: "bytes \<Rightarrow> bytes" where
  "too_big_reply buf =
     frame_reply (reply_err 0x08
       (''request too big: '' @ show_nat (unat (from_le32 (slice 1 5 buf))) @ '' bytes''))"

text \<open>
  Serving everything complete in the receive buffer: the replies written to the
  socket, the bytes left over, whether the connection was dropped, and the new state.
\<close>

function serve ::
  "'os libc \<Rightarrow> u64 \<Rightarrow> bytes \<Rightarrow> 'os dev \<Rightarrow> bytes list \<times> bytes \<times> bool \<times> 'os dev" where
  "serve L conn buf d =
     (case next_request buf of
        More \<Rightarrow> ([], buf, False, d)
      | Bad \<Rightarrow> ([too_big_reply buf], buf, True, d)
      | Got (op, args) rest \<Rightarrow>
          if length rest < length buf
          then (let (response, d) = dispatch L op args conn d;
                    (replies, left, closed, d) = serve L conn rest d
                in (response # replies, left, closed, d))
          else ([], rest, True, d))"
  by pat_completeness auto
termination
  by (relation "measure (\<lambda>(L, conn, buf, d). length buf)") auto

declare serve.simps [simp del]

text \<open>
  \<open>handle_connection\<close>: every \<open>read_buf\<close> appends a chunk; a read of zero bytes is the end
  of the stream. The result is what was written to the socket.
\<close>

fun handle_connection ::
  "'os libc \<Rightarrow> u64 \<Rightarrow> bytes \<Rightarrow> bytes list \<Rightarrow> 'os dev \<Rightarrow> bytes list \<times> 'os dev" where
  "handle_connection L conn buf [] d = ([], d)"
| "handle_connection L conn buf (chunk # chunks) d =
     (if chunk = [] then ([], d)
      else let (replies, left, closed, d) = serve L conn (buf @ chunk) d
           in if closed then (replies, d)
              else let (replies', d) = handle_connection L conn left chunks d
                   in (replies @ replies', d))"

text \<open>The specification: the requests one after the other.\<close>

fun run_requests :: "'os libc \<Rightarrow> u64 \<Rightarrow> request list \<Rightarrow> 'os dev \<Rightarrow> bytes list \<times> 'os dev" where
  "run_requests L conn [] d = ([], d)"
| "run_requests L conn ((op, args) # reqs) d =
     (let (response, d) = dispatch L op args conn d;
          (replies, d) = run_requests L conn reqs d
      in (response # replies, d))"

section \<open>Request frames\<close>

definition request_ok :: "request \<Rightarrow> bool" where
  "request_ok r \<longleftrightarrow> length (snd r) \<le> MAX_REQUEST"

interpretation req: header_framing 5 "\<lambda>h. unat (from_le32 (drop 1 h))" MAX_REQUEST
  "\<lambda>h b. (h ! 0, b)" request_ok "\<lambda>(op, args). request_frame op args" next_request
proof
  fix buf
  show "next_request buf =
      (if length buf < 5 then More
       else if unat (from_le32 (drop 1 (take 5 buf))) > MAX_REQUEST then Bad
       else if length buf < 5 + unat (from_le32 (drop 1 (take 5 buf))) then More
       else Got (take 5 buf ! 0, slice 5 (5 + unat (from_le32 (drop 1 (take 5 buf)))) buf)
              (drop (5 + unat (from_le32 (drop 1 (take 5 buf)))) buf))"
    by (simp add: next_request_def slice_def Let_def drop_take)
next
  fix m :: request
  assume "request_ok m"
  then show "\<exists>h b. (case m of (op, args) \<Rightarrow> request_frame op args) = h @ b \<and> length h = 5
      \<and> unat (from_le32 (drop 1 h)) = length b \<and> length b \<le> MAX_REQUEST \<and> (h ! 0, b) = m"
    by (cases m, intro exI [of _ "fst m # to_le32 (word_of_nat (length (snd m)))"] exI [of _ "snd m"])
      (simp add: request_frame_def request_ok_def MAX_REQUEST_def)
qed simp

lemma serve_drain:
  "serve L conn buf d =
     (let (reqs, left, dead) = drain next_request buf;
          (replies, d') = run_requests L conn reqs d
      in (if dead then (replies @ [too_big_reply left], left, True, d')
          else (replies, left, False, d')))"
proof (induction "length buf" arbitrary: buf d rule: less_induct)
  case less
  show ?case
  proof (cases "next_request buf")
    case More
    then show ?thesis by (simp add: serve.simps req.drain_More)
  next
    case Bad
    then show ?thesis by (simp add: serve.simps req.drain_Bad)
  next
    case (Got r rest)
    obtain op args where r: "r = (op, args)" by fastforce
    note shrink = req.dec_Got_shrinks [OF Got]
    show ?thesis
      using Got less.hyps [OF shrink] shrink
      by (simp add: r serve.simps [of L conn buf] req.drain_Got split: prod.splits)
  qed
qed

lemma run_requests_append:
  "run_requests L conn (xs @ ys) d =
     (let (rs, d) = run_requests L conn xs d; (rs', d) = run_requests L conn ys d in (rs @ rs', d))"
  by (induction xs arbitrary: d) (auto split: prod.splits)

lemma too_big_reply_append:
  "next_request buf = Bad \<Longrightarrow> too_big_reply (buf @ rest) = too_big_reply buf"
  by (auto simp: too_big_reply_def next_request_def split: if_splits)

lemma handle_connection_serve:
  assumes "[] \<notin> set chunks" and "next_request buf = More"
  shows "handle_connection L conn buf chunks d =
     (let (replies, left, closed, d') = serve L conn (buf @ concat chunks) d in (replies, d'))"
  using assms
proof (induction chunks arbitrary: buf d)
  case Nil
  then show ?case by (simp add: serve.simps)
next
  case (Cons c cs)
  obtain reqs left dead where dr: "drain next_request (buf @ c) = (reqs, left, dead)"
    by (metis prod_cases3)
  show ?case
  proof (cases dead)
    case True
    have "drain next_request (buf @ c @ concat cs) = (reqs, left @ concat cs, True)"
      using dr True req.drain_append [of "buf @ c" "concat cs"] by simp
    moreover have "too_big_reply (left @ concat cs) = too_big_reply left"
      using dr True by (simp add: req.drain_dead too_big_reply_append)
    ultimately show ?thesis
      using Cons.prems dr True by (auto simp: serve_drain split: prod.splits)
  next
    case False
    with dr have more: "next_request left = More" by (simp add: req.drain_stops)
    show ?thesis
      using Cons.prems dr False Cons.IH [OF _ more] req.drain_append [of "buf @ c" "concat cs"]
      by (auto simp: serve_drain run_requests_append split: prod.splits)
  qed
qed

lemma handle_connection_requests:
  assumes "[] \<notin> set chunks" and "list_all request_ok reqs"
    and "concat chunks = concat (map (\<lambda>(op, args). request_frame op args) reqs)"
  shows "handle_connection L conn [] chunks d = run_requests L conn reqs d"
proof -
  have "drain next_request (concat chunks) = (reqs, [], False)"
    using req.drain_encoded [OF assms(2), of "[]"] assms(3)
    by (simp add: req.drain_More req.dec_Nil)
  then show ?thesis
    using handle_connection_serve [OF assms(1) req.dec_Nil]
    by (simp add: serve_drain case_prod_beta)
qed

section \<open>The size of replies\<close>

text \<open>
  What the helper relies on: \<open>pread\<close> and \<open>readlink\<close> fill at most the buffer they are
  given, a file name has at most 255 bytes, a resolved path fits \<open>PATH_MAX\<close>, and an error
  message of the C library is short.
\<close>

definition kernel_sane :: "'os libc \<Rightarrow> bool" where
  "kernel_sane L \<longleftrightarrow>
     (\<forall>f n off os bs. c_pread L f n off os = Some bs \<longrightarrow> length bs \<le> n) \<and>
     (\<forall>p n os bs. c_readlink L p n os = Inr bs \<longrightarrow> length bs \<le> n) \<and>
     (\<forall>p os names. c_opendir L p os = Inr names \<longrightarrow> list_all (\<lambda>n. length n \<le> 255) names) \<and>
     (\<forall>p os r. c_realpath L p os = Some r \<longrightarrow> length r \<le> 4096) \<and>
     (\<forall>n. length (c_strerror L n) \<le> 1024)"

lemma kernel_saneD:
  assumes "kernel_sane L"
  shows "c_pread L f n off os = Some bs \<Longrightarrow> length bs \<le> n"
    and "c_readlink L p n os = Inr bs \<Longrightarrow> length bs \<le> n"
    and "c_opendir L p os = Inr names \<Longrightarrow> list_all (\<lambda>n. length n \<le> 255) names"
    and "c_realpath L p os = Some r \<Longrightarrow> length r \<le> 4096"
    and "length (c_strerror L e) \<le> 1024"
  using assms by (auto simp: kernel_sane_def)

lemma length_encode_stat [simp]: "length (encode_stat st) = 60"
  by (simp add: encode_stat_def)

text \<open>What a page holds: the entries \<open>lstat\<close> succeeds on, among the visible names after the offset.\<close>

definition visible :: "bytes list \<Rightarrow> bytes list" where
  "visible names = filter (\<lambda>n. n \<noteq> [DOT] \<and> n \<noteq> [DOT, DOT]) names"

definition entry_stat :: "'os libc \<Rightarrow> bytes \<Rightarrow> 'os \<Rightarrow> bytes \<Rightarrow> (bytes \<times> libc_stat) option" where
  "entry_stat L path os name =
     (case c_lstat L (c_str (entry_path path name @ [0])) os of
        Inl _ \<Rightarrow> None | Inr st \<Rightarrow> Some (name, st))"

definition entries :: "'os libc \<Rightarrow> bytes \<Rightarrow> 'os \<Rightarrow> bytes list \<Rightarrow> (bytes \<times> libc_stat) list" where
  "entries L path os names = List.map_filter (entry_stat L path os) names"

abbreviation encode_entries :: "(bytes \<times> libc_stat) list \<Rightarrow> bytes" where
  "encode_entries es \<equiv> concat (map (\<lambda>(name, st). encode_entry name st) es)"

lemma entries_simps [simp]:
  "entries L path os [] = []"
  "entries L path os (n # ns) =
     (case entry_stat L path os n of None \<Rightarrow> entries L path os ns | Some e \<Rightarrow> e # entries L path os ns)"
  by (simp_all add: entries_def List.map_filter_def split: option.splits)

lemma visible_simps [simp]:
  "visible [] = []"
  "visible (n # ns) = (if n = [DOT] \<or> n = [DOT, DOT] then visible ns else n # visible ns)"
  by (simp_all add: visible_def)

lemma listdir_loop_eq:
  "emitted < max_entries \<Longrightarrow>
   listdir_loop L path os offset max_entries names seen emitted body =
     (let es = take (max_entries - emitted) (entries L path os (drop (offset - seen) (visible names)))
      in (emitted + length es, body @ encode_entries es))"
proof (induction L path os offset max_entries names seen emitted body rule: listdir_loop.induct)
  case (2 L path os offset max_entries name names seen emitted body)
  show ?case
  proof (cases "name = [DOT] \<or> name = [DOT, DOT]")
    case True
    with 2 show ?thesis by (auto simp: Let_def)
  next
    case vis: False
    show ?thesis
    proof (cases "seen + 1 \<le> offset")
      case True
      then obtain k where "offset - seen = Suc k" "offset - Suc seen = k"
        by (metis Suc_diff_Suc Suc_le_eq Suc_eq_plus1)
      with 2 vis True show ?thesis by (auto simp: Let_def)
    next
      case False
      then have "offset - seen = 0" "offset - Suc seen = 0" by auto
      moreover have "max_entries - emitted = Suc (max_entries - Suc emitted)"
        using "2.prems" by (simp add: Suc_diff_Suc)
      ultimately show ?thesis
        using 2 vis False by (auto simp: Let_def entry_stat_def split: sum.splits)
    qed
  qed
qed simp

lemma do_listdir_eq:
  assumes "c_opendir L (c_str (path @ [0])) os = Inr names" and "0 < max_entries"
  shows "do_listdir L path offset max_entries os =
     (let es = take max_entries (entries L path os (drop offset (visible names)))
      in Ok (to_le32 (word_of_nat (length es)) @ encode_entries es))"
  using assms by (simp add: do_listdir_def listdir_loop_eq Let_def)

text \<open>A page holds at most \<open>max_entries\<close> entries of at most 319 bytes.\<close>

lemma listdir_loop_bound:
  assumes "list_all (\<lambda>n. length n \<le> 255) names" and "emitted < max_entries"
    and "length body \<le> 319 * emitted"
  shows "case listdir_loop L path os offset max_entries names seen emitted body of
           (n, body') \<Rightarrow> n \<le> max_entries \<and> length body' \<le> 319 * n"
  using assms
proof (induction L path os offset max_entries names seen emitted body rule: listdir_loop.induct)
  case (2 L path os offset max_entries name names seen emitted body)
  then show ?case
    by (auto simp: Let_def encode_entry_def split: sum.splits)
qed simp

lemma do_listdir_bound:
  assumes "kernel_sane L" and "do_listdir L path offset max_entries os = Ok data" and "0 < max_entries"
  shows "length data \<le> 4 + 319 * max_entries"
proof -
  from assms(2) obtain names n body where "c_opendir L (c_str (path @ [0])) os = Inr names"
    and l: "listdir_loop L path os offset max_entries names 0 0 [] = (n, body)"
    and d: "data = to_le32 (word_of_nat n) @ body"
    by (auto simp: do_listdir_def split: sum.splits prod.splits)
  with assms(1) have "list_all (\<lambda>n. length n \<le> 255) names" by (blast dest: kernel_saneD)
  from listdir_loop_bound [OF this assms(3), of "[]" L path os offset 0] l
  have "n \<le> max_entries" "length body \<le> 319 * n" by auto
  moreover from this have "length body \<le> 319 * max_entries" by linarith
  ultimately show ?thesis by (simp add: d)
qed

definition reply_fits :: "bytes \<Rightarrow> bool" where
  "reply_fits out \<longleftrightarrow> out \<noteq> [] \<and> length out \<le> MAX_RESPONSE + 1"

lemma reply_fits_ok: "reply_fits (reply_ok data) \<longleftrightarrow> length data \<le> 8388608"
  by (simp add: reply_fits_def MAX_RESPONSE_def)

lemma reply_fits_err: "length msg \<le> 1024 \<Longrightarrow> reply_fits (reply_err s msg)"
  by (simp add: reply_fits_def MAX_RESPONSE_def reply_err_def)

lemma reply_fits_unit: "length what \<le> 1024 \<Longrightarrow> reply_fits (fst (unit_reply what r d))"
  by (simp add: unit_reply_def reply_fits_ok reply_fits_err)

lemma stat_error_short: "kernel_sane L \<Longrightarrow> stat_error L e = (s, msg) \<Longrightarrow> length msg \<le> 1024"
  by (auto simp: stat_error_def Let_def dest: kernel_saneD(5))

lemma copy_into_owned_Custom:
  "copy_into_owned L source sz dst parent name os = (Inl (Custom m), os') \<Longrightarrow> length m \<le> 1024"
  by (auto simp: copy_into_owned_def Let_def split: prod.splits sum.splits if_splits option.splits)

lemma copy_error_short:
  assumes "kernel_sane L" and "copy_error L e = (s, msg)"
    and "\<And>m. e = Custom m \<Longrightarrow> length m \<le> 1024"
  shows "length msg \<le> 1024"
  using assms by (cases e) (auto simp: copy_error_def io_message_def kernel_saneD(5))

lemma do_copy_file_short:
  assumes L: "kernel_sane L" and "do_copy_file L src dst os = (Inl (s, msg), os')"
  shows "length msg \<le> 1024"
proof -
  have os_err: "length (snd (copy_error L (Os e))) \<le> 1024" for e
    using copy_error_short [OF L, of "Os e"] by (metis io_error.distinct(1) prod.collapse)
  have own: "length (snd (copy_error L e)) \<le> 1024"
    if "copy_into_owned L a b c p n o1 = (Inl e, o2)" for e a b c p n o1 o2
    using copy_error_short [OF L, of e] copy_into_owned_Custom that by (metis prod.collapse)
  show ?thesis
    using assms(2) own os_err
    by (auto simp: do_copy_file_def Let_def split: if_splits sum.splits prod.splits)
       (metis snd_conv)+
qed

lemma copy_error_nonzero: "copy_error L e = (s, msg) \<Longrightarrow> s \<noteq> 0"
  by (auto simp: copy_error_def Let_def split: io_error.splits if_splits)

lemma do_copy_file_status: "do_copy_file L src dst os = (Inl (s, msg), os') \<Longrightarrow> s \<noteq> 0"
  by (auto simp: do_copy_file_def Let_def split: if_splits sum.splits prod.splits
      dest: copy_error_nonzero)

lemmas reply_fits_intros =
  reply_fits_ok [THEN iffD2] reply_fits_err reply_fits_unit

text \<open>A listing request asks for at most a page.\<close>

definition page_request :: "u8 \<Rightarrow> bytes \<Rightarrow> bool" where
  "page_request op args \<longleftrightarrow>
     op = 0x06 \<longrightarrow>
       (case read_path args of
          Some (_, rest) \<Rightarrow> length rest \<ge> 8 \<longrightarrow> unat (from_le32 (slice 4 8 rest)) \<le> LISTDIR_PAGE
        | None \<Rightarrow> True)"

lemma dispatch_copyfile_fits:
  assumes "kernel_sane L"
  shows "reply_fits (fst (dispatch_copyfile L args d))"
  using do_copy_file_short [OF assms]
  by (fastforce simp: dispatch_copyfile_def intro: reply_fits_intros
      split: option.splits prod.splits sum.splits)

lemma dispatch_listdir_fits:
  assumes L: "kernel_sane L" and page: "page_request 0x06 args"
  shows "reply_fits (fst (dispatch_listdir L args d))"
proof (cases "read_path args")
  case None
  then show ?thesis by (simp add: dispatch_listdir_def reply_fits_intros)
next
  case (Some a)
  obtain path rest where a: "a = (path, rest)" by fastforce
  obtain offset m where om: "(if length rest \<ge> 8
        then (unat (from_le32 (slice 0 4 rest)), unat (from_le32 (slice 4 8 rest)))
        else (0, LISTDIR_PAGE)) = (offset, m)"
    by fastforce
  with page Some a have "max m 1 \<le> 16384"
    by (auto simp: page_request_def LISTDIR_PAGE_def split: if_splits)
  then have "length data \<le> 8388608" if "do_listdir L path offset (max m 1) (kernel d) = Ok data" for data
    using do_listdir_bound [OF L that] by (auto simp: max_def split: if_splits)
  moreover have "length msg \<le> 1024"
    if "do_listdir L path offset (max m 1) (kernel d) = Err (s, msg)" for s msg
    using that stat_error_short [OF L]
    by (auto simp: do_listdir_def split: sum.splits prod.splits)
  ultimately show ?thesis
    using Some a om
    by (auto simp: dispatch_listdir_def Let_def intro: reply_fits_intros
        split: sum.splits prod.splits if_splits)
qed

lemma dispatch_stat_fits:
  assumes "kernel_sane L"
  shows "reply_fits (fst (dispatch_stat L op args d))"
  using stat_error_short [OF assms]
  by (auto simp: dispatch_stat_def do_stat_def do_lstat_def intro!: reply_fits_intros
      split: option.splits prod.splits sum.splits)

lemma dispatch_readlink_fits:
  assumes L: "kernel_sane L"
  shows "reply_fits (fst (dispatch_readlink L args d))"
proof -
  have "length r \<le> 8388604" if "c_readlink L p 4096 os = Inr r" for p os r
    using kernel_saneD(2) [OF L that] by simp
  then show ?thesis
    using stat_error_short [OF L] kernel_saneD(5) [OF L]
    by (auto simp: dispatch_readlink_def Let_def intro!: reply_fits_intros
        split: option.splits prod.splits sum.splits)
qed

lemma dispatch_realpath_fits:
  assumes L: "kernel_sane L"
  shows "reply_fits (fst (dispatch_realpath L args d))"
proof -
  have "length r \<le> 8388604" if "c_realpath L p os = Some r" for p os r
    using kernel_saneD(4) [OF L that] by simp
  then show ?thesis
    by (auto simp: dispatch_realpath_def intro!: reply_fits_intros split: option.splits prod.splits)
qed

lemma dispatch_read_fits:
  assumes L: "kernel_sane L"
  shows "reply_fits (fst (dispatch_read L args d))"
proof -
  have "length bs \<le> 8388608" if "c_pread L f n off os = Some bs" "\<not> MAX_RESPONSE < n" for f n off os bs
    using kernel_saneD(1) [OF L that(1)] that(2) by (simp add: MAX_RESPONSE_def)
  then show ?thesis
    by (auto simp: dispatch_read_def Let_def intro!: reply_fits_intros split: option.splits)
qed

lemma dispatch_open_fits: "reply_fits (fst (dispatch_open L args conn d))"
  by (auto simp: dispatch_open_def handle_open_def Let_def intro!: reply_fits_intros
      split: sum.splits prod.splits if_splits)

lemma dispatch_rest_fits:
  "reply_fits (fst (dispatch_close L args d))"
  "reply_fits (fst (dispatch_write L args d))"
  "reply_fits (fst (dispatch_fstat L args d))"
  "reply_fits (fst (dispatch_mkdir L args d))"
  "reply_fits (fst (dispatch_unlink L args d))"
  "reply_fits (fst (dispatch_rmdir L args d))"
  "reply_fits (fst (dispatch_rename L args d))"
  "reply_fits (fst (dispatch_truncate L args d))"
  "reply_fits (fst (dispatch_symlink L args d))"
  "reply_fits (fst (dispatch_utime L args d))"
  "reply_fits (fst (dispatch_diskusage L args d))"
  by (auto simp: dispatch_close_def dispatch_write_def dispatch_fstat_def dispatch_mkdir_def
      dispatch_unlink_def dispatch_rmdir_def dispatch_rename_def dispatch_truncate_def
      dispatch_symlink_def dispatch_utime_def dispatch_diskusage_def Let_def
      intro!: reply_fits_intros split: option.splits prod.splits sum.splits bool.splits)

lemma dispatch_body_fits:
  assumes "kernel_sane L" and "page_request op args"
  shows "reply_fits (fst (dispatch_body L op args conn d))"
  using assms
  by (auto simp: dispatch_body_def dispatch_open_fits dispatch_rest_fits dispatch_read_fits
      dispatch_stat_fits dispatch_listdir_fits dispatch_realpath_fits dispatch_readlink_fits
      dispatch_copyfile_fits intro: reply_fits_intros)

section \<open>Who holds which descriptor\<close>

text \<open>Requests of all connections, in the order the helper runs them.\<close>

fun run_all :: "'os libc \<Rightarrow> (u64 \<times> request) list \<Rightarrow> 'os dev \<Rightarrow> bytes list \<times> 'os dev" where
  "run_all L [] d = ([], d)"
| "run_all L ((conn, op, args) # reqs) d =
     (let (response, d) = dispatch L op args conn d;
          (replies, d) = run_all L reqs d
      in (response # replies, d))"

text \<open>A request which could take \<open>f\<close> from its owner: closing it, or being given it anew.\<close>

definition closes :: "fd \<Rightarrow> request \<Rightarrow> bool" where
  "closes f r \<longleftrightarrow> fst r = 0x02 \<and> length (snd r) \<ge> 4 \<and> from_le32 (slice 0 4 (snd r)) = f"

definition opened :: "fd \<Rightarrow> request \<Rightarrow> bytes \<Rightarrow> bool" where
  "opened f r reply \<longleftrightarrow> fst r = 0x01 \<and> reply = frame_reply (reply_ok (to_le32 f))"

lemma unit_reply_owned [simp]: "owned (snd (unit_reply what r d)) = owned d"
  by (simp add: unit_reply_def)

lemma dispatch_rest_owned:
  "owned (snd (dispatch_read L args d)) = owned d"
  "owned (snd (dispatch_write L args d)) = owned d"
  "owned (snd (dispatch_stat L op args d)) = owned d"
  "owned (snd (dispatch_fstat L args d)) = owned d"
  "owned (snd (dispatch_listdir L args d)) = owned d"
  "owned (snd (dispatch_mkdir L args d)) = owned d"
  "owned (snd (dispatch_unlink L args d)) = owned d"
  "owned (snd (dispatch_rmdir L args d)) = owned d"
  "owned (snd (dispatch_rename L args d)) = owned d"
  "owned (snd (dispatch_truncate L args d)) = owned d"
  "owned (snd (dispatch_realpath L args d)) = owned d"
  "owned (snd (dispatch_readlink L args d)) = owned d"
  "owned (snd (dispatch_symlink L args d)) = owned d"
  "owned (snd (dispatch_utime L args d)) = owned d"
  "owned (snd (dispatch_diskusage L args d)) = owned d"
  "owned (snd (dispatch_copyfile L args d)) = owned d"
  by (auto simp: dispatch_read_def dispatch_write_def dispatch_stat_def dispatch_fstat_def
      dispatch_listdir_def dispatch_mkdir_def dispatch_unlink_def dispatch_rmdir_def
      dispatch_rename_def dispatch_truncate_def dispatch_realpath_def dispatch_readlink_def
      dispatch_symlink_def dispatch_utime_def dispatch_diskusage_def dispatch_copyfile_def Let_def
      split: option.splits prod.splits sum.splits)

lemma reply_ok_frame_inj: "frame_reply (reply_ok (to_le32 a)) = frame_reply (reply_ok (to_le32 b)) \<longleftrightarrow> a = b"
  by (simp add: frame_reply_def le32.enc_inj)

lemma dispatch_open_owned:
  assumes "map_of (owned d) f = Some conn"
    and "frame_reply (fst (dispatch_open L args c d)) \<noteq> frame_reply (reply_ok (to_le32 f))"
  shows "map_of (owned (snd (dispatch_open L args c d))) f = Some conn"
  using assms
  by (auto simp: dispatch_open_def track_def update_conv' reply_ok_frame_inj split: prod.splits sum.splits)

lemma dispatch_close_owned:
  assumes "map_of (owned d) f = Some conn" and "\<not> closes f (0x02, args)"
  shows "map_of (owned (snd (dispatch_close L args d))) f = Some conn"
  using assms
  by (auto simp: dispatch_close_def closes_def untrack_def delete_conv' Let_def
      split: prod.splits bool.splits)

lemma dispatch_keeps_owner:
  assumes "map_of (owned d) f = Some conn" and "\<not> closes f (op, args)"
    and "\<not> opened f (op, args) (fst (dispatch L op args c d))"
  shows "map_of (owned (snd (dispatch L op args c d))) f = Some conn"
  using assms
  by (auto simp: dispatch_def dispatch_body_def opened_def case_prod_beta dispatch_open_owned
      dispatch_close_owned dispatch_rest_owned)

lemma run_all_keeps_owner:
  assumes "map_of (owned d) f = Some conn" and "\<forall>(c, r) \<in> set reqs. \<not> closes f r"
    and "\<forall>((c, r), reply) \<in> set (zip reqs (fst (run_all L reqs d))). \<not> opened f r reply"
  shows "map_of (owned (snd (run_all L (take k reqs) d))) f = Some conn"
  using assms
proof (induction L reqs d arbitrary: k rule: run_all.induct)
  case (2 L c op args reqs d)
  obtain r d' where s: "dispatch L op args c d = (r, d')" by fastforce
  with 2 have "map_of (owned d') f = Some conn"
    using dispatch_keeps_owner [of d f conn op args L c] by (simp add: case_prod_beta)
  with 2 s show ?case by (cases k) (auto simp: case_prod_beta)
qed simp

lemma count_for_pos: "map_of t f = Some conn \<Longrightarrow> 0 < count_for conn t"
  by (auto simp: count_for_def filter_empty_conv dest: map_of_SomeD)

lemma idle_watchdog_Shutdown:
  "idle_watchdog conn es = Shutdown \<Longrightarrow> \<exists>t. Timeout_wd t \<in> set es \<and> count_for conn t = 0"
  by (induction conn es rule: idle_watchdog.induct) (auto simp: Let_def split: if_splits)

end
