(* ===== verification/Utf8.thy ===== *)
theory Utf8
  imports Prelude
begin

text \<open>
  What the sources use of Rust's \<open>str\<close>: the validity check behind \<open>str::from_utf8\<close>
  and \<open>Path::to_str\<close>, and \<open>String::from_utf8_lossy\<close>, which replaces each maximal
  malformed sequence by U+FFFD. Both walk the bytes one encoded character at a time.
\<close>

definition safe_get :: "bytes \<Rightarrow> nat \<Rightarrow> u8" where
  "safe_get xs i = (if i < length xs then xs ! i else 0)"

definition is_cont :: "u8 \<Rightarrow> bool" where
  "is_cont b \<longleftrightarrow> b AND 192 = 128"

definition char_width :: "u8 \<Rightarrow> nat" where
  "char_width b =
     (if 0xC2 \<le> b \<and> b \<le> 0xDF then 2
      else if 0xE0 \<le> b \<and> b \<le> 0xEF then 3
      else if 0xF0 \<le> b \<and> b \<le> 0xF4 then 4
      else 0)"

text \<open>
  One step on a non-empty input: how many bytes were looked at, and whether they are a
  well-formed character.
\<close>

definition utf8_head :: "bytes \<Rightarrow> nat \<times> bool" where
  "utf8_head xs =
     (let byte = safe_get xs 0; b1 = safe_get xs 1 in
      if byte < 128 then (1, True)
      else if char_width byte = 2 then
        (if is_cont b1 then (2, True) else (1, False))
      else if char_width byte = 3 then
        (if (byte = 0xE0 \<and> 0xA0 \<le> b1 \<and> b1 \<le> 0xBF)
          \<or> (0xE1 \<le> byte \<and> byte \<le> 0xEC \<and> 0x80 \<le> b1 \<and> b1 \<le> 0xBF)
          \<or> (byte = 0xED \<and> 0x80 \<le> b1 \<and> b1 \<le> 0x9F)
          \<or> (0xEE \<le> byte \<and> byte \<le> 0xEF \<and> 0x80 \<le> b1 \<and> b1 \<le> 0xBF)
         then if is_cont (safe_get xs 2) then (3, True) else (2, False)
         else (1, False))
      else if char_width byte = 4 then
        (if (byte = 0xF0 \<and> 0x90 \<le> b1 \<and> b1 \<le> 0xBF)
          \<or> (0xF1 \<le> byte \<and> byte \<le> 0xF3 \<and> 0x80 \<le> b1 \<and> b1 \<le> 0xBF)
          \<or> (byte = 0xF4 \<and> 0x80 \<le> b1 \<and> b1 \<le> 0x8F)
         then if is_cont (safe_get xs 2)
              then if is_cont (safe_get xs 3) then (4, True) else (3, False)
              else (2, False)
         else (1, False))
      else (1, False))"

lemma utf8_head_pos: "utf8_head xs = (n, v) \<Longrightarrow> 0 < n"
  by (auto simp: utf8_head_def Let_def split: if_splits)

function utf8_valid :: "bytes \<Rightarrow> bool" where
  "utf8_valid xs =
     (if xs = [] then True
      else let (n, v) = utf8_head xs in v \<and> utf8_valid (drop n xs))"
  by pat_completeness auto
termination
  by (relation "measure length") (auto dest!: utf8_head_pos [OF sym])

definition REPLACEMENT :: bytes where
  "REPLACEMENT = [0xEF, 0xBF, 0xBD]"

function utf8_lossy :: "bytes \<Rightarrow> bytes" where
  "utf8_lossy xs =
     (if xs = [] then []
      else let (n, v) = utf8_head xs
           in (if v then take n xs else REPLACEMENT) @ utf8_lossy (drop n xs))"
  by pat_completeness auto
termination
  by (relation "measure length") (auto dest!: utf8_head_pos [OF sym])

declare utf8_valid.simps [simp del] utf8_lossy.simps [simp del]

lemma utf8_valid_Nil [simp]: "utf8_valid []"
  by (simp add: utf8_valid.simps)

lemma utf8_lossy_Nil [simp]: "utf8_lossy [] = []"
  by (simp add: utf8_lossy.simps)

text \<open>\<open>String::from_utf8_lossy\<close> and \<open>str::from_utf8\<close> with HOL strings.\<close>

definition from_utf8_lossy :: "bytes \<Rightarrow> string" where
  "from_utf8_lossy bs = from_bytes (utf8_lossy bs)"

definition from_utf8 :: "bytes \<Rightarrow> string option" where
  "from_utf8 bs = (if utf8_valid bs then Some (from_bytes bs) else None)"

lemma utf8_lossy_id: "utf8_valid xs \<Longrightarrow> utf8_lossy xs = xs"
proof (induction xs rule: utf8_valid.induct)
  case (1 xs)
  show ?case
  proof (cases "xs = []")
    case False
    obtain n v where h: "utf8_head xs = (n, v)" by fastforce
    with False "1.prems" have "v" "utf8_valid (drop n xs)"
      by (simp_all add: utf8_valid.simps [of xs])
    with "1.IH" [OF False h [symmetric]] h False show ?thesis
      by (simp add: utf8_lossy.simps [of xs])
  qed simp
qed

lemma from_utf8_lossy_valid: "utf8_valid bs \<Longrightarrow> from_utf8_lossy bs = from_bytes bs"
  by (simp add: from_utf8_lossy_def utf8_lossy_id)

lemma from_utf8_as_bytes: "from_utf8 bs = Some s \<Longrightarrow> as_bytes s = bs"
  by (auto simp: from_utf8_def split: if_splits)

text \<open>The look-ahead of a well-formed character stays inside that character.\<close>

lemma safe_get_append: "i < length xs \<Longrightarrow> safe_get (xs @ ys) i = safe_get xs i"
  by (simp add: safe_get_def nth_append)

lemma safe_get_nonzero: "safe_get xs i \<noteq> 0 \<Longrightarrow> i < length xs"
  by (auto simp: safe_get_def split: if_splits)

lemma is_cont_0 [simp]: "\<not> is_cont 0"
  by (simp add: is_cont_def)

lemma is_cont_nonzero: "is_cont b \<Longrightarrow> b \<noteq> 0"
  by auto

lemma utf8_head_length: "xs \<noteq> [] \<Longrightarrow> utf8_head xs = (n, True) \<Longrightarrow> n \<le> length xs"
proof -
  assume ne: "xs \<noteq> []" and h: "utf8_head xs = (n, True)"
  have cont: "is_cont (safe_get xs i) \<Longrightarrow> i < length xs" for i
    by (rule safe_get_nonzero) auto
  have ge: "c \<le> safe_get xs i \<Longrightarrow> 0 < c \<Longrightarrow> i < length xs" for c i
    by (rule safe_get_nonzero) auto
  from ne have "Suc 0 \<le> length xs" by (simp add: Suc_leI)
  with h show ?thesis
    by (auto simp: utf8_head_def Let_def numeral_eq_Suc
        dest!: cont split: if_splits intro: Suc_leI)
qed

end
