(* ===== verification/Proxy_Client.thy ===== *)
theory Proxy_Client
  imports Proxy_Ops Utf8
begin

text \<open>
  The host-side client (\<open>adb-proxy/src/client.rs\<close>): the frame reader of a connection,
  one request and its reply, the connection pool, every client operation, the file
  handle \<open>ProxyFile\<close> and the paged directory listing. The TCP stack is a parameter,
  a record \<open>net\<close>; what it does with a request frame is one of three outcomes: a reply
  frame arrives, the peer hangs up, or nothing arrives before \<open>REQUEST_TIMEOUT\<close>.
\<close>

definition CL_MAX_RESPONSE :: nat where "CL_MAX_RESPONSE = 8 * 1024 * 1024"
definition MAX_RESPONSE_FRAME :: nat where "MAX_RESPONSE_FRAME = CL_MAX_RESPONSE + 1"
definition CL_MAX_REQUEST :: nat where "CL_MAX_REQUEST = 8 * 1024 * 1024"
definition CLOSE_RETRIES :: nat where "CLOSE_RETRIES = 4"
definition CL_LISTDIR_PAGE :: u32 where "CL_LISTDIR_PAGE = 16384"

datatype proxy_error =
    PIo string
  | PClosed
  | PTooLarge nat
  | PStatus status string
  | PInvalid string
  | PPoolExhausted
  | PBusy
  | PTimeout
  | POther string

text \<open>The \<open>Debug\<close> name of a status and the \<open>Display\<close> of an error.\<close>

fun status_debug :: "status \<Rightarrow> string" where
  "status_debug Status_Ok = ''Ok''"
| "status_debug NotFound = ''NotFound''"
| "status_debug PermissionDenied = ''PermissionDenied''"
| "status_debug IsDir = ''IsDir''"
| "status_debug NotDir = ''NotDir''"
| "status_debug Exists = ''Exists''"
| "status_debug NotEmpty = ''NotEmpty''"
| "status_debug IoError = ''IoError''"
| "status_debug InvalidArg = ''InvalidArg''"
| "status_debug NoSpace = ''NoSpace''"
| "status_debug NameTooLong = ''NameTooLong''"
| "status_debug NotSupported = ''NotSupported''"

fun error_display :: "proxy_error \<Rightarrow> string" where
  "error_display (PIo e) = ''io: '' @ e"
| "error_display PClosed = ''connection closed''"
| "error_display (PTooLarge n) = ''response too large ('' @ show_nat n @ '' bytes)''"
| "error_display (PStatus s m) = ''server error: '' @ status_debug s @ '' '' @ m"
| "error_display (PInvalid m) = ''invalid response: '' @ m"
| "error_display PPoolExhausted = ''connection pool exhausted''"
| "error_display PBusy = ''no free connection available (pool busy)''"
| "error_display PTimeout = ''request timed out''"
| "error_display (POther m) = m"

section \<open>One connection\<close>

text \<open>The reader task: the next length-prefixed frame of the receive buffer.\<close>

definition next_reply :: "bytes \<Rightarrow> bytes frame_result" where
  "next_reply buf =
     (if length buf < 4 then More
      else let len = unat (from_le32 (slice 0 4 buf))
           in if len > MAX_RESPONSE_FRAME then Bad
              else if length buf < 4 + len then More
              else Got (slice 4 (4 + len) buf) (drop (4 + len) buf))"

record conn =
  cn_id :: u64
  cn_closed :: bool
  cn_poisoned :: bool

datatype exchange = Reply bytes | Hangup | Silence

record 'n net =
  n_dial :: "'n \<Rightarrow> (string + u64) \<times> 'n"
  n_exchange :: "u64 \<Rightarrow> bytes \<Rightarrow> 'n \<Rightarrow> exchange \<times> 'n"

text \<open>\<open>ProxyConn::open\<close>.\<close>

definition conn_open :: "'n net \<Rightarrow> 'n \<Rightarrow> (proxy_error + conn) \<times> 'n" where
  "conn_open N n =
     (case n_dial N n of
        (Inl e, n') \<Rightarrow> (Err (PIo e), n')
      | (Inr i, n') \<Rightarrow> (Ok \<lparr>cn_id = i, cn_closed = False, cn_poisoned = False\<rparr>, n'))"

definition conn_unusable :: "conn \<Rightarrow> bool" where
  "conn_unusable c \<longleftrightarrow> cn_closed c \<or> cn_poisoned c"

text \<open>The status byte and the data of a reply frame.\<close>

definition decode_response :: "bytes \<Rightarrow> proxy_error + bytes" where
  "decode_response resp =
     (case resp of
        [] \<Rightarrow> Err (PInvalid ''empty response frame'')
      | s # data \<Rightarrow>
          (let status = status_from_u8 s
           in if status \<noteq> Status_Ok then Err (PStatus status (from_utf8_lossy data))
              else Ok data))"

text \<open>\<open>send_frame_and_await\<close>: the exchange under the request lock.\<close>

definition send_frame_and_await ::
  "'n net \<Rightarrow> bytes \<Rightarrow> conn \<Rightarrow> 'n \<Rightarrow> (proxy_error + bytes) \<times> conn \<times> 'n" where
  "send_frame_and_await N frame c n =
     (if conn_unusable c then (Err PClosed, c, n)
      else case n_exchange N (cn_id c) frame n of
             (Reply resp, n') \<Rightarrow> (decode_response resp, c, n')
           | (Hangup, n') \<Rightarrow> (Err PClosed, c\<lparr>cn_closed := True\<rparr>, n')
           | (Silence, n') \<Rightarrow> (Err PTimeout, c\<lparr>cn_poisoned := True, cn_closed := True\<rparr>, n'))"

definition request ::
  "'n net \<Rightarrow> op \<Rightarrow> bytes \<Rightarrow> conn \<Rightarrow> 'n \<Rightarrow> (proxy_error + bytes) \<times> conn \<times> 'n" where
  "request N op args c n =
     (if conn_unusable c then (Err PClosed, c, n)
      else if length args > CL_MAX_REQUEST then (Err (PTooLarge (length args)), c, n)
      else if length args \<ge> 2 ^ 32 then (Err (PTooLarge (length args)), c, n)
      else case n_exchange N (cn_id c) (request_frame (op_code op) args) n of
             (Reply resp, n') \<Rightarrow> (decode_response resp, c, n')
           | (Hangup, n') \<Rightarrow> (Err PClosed, c\<lparr>cn_closed := True\<rparr>, n')
           | (Silence, n') \<Rightarrow> (Err PTimeout, c\<lparr>cn_poisoned := True, cn_closed := True\<rparr>, n'))"

section \<open>The pool\<close>

text \<open>
  \<open>ProxyClient\<close>: the idle connections (the end of the \<open>Vec\<close>, where \<open>push\<close> and
  \<open>pop\<close> work, is the head of the list), the free semaphore permits, and the network.
\<close>

record 'n client =
  cl_pool :: "conn list"
  cl_permits :: nat
  cl_max :: nat
  cl_net :: 'n

fun connect_loop :: "'n net \<Rightarrow> nat \<Rightarrow> conn list \<Rightarrow> 'n \<Rightarrow> (proxy_error + conn list) \<times> 'n" where
  "connect_loop N 0 pool n = (Ok pool, n)"
| "connect_loop N (Suc k) pool n =
     (case conn_open N n of
        (Inl e, n') \<Rightarrow> (Err e, n')
      | (Inr c, n') \<Rightarrow> connect_loop N k (c # pool) n')"

definition connect :: "'n net \<Rightarrow> nat \<Rightarrow> 'n \<Rightarrow> (proxy_error + 'n client) \<times> 'n" where
  "connect N max_conns n =
     (case connect_loop N max_conns [] n of
        (Inl e, n') \<Rightarrow> (Err e, n')
      | (Inr pool, n') \<Rightarrow>
          (Ok \<lparr>cl_pool = pool, cl_permits = max_conns, cl_max = max_conns, cl_net = n'\<rparr>, n'))"

text \<open>The loop of \<open>acquire\<close>: pop until a usable connection, or dial a fresh one.\<close>

fun acquire_loop :: "'n net \<Rightarrow> conn list \<Rightarrow> 'n \<Rightarrow> (proxy_error + conn) \<times> conn list \<times> 'n" where
  "acquire_loop N [] n =
     (case conn_open N n of
        (Inl e, n') \<Rightarrow> (Err e, [], n')
      | (Inr fresh, n') \<Rightarrow> (Ok fresh, [], n'))"
| "acquire_loop N (c # pool) n =
     (if \<not> cn_closed c \<and> \<not> cn_poisoned c then (Ok c, pool, n)
      else case conn_open N n of
             (Inr fresh, n') \<Rightarrow> (Ok fresh, pool, n')
           | (Inl _, n') \<Rightarrow> acquire_loop N pool n')"

text \<open>
  \<open>acquire\<close>: no permit within \<open>POOL_TIMEOUT\<close> is \<open>Busy\<close>; an error drops the permit
  it had taken.
\<close>

definition acquire :: "'n net \<Rightarrow> 'n client \<Rightarrow> (proxy_error + conn) \<times> 'n client" where
  "acquire N cl =
     (if cl_permits cl = 0 then (Err PBusy, cl)
      else let (r, pool, n) = acquire_loop N (cl_pool cl) (cl_net cl);
               cl' = cl\<lparr>cl_pool := pool, cl_net := n\<rparr>
           in case r of
                Inl e \<Rightarrow> (Err e, cl')
              | Inr c \<Rightarrow> (Ok c, cl'\<lparr>cl_permits := cl_permits cl - 1\<rparr>))"

definition release :: "conn \<Rightarrow> 'n client \<Rightarrow> 'n client" where
  "release c cl =
     (if cn_closed c \<or> cn_poisoned c then cl
      else if length (cl_pool cl) < cl_max cl then cl\<lparr>cl_pool := c # cl_pool cl\<rparr>
      else cl)"

definition drop_permit :: "'n client \<Rightarrow> 'n client" where
  "drop_permit cl = cl\<lparr>cl_permits := cl_permits cl + 1\<rparr>"

text \<open>
  The shape every operation has: borrow a connection, run the body on it, hand the
  connection back, let the permit go at the end of the function.
\<close>

definition with_conn ::
  "'n net \<Rightarrow> (conn \<Rightarrow> 'n \<Rightarrow> (proxy_error + 'a) \<times> conn \<times> 'n) \<Rightarrow> 'n client
     \<Rightarrow> (proxy_error + 'a) \<times> 'n client" where
  "with_conn N body cl =
     (case acquire N cl of
        (Inl e, cl) \<Rightarrow> (Err e, cl)
      | (Inr c, cl) \<Rightarrow>
          (let (res, c, n) = body c (cl_net cl)
           in (res, drop_permit (release c (cl\<lparr>cl_net := n\<rparr>)))))"

text \<open>A request followed by a decoder of its data.\<close>

definition request_then ::
  "'n net \<Rightarrow> op \<Rightarrow> bytes \<Rightarrow> (bytes \<Rightarrow> proxy_error + 'a) \<Rightarrow> 'n client \<Rightarrow> (proxy_error + 'a) \<times> 'n client" where
  "request_then N op args dec =
     with_conn N (\<lambda>c n. let (r, c, n) = request N op args c n in (bind_result r dec, c, n))"

section \<open>The operations\<close>

definition path_arg :: "string \<Rightarrow> bytes" where
  "path_arg path = to_le32 (word_of_nat (length path)) @ as_bytes path"

definition raw_path_arg :: "bytes \<Rightarrow> bytes" where
  "raw_path_arg p = to_le32 (word_of_nat (length p)) @ p"

definition ok_or_invalid :: "string \<Rightarrow> 'a option \<Rightarrow> proxy_error + 'a" where
  "ok_or_invalid what r = (case r of None \<Rightarrow> Err (PInvalid what) | Some a \<Rightarrow> Ok a)"

definition cl_stat :: "'n net \<Rightarrow> string \<Rightarrow> 'n client \<Rightarrow> (proxy_error + stat) \<times> 'n client" where
  "cl_stat N path =
     request_then N Op_Stat (path_arg path) (\<lambda>resp. ok_or_invalid ''stat decode'' (stat_decode resp))"

definition cl_lstat :: "'n net \<Rightarrow> string \<Rightarrow> 'n client \<Rightarrow> (proxy_error + stat) \<times> 'n client" where
  "cl_lstat N path =
     request_then N Op_Lstat (path_arg path) (\<lambda>resp. ok_or_invalid ''lstat decode'' (stat_decode resp))"

definition cl_symlink :: "'n net \<Rightarrow> bytes \<Rightarrow> bytes \<Rightarrow> 'n client \<Rightarrow> (proxy_error + unit) \<times> 'n client" where
  "cl_symlink N t l =
     with_conn N (\<lambda>c n.
       if length t > CL_MAX_REQUEST \<or> length l > CL_MAX_REQUEST
       then (Err (PTooLarge (max (length t) (length l))), c, n)
       else let (r, c, n) = request N Op_Symlink (raw_path_arg t @ raw_path_arg l) c n
            in (bind_result r (\<lambda>_. Ok ()), c, n))"

definition cl_readlink :: "'n net \<Rightarrow> string \<Rightarrow> 'n client \<Rightarrow> (proxy_error + bytes) \<times> 'n client" where
  "cl_readlink N path =
     request_then N Op_ReadLink (path_arg path) (\<lambda>resp.
       if length resp < 4 then Err (PInvalid ''readlink decode'')
       else let n = unat (from_le32 (slice 0 4 resp))
            in ok_or_invalid ''readlink length'' (get_range 4 (4 + n) resp))"

definition cl_mkdir :: "'n net \<Rightarrow> string \<Rightarrow> u32 \<Rightarrow> 'n client \<Rightarrow> (proxy_error + unit) \<times> 'n client" where
  "cl_mkdir N path mode =
     request_then N Op_Mkdir (path_arg path @ to_le32 mode) (\<lambda>_. Ok ())"

definition cl_unlink :: "'n net \<Rightarrow> string \<Rightarrow> 'n client \<Rightarrow> (proxy_error + unit) \<times> 'n client" where
  "cl_unlink N path = request_then N Op_Unlink (path_arg path) (\<lambda>_. Ok ())"

definition cl_rmdir :: "'n net \<Rightarrow> string \<Rightarrow> 'n client \<Rightarrow> (proxy_error + unit) \<times> 'n client" where
  "cl_rmdir N path = request_then N Op_Rmdir (path_arg path) (\<lambda>_. Ok ())"

definition cl_rename :: "'n net \<Rightarrow> string \<Rightarrow> string \<Rightarrow> 'n client \<Rightarrow> (proxy_error + unit) \<times> 'n client" where
  "cl_rename N src dst =
     request_then N Op_Rename (path_arg src @ path_arg dst) (\<lambda>_. Ok ())"

definition COPY_PATH_MESSAGE :: string where
  "COPY_PATH_MESSAGE = ''copy paths must be absolute, non-NUL, and at most 4096 bytes''"

definition bad_copy_string :: "string \<Rightarrow> bool" where
  "bad_copy_string path \<longleftrightarrow>
     take 1 path \<noteq> ''/'' \<or> CHR 0x00 \<in> set path \<or> length path > 4096"

text \<open>
  \<open>copy_file\<close>; every failure but a status from the device leaves completion unknown,
  and its message says so.
\<close>

definition cl_copy_file ::
  "'n net \<Rightarrow> string \<Rightarrow> string \<Rightarrow> 'n client \<Rightarrow> (proxy_error + unit) \<times> 'n client" where
  "cl_copy_file N src dst cl =
     (if list_ex bad_copy_string [src, dst]
      then (Err (PStatus InvalidArg COPY_PATH_MESSAGE), cl)
      else with_conn N (\<lambda>c n.
             let (r, c, n) = request N Op_CopyFile (path_arg src @ path_arg dst) c n
             in (case r of
                   Inr _ \<Rightarrow> Ok ()
                 | Inl (PStatus s m) \<Rightarrow> Err (PStatus s m)
                 | Inl e \<Rightarrow> Err (POther (error_display e @
                     ''; completion unknown; destination may be incomplete or still copying'')),
                 c, n)) cl)"

definition cl_truncate :: "'n net \<Rightarrow> string \<Rightarrow> u64 \<Rightarrow> 'n client \<Rightarrow> (proxy_error + unit) \<times> 'n client" where
  "cl_truncate N path size' =
     request_then N Op_Truncate (path_arg path @ to_le64 size') (\<lambda>_. Ok ())"

definition cl_utime :: "'n net \<Rightarrow> string \<Rightarrow> u64 \<Rightarrow> u64 \<Rightarrow> 'n client \<Rightarrow> (proxy_error + unit) \<times> 'n client" where
  "cl_utime N path atime mtime =
     request_then N Op_Utime (path_arg path @ to_le64 atime @ to_le64 mtime) (\<lambda>_. Ok ())"

record disk_usage =
  avail_bytes :: u64
  total_bytes :: u64

definition saturating_mul :: "u64 \<Rightarrow> u64 \<Rightarrow> u64" where
  "saturating_mul a b = (if unat a * unat b < 2 ^ 64 then a * b else - 1)"

definition disk_usage_decode :: "bytes \<Rightarrow> proxy_error + disk_usage" where
  "disk_usage_decode data =
     (if length data \<ge> 24 then
        (let avail = from_le64 (slice 0 8 data);
             total = from_le64 (slice 8 16 data);
             bsize = from_le64 (slice 16 24 data)
         in Ok \<lparr>avail_bytes = saturating_mul avail bsize, total_bytes = saturating_mul total bsize\<rparr>)
      else if length data \<ge> 12 then
        (let avail = ucast (from_le32 (slice 0 4 data));
             total = ucast (from_le32 (slice 4 8 data));
             bsize = ucast (from_le32 (slice 8 12 data))
         in Ok \<lparr>avail_bytes = saturating_mul avail bsize, total_bytes = saturating_mul total bsize\<rparr>)
      else Err (PInvalid ''diskusage decode''))"

definition cl_disk_usage :: "'n net \<Rightarrow> string \<Rightarrow> 'n client \<Rightarrow> (proxy_error + disk_usage) \<times> 'n client" where
  "cl_disk_usage N path = request_then N Op_DiskUsage (path_arg path) disk_usage_decode"

section \<open>Directory listings\<close>

function parse_dir_entries_from :: "bytes \<Rightarrow> dir_entry list \<Rightarrow> proxy_error + dir_entry list" where
  "parse_dir_entries_from data entries =
     (if data = [] then Ok entries
      else if length data < 4 then Err (PInvalid ''dir entry name len'')
      else let name_len = unat (from_le32 (slice 0 4 data))
           in if 4 + name_len + 60 > length data then Err (PInvalid ''dir entry payload'')
              else let name = from_utf8_lossy (slice 4 (4 + name_len) data)
                   in case stat_decode (slice (4 + name_len) (4 + name_len + 60) data) of
                        None \<Rightarrow> Err (PInvalid ''dir entry stat'')
                      | Some st \<Rightarrow>
                          parse_dir_entries_from (drop (4 + name_len + 60) data)
                            (entries @ [\<lparr>de_name = name, de_stat = st\<rparr>]))"
  by pat_completeness auto
termination
  by (relation "measure (\<lambda>(data, entries). length data)") auto

declare parse_dir_entries_from.simps [simp del]

definition parse_dir_entries :: "bytes \<Rightarrow> nat \<Rightarrow> proxy_error + dir_entry list" where
  "parse_dir_entries data expect =
     bind_result (parse_dir_entries_from data []) (\<lambda>entries.
       if length entries \<noteq> expect
       then Err (PInvalid (''listdir page: header said '' @ show_nat expect
              @ '' entries, buffer held '' @ show_nat (length entries)))
       else Ok entries)"

definition parse_dir_page :: "bytes \<Rightarrow> proxy_error + dir_entry list" where
  "parse_dir_page data =
     (if length data < 4 then Err (PInvalid ''listdir count'')
      else parse_dir_entries (drop 4 data) (unat (from_le32 (slice 0 4 data))))"

definition listdir_page ::
  "'n net \<Rightarrow> string \<Rightarrow> u32 \<Rightarrow> 'n client \<Rightarrow> (proxy_error + dir_entry list) \<times> 'n client" where
  "listdir_page N path offset =
     request_then N Op_ListDir (path_arg path @ to_le32 offset @ to_le32 CL_LISTDIR_PAGE)
       parse_dir_page"

text \<open>
  The paging loop of \<open>listdir\<close>, with fuel: \<open>None\<close> is a loop that is still asking for
  pages.
\<close>

fun listdir_pages ::
  "nat \<Rightarrow> 'n net \<Rightarrow> string \<Rightarrow> u32 \<Rightarrow> dir_entry list \<Rightarrow> 'n client
     \<Rightarrow> ((proxy_error + dir_entry list) \<times> 'n client) option" where
  "listdir_pages 0 N path offset all cl = None"
| "listdir_pages (Suc fuel) N path offset all cl =
     (case listdir_page N path offset cl of
        (Inl e, cl) \<Rightarrow> Some (Err e, cl)
      | (Inr page, cl) \<Rightarrow>
          (let got = word_of_nat (length page) :: u32;
               all = all @ page
           in if got < CL_LISTDIR_PAGE then Some (Ok all, cl)
              else listdir_pages fuel N path (offset + got) all cl))"

definition cl_listdir ::
  "nat \<Rightarrow> 'n net \<Rightarrow> string \<Rightarrow> 'n client \<Rightarrow> ((proxy_error + dir_entry list) \<times> 'n client) option" where
  "cl_listdir fuel N path cl = listdir_pages fuel N path 0 [] cl"

section \<open>File handles\<close>

text \<open>\<open>ProxyFileInner\<close>: \<open>None\<close> once the file has been closed.\<close>

record pfile =
  pf_fd :: "u32 option"
  pf_path :: string

definition cl_open ::
  "'n net \<Rightarrow> string \<Rightarrow> u32 \<Rightarrow> u32 \<Rightarrow> 'n client \<Rightarrow> (proxy_error + pfile) \<times> 'n client" where
  "cl_open N path flags mode =
     request_then N Op_Open (to_le32 flags @ to_le32 mode @ path_arg path) (\<lambda>resp.
       if length resp < 4 then Err (PInvalid ''open response short'')
       else Ok \<lparr>pf_fd = Some (from_le32 (slice 0 4 resp)), pf_path = path\<rparr>)"

definition read_at ::
  "'n net \<Rightarrow> pfile \<Rightarrow> u64 \<Rightarrow> u32 \<Rightarrow> 'n client \<Rightarrow> (proxy_error + bytes) \<times> 'n client" where
  "read_at N f offset len cl =
     (case pf_fd f of
        None \<Rightarrow> (Err PClosed, cl)
      | Some fd \<Rightarrow> request_then N Op_Read (to_le32 fd @ to_le64 offset @ to_le32 len) Ok cl)"

definition write_at ::
  "'n net \<Rightarrow> pfile \<Rightarrow> u64 \<Rightarrow> bytes \<Rightarrow> 'n client \<Rightarrow> (proxy_error + unit) \<times> 'n client" where
  "write_at N f offset data cl =
     (case pf_fd f of
        None \<Rightarrow> (Err PClosed, cl)
      | Some fd \<Rightarrow>
          request_then N Op_Write
            (to_le32 fd @ to_le64 offset @ to_le32 (word_of_nat (length data)) @ data)
            (\<lambda>_. Ok ()) cl)"

definition file_stat :: "'n net \<Rightarrow> pfile \<Rightarrow> 'n client \<Rightarrow> (proxy_error + stat) \<times> 'n client" where
  "file_stat N f cl =
     (case pf_fd f of
        None \<Rightarrow> (Err PClosed, cl)
      | Some fd \<Rightarrow>
          request_then N Op_Fstat (to_le32 fd)
            (\<lambda>resp. ok_or_invalid ''fstat decode'' (stat_decode resp)) cl)"

text \<open>
  \<open>ProxyFile::close\<close> borrows the connection first and takes the descriptor out of the
  handle only then.
\<close>

definition file_close ::
  "'n net \<Rightarrow> pfile \<Rightarrow> 'n client \<Rightarrow> (proxy_error + unit) \<times> pfile \<times> 'n client" where
  "file_close N f cl =
     (case acquire N cl of
        (Inl e, cl) \<Rightarrow> (Err e, f, cl)
      | (Inr c, cl) \<Rightarrow>
          (case pf_fd f of
             None \<Rightarrow> (Err PClosed, f, drop_permit (release c cl))
           | Some fd \<Rightarrow>
               (let (r, c, n) = request N Op_Close (to_le32 fd) c (cl_net cl)
                in (bind_result r (\<lambda>_. Ok ()), f\<lparr>pf_fd := None\<rparr>,
                    drop_permit (release c (cl\<lparr>cl_net := n\<rparr>))))))"

text \<open>
  \<open>Drop for ProxyFile\<close>. The spawned task retries while the pool is busy; \<open>env k\<close> is
  what the other users of the pool do while it sleeps after attempt \<open>k\<close>.
\<close>

fun drop_task ::
  "'n net \<Rightarrow> (nat \<Rightarrow> 'n client \<Rightarrow> 'n client) \<Rightarrow> bytes \<Rightarrow> nat \<Rightarrow> nat \<Rightarrow> 'n client \<Rightarrow> 'n client" where
  "drop_task N env frame attempt 0 cl = cl"
| "drop_task N env frame attempt (Suc left) cl =
     (case acquire N cl of
        (Inr c, cl) \<Rightarrow>
          (let (_, c, n) = send_frame_and_await N frame c (cl_net cl)
           in drop_permit (release c (cl\<lparr>cl_net := n\<rparr>)))
      | (Inl e, cl) \<Rightarrow>
          if e = PBusy \<and> attempt + 1 < CLOSE_RETRIES
          then drop_task N env frame (attempt + 1) left (env attempt cl)
          else cl)"

definition close_frame :: "u32 \<Rightarrow> bytes" where
  "close_frame fd = op_code Op_Close # to_le32 4 @ to_le32 fd"

definition file_drop ::
  "'n net \<Rightarrow> (nat \<Rightarrow> 'n client \<Rightarrow> 'n client) \<Rightarrow> bool \<Rightarrow> nat \<Rightarrow> pfile \<Rightarrow> 'n client \<Rightarrow> pfile \<times> 'n client" where
  "file_drop N env has_runtime strong_count f cl =
     (if strong_count \<noteq> 1 then (f, cl)
      else case pf_fd f of
             None \<Rightarrow> (f, cl)
           | Some fd \<Rightarrow>
               (f\<lparr>pf_fd := None\<rparr>,
                if has_runtime then drop_task N env (close_frame fd) 0 CLOSE_RETRIES cl else cl))"

section \<open>Concurrent use of the pool\<close>

text \<open>
  Operations run as tasks; between two \<open>await\<close>s other tasks run. A task is in one of
  the phases of \<open>acquire\<close> and of the operation around it: it has its permit and is about
  to pop, it is dialling (after popping a dead connection, or because the pool was
  empty), it holds a connection, or it has handed the connection back and is about to
  drop the permit.
\<close>

datatype phase = Popping | Redialling | Dialling | Holding conn | Leaving

type_synonym pool_state = "conn list \<times> nat \<times> phase list"

inductive pool_step :: "nat \<Rightarrow> pool_state \<Rightarrow> pool_state \<Rightarrow> bool" for max_conns :: nat where
  take_permit: "pool_step max_conns (pool, Suc k, ps) (pool, k, Popping # ps)"
| pop_live: "i < length ps \<Longrightarrow> ps ! i = Popping \<Longrightarrow> \<not> conn_unusable c \<Longrightarrow>
    pool_step max_conns (c # pool, k, ps) (pool, k, ps[i := Holding c])"
| pop_dead: "i < length ps \<Longrightarrow> ps ! i = Popping \<Longrightarrow> conn_unusable c \<Longrightarrow>
    pool_step max_conns (c # pool, k, ps) (pool, k, ps[i := Redialling])"
| pop_empty: "i < length ps \<Longrightarrow> ps ! i = Popping \<Longrightarrow>
    pool_step max_conns ([], k, ps) ([], k, ps[i := Dialling])"
| dialled: "i < length ps \<Longrightarrow> ps ! i = Redialling \<or> ps ! i = Dialling \<Longrightarrow> \<not> conn_unusable c \<Longrightarrow>
    pool_step max_conns (pool, k, ps) (pool, k, ps[i := Holding c])"
| redial_failed: "i < length ps \<Longrightarrow> ps ! i = Redialling \<Longrightarrow>
    pool_step max_conns (pool, k, ps) (pool, k, ps[i := Popping])"
| dial_failed: "i < length ps \<Longrightarrow> ps ! i = Dialling \<Longrightarrow>
    pool_step max_conns (pool, k, ps) (pool, k, ps[i := Leaving])"
| used: "i < length ps \<Longrightarrow> ps ! i = Holding c \<Longrightarrow> cn_id c' = cn_id c \<Longrightarrow>
    pool_step max_conns (pool, k, ps) (pool, k, ps[i := Holding c'])"
| peer_closed: "j < length pool \<Longrightarrow>
    pool_step max_conns (pool, k, ps) (pool[j := (pool ! j)\<lparr>cn_closed := True\<rparr>], k, ps)"
| give_back: "i < length ps \<Longrightarrow> ps ! i = Holding c \<Longrightarrow> \<not> conn_unusable c \<Longrightarrow>
    length pool < max_conns \<Longrightarrow>
    pool_step max_conns (pool, k, ps) (c # pool, k, ps[i := Leaving])"
| discard: "i < length ps \<Longrightarrow> ps ! i = Holding c \<Longrightarrow> conn_unusable c \<or> length pool \<ge> max_conns \<Longrightarrow>
    pool_step max_conns (pool, k, ps) (pool, k, ps[i := Leaving])"
| drop_permit: "i < length ps \<Longrightarrow> ps ! i = Leaving \<Longrightarrow>
    pool_step max_conns (pool, k, ps) (pool, Suc k, remove_at i ps)"

inductive pool_reach :: "nat \<Rightarrow> pool_state \<Rightarrow> bool" for max_conns :: nat where
  start: "length pool = max_conns \<Longrightarrow> list_all (\<lambda>c. \<not> conn_unusable c) pool \<Longrightarrow>
    pool_reach max_conns (pool, max_conns, [])"
| more: "pool_reach max_conns s \<Longrightarrow> pool_step max_conns s s' \<Longrightarrow> pool_reach max_conns s'"

text \<open>A connection a task has, or is about to have.\<close>

fun has_socket :: "phase \<Rightarrow> bool" where
  "has_socket (Holding _) = True"
| "has_socket Dialling = True"
| "has_socket Redialling = True"
| "has_socket _ = False"

fun pool_inv :: "nat \<Rightarrow> pool_state \<Rightarrow> bool" where
  "pool_inv max_conns (pool, permits, ps) \<longleftrightarrow>
     permits + length ps = max_conns \<and>
     length pool + length (filter has_socket ps) \<le> max_conns \<and>
     list_all (\<lambda>c. \<not> cn_poisoned c) pool"

lemma filter_list_update:
  "i < length xs \<Longrightarrow>
   length (filter P (xs[i := y])) + (if P (xs ! i) then 1 else 0) =
   length (filter P xs) + (if P y then 1 else 0)"
proof (induction xs arbitrary: i)
  case (Cons a xs)
  then show ?case by (cases i) (auto split: if_splits)
qed simp

lemma filter_remove_at:
  "i < length xs \<Longrightarrow>
   length (filter P (remove_at i xs)) + (if P (xs ! i) then 1 else 0) = length (filter P xs)"
  by (subst (3) id_take_nth_drop [of i]) (auto simp: remove_at_def)

lemma length_remove_at: "i < length xs \<Longrightarrow> length (remove_at i xs) = length xs - 1"
  by (simp add: remove_at_def)

lemma filter_has_socket_le: "length (filter has_socket ps) \<le> length ps"
  by (rule length_filter_le)

lemma pool_step_inv:
  assumes "pool_step max_conns s s'" and "pool_inv max_conns s"
  shows "pool_inv max_conns s'"
  using assms
proof (induction rule: pool_step.induct)
  case (take_permit pool k ps)
  then show ?case by simp
next
  case (pop_live i ps c pool k)
  then show ?case
    using filter_list_update [of i ps has_socket "Holding c"] by (auto simp: conn_unusable_def)
next
  case (pop_dead i ps c pool k)
  then show ?case
    using filter_list_update [of i ps has_socket "Redialling"] by (auto simp: conn_unusable_def)
next
  case (pop_empty i ps k)
  then show ?case using filter_has_socket_le [of "ps[i := Dialling]"] by simp
next
  case (dialled i ps c pool k)
  then show ?case
    using filter_list_update [of i ps has_socket "Holding c"] by (auto simp: conn_unusable_def)
next
  case (redial_failed i ps pool k)
  then show ?case
    using filter_list_update [of i ps has_socket "Popping"] by (auto simp: conn_unusable_def)
next
  case (dial_failed i ps pool k)
  then show ?case
    using filter_list_update [of i ps has_socket "Leaving"] by (auto simp: conn_unusable_def)
next
  case (used i ps c c' pool k)
  then show ?case
    using filter_list_update [of i ps has_socket "Holding c'"] by (auto simp: conn_unusable_def)
next
  case (give_back i ps c pool k)
  then show ?case
    using filter_list_update [of i ps has_socket "Leaving"] by (auto simp: conn_unusable_def)
next
  case (discard i ps c pool k)
  then show ?case
    using filter_list_update [of i ps has_socket "Leaving"] by (auto simp: conn_unusable_def)
next
  case (peer_closed j pool k ps)
  then show ?case by (auto simp: list_all_length nth_list_update)
next
  case (drop_permit i ps pool k)
  then show ?case
    using filter_remove_at [of i ps has_socket] length_remove_at [of i ps] by auto
qed

lemma pool_reach_inv: "pool_reach max_conns s \<Longrightarrow> pool_inv max_conns s"
proof (induction rule: pool_reach.induct)
  case (start pool)
  then show ?case by (auto simp: conn_unusable_def list_all_iff)
qed (rule pool_step_inv)

text \<open>
  The sequential operations are runs of this relation: a call of \<open>acquire\<close> that no other
  task interrupts, the use of the connection, \<open>release\<close> and the end of the function.
\<close>

lemma pool_step_head:
  "\<not> conn_unusable c \<Longrightarrow> pool_step m (c # pool, k, Popping # ps) (pool, k, Holding c # ps)"
  "conn_unusable c \<Longrightarrow> pool_step m (c # pool, k, Popping # ps) (pool, k, Redialling # ps)"
  "pool_step m ([], k, Popping # ps) ([], k, Dialling # ps)"
  "\<not> conn_unusable c \<Longrightarrow> pool_step m (pool, k, Dialling # ps) (pool, k, Holding c # ps)"
  "\<not> conn_unusable c \<Longrightarrow> pool_step m (pool, k, Redialling # ps) (pool, k, Holding c # ps)"
  "pool_step m (pool, k, Redialling # ps) (pool, k, Popping # ps)"
  "pool_step m (pool, k, Dialling # ps) (pool, k, Leaving # ps)"
  "cn_id c' = cn_id c \<Longrightarrow> pool_step m (pool, k, Holding c # ps) (pool, k, Holding c' # ps)"
  "\<not> conn_unusable c \<Longrightarrow> length pool < m \<Longrightarrow>
     pool_step m (pool, k, Holding c # ps) (c # pool, k, Leaving # ps)"
  "conn_unusable c \<or> length pool \<ge> m \<Longrightarrow>
     pool_step m (pool, k, Holding c # ps) (pool, k, Leaving # ps)"
  "pool_step m (pool, k, Leaving # ps) (pool, Suc k, ps)"
  using pool_step.intros(2-8,10-12) [of 0 "p # ps" for p ps]
  by (simp_all add: remove_at_def)

lemma pool_run:
  "pool_step m s s' \<Longrightarrow> (pool_step m)\<^sup>*\<^sup>* s' s'' \<Longrightarrow> (pool_step m)\<^sup>*\<^sup>* s s''"
  by (rule converse_rtranclp_into_rtranclp)

lemma conn_open_usable: "conn_open N n = (Inr c, n') \<Longrightarrow> \<not> conn_unusable c"
  by (auto simp: conn_open_def conn_unusable_def split: prod.splits sum.splits)

lemma acquire_loop_steps:
  "acquire_loop N pool n = (r, pool', n') \<Longrightarrow>
   (pool_step m)\<^sup>*\<^sup>* (pool, k, Popping # ps)
     (pool', k, (case r of Inr c \<Rightarrow> Holding c | Inl _ \<Rightarrow> Leaving) # ps)"
proof (induction N pool n rule: acquire_loop.induct)
  case (1 N n)
  then show ?case
    by (auto dest: conn_open_usable split: prod.splits sum.splits
        intro: pool_run [OF pool_step_head(3)] pool_step_head)
next
  case (2 N c pool n)
  show ?case
  proof (cases "conn_unusable c")
    case False
    with "2.prems" show ?thesis
      by (auto simp: conn_unusable_def intro!: r_into_rtranclp pool_step_head)
  next
    case True
    note start = pool_run [OF pool_step_head(2) [OF True]]
    obtain o1 n1 where o1: "conn_open N n = (o1, n1)" by fastforce
    show ?thesis
    proof (cases o1)
      case (Inl e)
      then have "acquire_loop N pool n1 = (r, pool', n')"
        using True o1 "2.prems" by (auto simp: conn_unusable_def)
      with "2.IH" True o1 Inl show ?thesis
        by (auto simp: conn_unusable_def
            intro!: start pool_run [OF pool_step_head(6)])
    next
      case (Inr c')
      then have "r = Inr c'" "pool' = pool"
        using True o1 "2.prems" by (auto simp: conn_unusable_def)
      moreover have "\<not> conn_unusable c'"
        using o1 Inr by (simp add: conn_open_usable)
      ultimately show ?thesis
        by (auto intro!: start pool_run [OF pool_step_head(5)])
    qed
  qed
qed

lemma acquire_steps:
  assumes "acquire N cl = (Ok c, cl')"
  shows "(pool_step (cl_max cl))\<^sup>*\<^sup>* (cl_pool cl, cl_permits cl, ps)
           (cl_pool cl', cl_permits cl', Holding c # ps)"
proof -
  obtain k where k: "cl_permits cl = Suc k"
    using assms by (cases "cl_permits cl") (auto simp: acquire_def)
  obtain n' where "acquire_loop N (cl_pool cl) (cl_net cl) = (Inr c, cl_pool cl', n')"
    and "cl_permits cl' = k"
    using assms k by (auto simp: acquire_def Let_def split: prod.splits sum.splits)
  then show ?thesis
    using acquire_loop_steps [of N "cl_pool cl" _ "Inr c" "cl_pool cl'" n' "cl_max cl" k ps] k
    by (auto intro: pool_run [OF pool_step.take_permit])
qed

lemma acquire_error_steps:
  assumes "acquire N cl = (Err e, cl')" and "0 < cl_permits cl"
  shows "(pool_step (cl_max cl))\<^sup>*\<^sup>* (cl_pool cl, cl_permits cl, ps) (cl_pool cl', cl_permits cl', ps)"
proof -
  obtain k where k: "cl_permits cl = Suc k"
    using assms by (cases "cl_permits cl") auto
  obtain n' where "acquire_loop N (cl_pool cl) (cl_net cl) = (Inl e, cl_pool cl', n')"
    and "cl_permits cl' = Suc k"
    using assms k by (auto simp: acquire_def Let_def split: prod.splits sum.splits)
  then show ?thesis
    using acquire_loop_steps [of N "cl_pool cl" _ "Inl e" "cl_pool cl'" n' "cl_max cl" k ps] k
    by (auto intro: pool_run [OF pool_step.take_permit]
        rtranclp.rtrancl_into_rtrancl pool_step_head)
qed

lemma release_steps:
  "(pool_step (cl_max cl))\<^sup>*\<^sup>* (cl_pool cl, cl_permits cl, Holding c # ps)
     (cl_pool (drop_permit (release c cl)), cl_permits (drop_permit (release c cl)), ps)"
proof (cases "conn_unusable c \<or> length (cl_pool cl) \<ge> cl_max cl")
  case True
  then show ?thesis
    by (intro pool_run [OF pool_step_head(10) [OF True]] r_into_rtranclp)
      (auto simp: release_def drop_permit_def conn_unusable_def pool_step_head(11))
next
  case False
  then have c: "\<not> conn_unusable c" and len: "length (cl_pool cl) < cl_max cl" by auto
  show ?thesis
    by (intro pool_run [OF pool_step_head(9) [OF c len]] r_into_rtranclp)
      (use c len in \<open>auto simp: release_def drop_permit_def conn_unusable_def pool_step_head(11)\<close>)
qed

lemma with_conn_steps:
  assumes body: "\<And>c n r c' n'. body c n = (r, c', n') \<Longrightarrow> cn_id c' = cn_id c"
    and run: "with_conn N body cl = (r, cl')"
  shows "(pool_step (cl_max cl))\<^sup>*\<^sup>* (cl_pool cl, cl_permits cl, ps) (cl_pool cl', cl_permits cl', ps)"
proof (cases "acquire N cl")
  case (Pair a cl1)
  show ?thesis
  proof (cases a)
    case (Inl e)
    then have "cl' = cl1" using Pair run by (simp add: with_conn_def)
    moreover have "cl1 = cl" if "cl_permits cl = 0"
      using that Pair by (simp add: acquire_def)
    ultimately show ?thesis
      using acquire_error_steps [of N cl e cl1 ps] Pair Inl by (cases "cl_permits cl = 0") auto
  next
    case (Inr c)
    obtain r1 c' n' where b: "body c (cl_net cl1) = (r1, c', n')" by (metis prod_cases3)
    have cl': "cl' = drop_permit (release c' (cl1\<lparr>cl_net := n'\<rparr>))"
      using Pair Inr b run by (simp add: with_conn_def)
    have m: "cl_max cl1 = cl_max cl"
      using Pair by (auto simp: acquire_def Let_def split: if_splits prod.splits sum.splits)
    have "(pool_step (cl_max cl))\<^sup>*\<^sup>* (cl_pool cl1, cl_permits cl1, Holding c # ps)
            (cl_pool cl', cl_permits cl', ps)"
      using pool_run [OF pool_step_head(8) [OF body [OF b]]] m
        release_steps [of "cl1\<lparr>cl_net := n'\<rparr>" c' ps] by (simp add: cl')
    then show ?thesis
      using acquire_steps [of N cl c cl1 ps] Pair Inr by (auto intro: rtranclp_trans)
  qed
qed

lemma request_keeps_id: "request N op args c n = (r, c', n') \<Longrightarrow> cn_id c' = cn_id c"
  by (auto simp: request_def split: if_splits prod.splits exchange.splits)

lemma request_then_steps:
  assumes "request_then N op args dec cl = (r, cl')"
  shows "(pool_step (cl_max cl))\<^sup>*\<^sup>* (cl_pool cl, cl_permits cl, ps) (cl_pool cl', cl_permits cl', ps)"
  by (rule with_conn_steps [OF _ assms [unfolded request_then_def]])
    (auto split: prod.splits dest: request_keeps_id)

text \<open>A run of the relation from a state of the invariant ends in one.\<close>

lemma pool_steps_inv:
  "(pool_step m)\<^sup>*\<^sup>* s s' \<Longrightarrow> pool_inv m s \<Longrightarrow> pool_inv m s'"
  by (induction rule: rtranclp_induct) (auto intro: pool_step_inv)

lemma acquire_usable: "acquire N cl = (Ok c, cl') \<Longrightarrow> \<not> conn_unusable c"
proof -
  have "acquire_loop N pool n = (Inr c, pool', n') \<Longrightarrow> \<not> conn_unusable c" for pool n pool' n'
    by (induction N pool n rule: acquire_loop.induct)
       (auto split: prod.splits sum.splits if_splits dest: conn_open_usable simp: conn_unusable_def)
  then show "acquire N cl = (Ok c, cl') \<Longrightarrow> \<not> conn_unusable c"
    by (auto simp: acquire_def Let_def split: if_splits prod.splits sum.splits)
qed

section \<open>Directory pages\<close>

definition encode_dir_entry :: "bytes \<Rightarrow> stat \<Rightarrow> bytes" where
  "encode_dir_entry name st = to_le32 (word_of_nat (length name)) @ name @ stat_encode st"

lemma parse_encoded_entry:
  assumes "length name < 2 ^ 32"
  shows "parse_dir_entries_from (encode_dir_entry name st @ rest) acc =
         parse_dir_entries_from rest (acc @ [\<lparr>de_name = from_utf8_lossy name, de_stat = st\<rparr>])"
proof -
  have "stat_decode (slice (4 + length name) (64 + length name)
      (to_le32 (word_of_nat (length name)) @ name @ stat_encode st @ rest)) = Some st"
    by (simp add: slice_def)
  moreover have "stat_encode st \<noteq> []"
    using length_stat_encode [of st] by (metis list.size(3) zero_neq_numeral)
  ultimately show ?thesis
    using assms by (subst parse_dir_entries_from.simps) (simp add: encode_dir_entry_def slice_def)
qed

lemma parse_encoded_entries:
  assumes "list_all (\<lambda>(name, st). length name < 2 ^ 32) es"
  shows "parse_dir_entries_from (concat (map (\<lambda>(name, st). encode_dir_entry name st) es)) acc =
         Ok (acc @ map (\<lambda>(name, st). \<lparr>de_name = from_utf8_lossy name, de_stat = st\<rparr>) es)"
  using assms
proof (induction es arbitrary: acc)
  case Nil
  then show ?case by (simp add: parse_dir_entries_from.simps)
next
  case (Cons e es)
  then show ?case by (cases e) (simp add: parse_encoded_entry)
qed

lemma parse_dir_page_encoded:
  assumes "list_all (\<lambda>(name, st). length name < 2 ^ 32) es" and "length es < 2 ^ 32"
  shows "parse_dir_page (to_le32 (word_of_nat (length es))
             @ concat (map (\<lambda>(name, st). encode_dir_entry name st) es)) =
         Ok (map (\<lambda>(name, st). \<lparr>de_name = from_utf8_lossy name, de_stat = st\<rparr>) es)"
  using assms by (simp add: parse_dir_page_def parse_dir_entries_def parse_encoded_entries slice_def)

text \<open>
  A page whose header disagrees with its entries is refused, and a truncated page is
  one of those.
\<close>

lemma parse_dir_page_count:
  "parse_dir_page data = Ok es \<Longrightarrow> length es = unat (from_le32 (slice 0 4 data))"
  by (auto simp: parse_dir_page_def parse_dir_entries_def split: if_splits)

end
