(* ===== verification/Proxy_System.thy ===== *)
theory Proxy_System
  imports Device_Dispatch Proxy_Client
begin

text \<open>
  The two ends of the file protocol put together: the client of \<open>adb-proxy\<close> talking to
  the helper of \<open>adbshare-proxy-device\<close> over a connection that delivers bytes in order.
  What a client call does is expressed by the system call it causes on the phone.
\<close>

section \<open>Reply frames\<close>

definition reply_body_ok :: "bytes \<Rightarrow> bool" where
  "reply_body_ok body \<longleftrightarrow> length body \<le> MAX_RESPONSE_FRAME"

interpretation rep: header_framing 4 "\<lambda>h. unat (from_le32 h)" MAX_RESPONSE_FRAME
  "\<lambda>h b. b" reply_body_ok frame_reply next_reply
proof
  fix buf
  show "next_reply buf =
      (if length buf < 4 then More
       else if unat (from_le32 (take 4 buf)) > MAX_RESPONSE_FRAME then Bad
       else if length buf < 4 + unat (from_le32 (take 4 buf)) then More
       else Got (slice 4 (4 + unat (from_le32 (take 4 buf))) buf)
              (drop (4 + unat (from_le32 (take 4 buf))) buf))"
    by (simp add: next_reply_def slice_def Let_def)
next
  fix m :: bytes
  assume "reply_body_ok m"
  then show "\<exists>h b. frame_reply m = h @ b \<and> length h = 4 \<and> unat (from_le32 h) = length b
      \<and> length b \<le> MAX_RESPONSE_FRAME \<and> b = m"
    by (intro exI [of _ "to_le32 (word_of_nat (length m))"] exI [of _ m])
      (simp add: frame_reply_def reply_body_ok_def MAX_RESPONSE_FRAME_def CL_MAX_RESPONSE_def)
qed simp

lemma reply_fits_body_ok: "reply_fits out \<Longrightarrow> reply_body_ok out"
  by (simp add: reply_fits_def reply_body_ok_def MAX_RESPONSE_FRAME_def CL_MAX_RESPONSE_def
      MAX_RESPONSE_def)

section \<open>The phone as the client's network\<close>

text \<open>
  The phone's state and the number of the last connection it accepted
  (\<open>next_conn_id\<close>). A frame is served on the connection it arrives on, and the client's
  reader takes the first frame of what comes back.
\<close>

type_synonym 'os phone = "'os dev \<times> u64"

definition phone_exchange :: "'os libc \<Rightarrow> u64 \<Rightarrow> bytes \<Rightarrow> 'os phone \<Rightarrow> exchange \<times> 'os phone" where
  "phone_exchange L cid frame ph =
     (let (replies, left, closed, d) = serve L cid frame (fst ph)
      in (case next_reply (concat replies) of
            Got body rest \<Rightarrow> Reply body
          | Bad \<Rightarrow> Hangup
          | More \<Rightarrow> (if closed then Hangup else Silence),
          (d, snd ph)))"

definition phone_net :: "'os libc \<Rightarrow> 'os phone net" where
  "phone_net L =
     \<lparr>n_dial = (\<lambda>ph. (Inr (snd ph + 1), (fst ph, snd ph + 1))),
      n_exchange = phone_exchange L\<rparr>"

lemma serve_request:
  assumes "length args \<le> MAX_REQUEST"
  shows "serve L cid (request_frame op args) d =
           (let (out, d') = dispatch_body L op args cid d in ([frame_reply out], [], False, d'))"
proof -
  have "drain next_request (request_frame op args) = ([(op, args)], [], False)"
    using req.drain_encoded [of "[(op, args)]" "[]"] assms
    by (simp add: request_ok_def req.drain_More req.dec_Nil)
  then show ?thesis
    by (simp add: serve_drain dispatch_def split: prod.splits)
qed

lemma phone_exchange_request:
  assumes "length args \<le> MAX_REQUEST" and "dispatch_body L op args cid d = (out, d')"
    and "reply_fits out"
  shows "phone_exchange L cid (request_frame op args) (d, k) = (Reply out, (d', k))"
  using assms rep.dec_enc [OF reply_fits_body_ok [OF assms(3)], of "[]"]
  by (simp add: phone_exchange_def serve_request)

text \<open>
  A client with a usable connection on top of its pool and a free permit; every call
  then borrows that connection and puts it back.
\<close>

definition ready :: "'n client \<Rightarrow> conn \<Rightarrow> bool" where
  "ready cl c \<longleftrightarrow> 0 < cl_permits cl \<and> length (cl_pool cl) \<le> cl_max cl \<and> \<not> conn_unusable c \<and>
     (\<exists>pool. cl_pool cl = c # pool)"

lemma with_conn_ready:
  assumes "ready cl c" and "body c (cl_net cl) = (r, c, n)"
  shows "with_conn N body cl = (r, cl\<lparr>cl_net := n\<rparr>)"
proof -
  from assms obtain pool where p: "cl_pool cl = c # pool" "cl_permits cl \<noteq> 0"
      "length pool < cl_max cl" "\<not> cn_closed c" "\<not> cn_poisoned c"
    by (auto simp: ready_def conn_unusable_def)
  then show ?thesis
    using assms(2) by (simp add: with_conn_def acquire_def release_def drop_permit_def)
qed

lemma request_phone:
  assumes "\<not> conn_unusable c" and "length args \<le> MAX_REQUEST"
    and "dispatch_body L (op_code op) args (cn_id c) d = (out, d')" and "reply_fits out"
  shows "request (phone_net L) op args c (d, k) = (decode_response out, c, (d', k))"
  using assms by (simp add: request_def phone_net_def phone_exchange_request CL_MAX_REQUEST_def
      MAX_REQUEST_def)

lemma request_then_phone:
  assumes "ready cl c" and "cl_net cl = (d, k)" and "length args \<le> MAX_REQUEST"
    and "dispatch_body L (op_code op) args (cn_id c) d = (out, d')" and "reply_fits out"
  shows "request_then (phone_net L) op args dec cl =
           (bind_result (decode_response out) dec, cl\<lparr>cl_net := (d', k)\<rparr>)"
  unfolding request_then_def
  using assms by (intro with_conn_ready [OF assms(1)])
    (simp add: request_phone ready_def)

lemma call_phone:
  assumes "ready cl c" and "cl_net cl = (d, k)" and "kernel_sane L"
    and "length args \<le> MAX_REQUEST" and "page_request (op_code op) args"
  shows "request_then (phone_net L) op args dec cl =
     (let (out, d') = dispatch_body L (op_code op) args (cn_id c) d
      in (bind_result (decode_response out) dec, cl\<lparr>cl_net := (d', k)\<rparr>))"
  using request_then_phone [OF assms(1,2,4)] dispatch_body_fits [OF assms(3,5), of "cn_id c" d]
  by (auto split: prod.splits)

lemma page_request_other: "op \<noteq> 0x06 \<Longrightarrow> page_request op args"
  by (simp add: page_request_def)

lemma decode_response_ok [simp]: "decode_response (reply_ok data) = Ok data"
  by (simp add: decode_response_def)

lemma decode_response_err:
  "s \<noteq> 0 \<Longrightarrow> decode_response (reply_err s msg) = Err (PStatus (status_from_u8 s) (from_utf8_lossy (as_bytes msg)))"
  by (simp add: decode_response_def reply_err_def)

section \<open>Arguments\<close>

lemma read_path_path_arg [simp]:
  "length path \<le> MAX_PATH \<Longrightarrow> read_path (path_arg path @ rest) = Some (as_bytes path, rest)"
  by (simp add: read_path_def path_arg_def slice_def MAX_PATH_def)

lemma read_path_path_arg_Nil [simp]:
  "length path \<le> MAX_PATH \<Longrightarrow> read_path (path_arg path) = Some (as_bytes path, [])"
  using read_path_path_arg [of path "[]"] by simp

lemma length_path_arg [simp]: "length (path_arg path) = 4 + length path"
  by (simp add: path_arg_def)

definition path_ok :: "string \<Rightarrow> bool" where
  "path_ok path \<longleftrightarrow> length path \<le> MAX_PATH \<and> CHR 0x00 \<notin> set path"

lemma path_ok_length: "path_ok path \<Longrightarrow> length path \<le> 4096"
  by (simp add: path_ok_def MAX_PATH_def)

lemma char_of_byte_zero [simp]: "char_of_byte 0 = CHR 0x00"
  by (simp add: char_of_byte_def char_of_def)

lemma byte_of_char_eq_0: "byte_of_char c = 0 \<longleftrightarrow> c = CHR 0x00"
  by (metis byte_of_char_inverse char_of_byte_inverse char_of_byte_zero)

lemma as_bytes_no_nul: "CHR 0x00 \<notin> set path \<longleftrightarrow> 0 \<notin> set (as_bytes path)"
  using byte_of_char_eq_0 by (auto simp: as_bytes_def image_iff)

lemma cstring_as_bytes [simp]: "path_ok path \<Longrightarrow> cstring (as_bytes path) = Some (as_bytes path)"
  by (simp add: cstring_def path_ok_def as_bytes_no_nul)

lemma c_str_as_bytes [simp]: "path_ok path \<Longrightarrow> c_str (as_bytes path @ [0]) = as_bytes path"
  by (simp add: path_ok_def as_bytes_no_nul)

lemma read_path_ok [simp]:
  "path_ok path \<Longrightarrow> read_path (path_arg path @ rest) = Some (as_bytes path, rest)"
  "path_ok path \<Longrightarrow> read_path (path_arg path) = Some (as_bytes path, [])"
  by (simp_all add: path_ok_def)

lemma path_arg_fits: "path_ok path \<Longrightarrow> n \<le> 4096 \<Longrightarrow> 4 + length path + n \<le> MAX_REQUEST"
  by (simp add: path_ok_def MAX_PATH_def MAX_REQUEST_def)

section \<open>What a call does on the phone\<close>

text \<open>The stat the host sees for a stat of the kernel: two fields lose their upper half.\<close>

definition host_stat :: "libc_stat \<Rightarrow> stat" where
  "host_stat st =
     \<lparr>s_mode = st_mode st, s_size = st_size st, s_mtime = st_mtime st, s_atime = st_atime st,
      s_ctime = st_ctime st, s_uid = st_uid st, s_gid = st_gid st, s_nlink = ucast (st_nlink st),
      s_blksize = ucast (st_blksize st), s_blocks = st_blocks st\<rparr>"

lemma encode_stat_host: "encode_stat st = stat_encode (host_stat st)"
  by (simp add: encode_stat_def stat_encode_def host_stat_def)

definition stat_result :: "'os libc \<Rightarrow> errno + libc_stat \<Rightarrow> proxy_error + stat" where
  "stat_result L r =
     (case r of
        Inr st \<Rightarrow> Ok (host_stat st)
      | Inl e \<Rightarrow> Err (PStatus (status_from_u8 (fst (stat_error L e)))
                         (from_utf8_lossy (as_bytes (c_strerror L e)))))"

definition unit_result :: "string \<Rightarrow> bool \<Rightarrow> proxy_error + unit" where
  "unit_result what r = (if r then Ok () else Err (PStatus IoError (from_utf8_lossy (as_bytes what))))"

lemma stat_error_nonzero: "fst (stat_error L e) \<noteq> 0"
  by (simp add: stat_error_def Let_def)

lemma decode_stat_reply:
  "bind_result (decode_response (case r of Inr st \<Rightarrow> reply_ok (encode_stat st)
       | Inl e \<Rightarrow> reply_err (fst (stat_error L e)) (snd (stat_error L e))))
     (\<lambda>resp. ok_or_invalid what (stat_decode resp)) = stat_result L r"
  by (auto simp: stat_result_def encode_stat_host ok_or_invalid_def decode_response_err
      stat_error_nonzero stat_error_def Let_def split: sum.splits)

lemma dispatch_stat_path:
  assumes "path_ok path"
  shows "dispatch_stat L op (path_arg path) d =
     (case (if op = 0x05 then c_stat L (as_bytes path) (kernel d) else c_lstat L (as_bytes path) (kernel d)) of
        Inr st \<Rightarrow> reply_ok (encode_stat st)
      | Inl e \<Rightarrow> reply_err (fst (stat_error L e)) (snd (stat_error L e)), d)"
  using assms by (auto simp: dispatch_stat_def do_stat_def do_lstat_def split: sum.splits prod.splits)

text \<open>The situation every call below is in.\<close>

definition linked :: "'os libc \<Rightarrow> 'os phone client \<Rightarrow> conn \<Rightarrow> 'os dev \<Rightarrow> bool" where
  "linked L cl c d \<longleftrightarrow> ready cl c \<and> fst (cl_net cl) = d \<and> kernel_sane L"

text \<open>The client after a call that left the kernel in state \<open>os\<close>.\<close>

definition with_kernel :: "'os \<Rightarrow> 'os phone client \<Rightarrow> 'os phone client" where
  "with_kernel os cl = cl\<lparr>cl_net := ((fst (cl_net cl))\<lparr>kernel := os\<rparr>, snd (cl_net cl))\<rparr>"

lemma call_linked:
  assumes "linked L cl c d" and "length args \<le> MAX_REQUEST" and "op \<noteq> Op_ListDir"
  shows "request_then (phone_net L) op args dec cl =
     (let (out, d') = dispatch_body L (op_code op) args (cn_id c) d
      in (bind_result (decode_response out) dec, cl\<lparr>cl_net := (d', snd (cl_net cl))\<rparr>))"
proof -
  have "op_code op \<noteq> 0x06" using assms(3) op_code_inj [of op Op_ListDir] by simp
  then show ?thesis
    using assms by (intro call_phone) (auto simp: linked_def page_request_other prod_eq_iff)
qed

lemma unchanged [simp]: "linked L cl c d \<Longrightarrow> cl\<lparr>cl_net := (d, snd (cl_net cl))\<rparr> = cl"
  by (auto simp: linked_def)

lemma stat_phone:
  assumes "linked L cl c d" and "path_ok path"
  shows "cl_stat (phone_net L) path cl = (stat_result L (c_stat L (as_bytes path) (kernel d)), cl)"
    and "cl_lstat (phone_net L) path cl = (stat_result L (c_lstat L (as_bytes path) (kernel d)), cl)"
  using assms path_arg_fits [OF assms(2), of 0]
  by (simp_all add: cl_stat_def cl_lstat_def call_linked dispatch_body_def dispatch_stat_path
      decode_stat_reply)

lemma decode_unit_reply [simp]:
  "bind_result (decode_response (fst (unit_reply what r d))) (\<lambda>_. Ok ()) = unit_result what (fst r)"
  "snd (unit_reply what r d) = d\<lparr>kernel := snd r\<rparr>"
  by (simp_all add: unit_reply_def unit_result_def decode_response_err status_from_u8_def)

lemma linked_fst: "linked L cl c d \<Longrightarrow> fst (cl_net cl) = d"
  by (simp add: linked_def)

lemma path_calls_phone:
  assumes "linked L cl c d" and "path_ok path" and "path_ok dst"
  shows "cl_mkdir (phone_net L) path mode cl =
      (let (ok, os) = c_mkdir L (as_bytes path) mode (kernel d) in (unit_result ''mkdir'' ok, with_kernel os cl))"
    and "cl_unlink (phone_net L) path cl =
      (let (ok, os) = c_unlink L (as_bytes path) (kernel d) in (unit_result ''unlink'' ok, with_kernel os cl))"
    and "cl_rmdir (phone_net L) path cl =
      (let (ok, os) = c_rmdir L (as_bytes path) (kernel d) in (unit_result ''rmdir'' ok, with_kernel os cl))"
    and "cl_rename (phone_net L) path dst cl =
      (let (ok, os) = c_rename L (as_bytes path) (as_bytes dst) (kernel d)
       in (unit_result ''rename'' ok, with_kernel os cl))"
    and "cl_truncate (phone_net L) path sz cl =
      (let (ok, os) = c_truncate L (as_bytes path) sz (kernel d)
       in (unit_result ''truncate'' ok, with_kernel os cl))"
    and "cl_utime (phone_net L) path atime mtime cl =
      (let (ok, os) = c_utimes L (as_bytes path) atime mtime (kernel d)
       in (unit_result ''utimes'' ok, with_kernel os cl))"
  using assms path_ok_length [OF assms(2)] path_ok_length [OF assms(3)] linked_fst [OF assms(1)]
  by (simp_all add: cl_mkdir_def cl_unlink_def cl_rmdir_def cl_rename_def cl_truncate_def cl_utime_def
      call_linked dispatch_body_def dispatch_mkdir_def dispatch_unlink_def dispatch_rmdir_def
      dispatch_rename_def dispatch_truncate_def dispatch_utime_def
      with_kernel_def MAX_REQUEST_def slice_def case_prod_beta)

section \<open>File handles on the phone\<close>

lemma read_at_phone:
  assumes "linked L cl c d" and "pf_fd f = Some fd" and "unat len \<le> MAX_RESPONSE"
  shows "read_at (phone_net L) f off len cl =
     (case c_pread L fd (unat len) off (kernel d) of
        Some bs \<Rightarrow> Ok bs
      | None \<Rightarrow> Err (PStatus IoError (from_utf8_lossy (as_bytes ''pread''))), cl)"
  using assms
  by (simp add: read_at_def call_linked dispatch_body_def dispatch_read_def MAX_REQUEST_def slice_def
      decode_response_err status_from_u8_def split: option.splits)

lemma write_at_phone:
  assumes "linked L cl c d" and "pf_fd f = Some fd" and "16 + length data \<le> MAX_REQUEST"
  shows "write_at (phone_net L) f off data cl =
     (case c_pwrite L fd data off (kernel d) of
        (Some n, os) \<Rightarrow>
          (if n = length data then Ok () else Err (PStatus IoError (from_utf8_lossy (as_bytes ''short write''))),
           with_kernel os cl)
      | (None, os) \<Rightarrow> (Err (PStatus IoError (from_utf8_lossy (as_bytes ''pwrite''))), with_kernel os cl))"
  using assms linked_fst [OF assms(1)]
  by (simp add: write_at_def call_linked dispatch_body_def dispatch_write_def MAX_REQUEST_def slice_def
      decode_response_err status_from_u8_def with_kernel_def split: option.splits prod.splits)

lemma file_stat_phone:
  assumes "linked L cl c d" and "pf_fd f = Some fd"
  shows "file_stat (phone_net L) f cl =
     (case c_fstat L fd (kernel d) of
        Inr st \<Rightarrow> Ok (host_stat st)
      | Inl _ \<Rightarrow> Err (PStatus IoError (from_utf8_lossy (as_bytes ''fstat''))), cl)"
  using assms
  by (simp add: file_stat_def call_linked dispatch_body_def dispatch_fstat_def MAX_REQUEST_def slice_def
      decode_response_err status_from_u8_def encode_stat_host ok_or_invalid_def split: sum.splits)

lemma open_phone:
  assumes "linked L cl c d" and "path_ok path"
  shows "cl_open (phone_net L) path flags mode cl =
     (case c_open L (as_bytes path) (libc_open_flags flags) mode (kernel d) of
        (Inr fd, os) \<Rightarrow>
          (Ok \<lparr>pf_fd = Some fd, pf_path = path\<rparr>,
           cl\<lparr>cl_net := (d\<lparr>owned := track fd (cn_id c) (owned d), kernel := os\<rparr>, snd (cl_net cl))\<rparr>)
      | (Inl _, os) \<Rightarrow> (Err (PStatus IoError (from_utf8_lossy (as_bytes ''open''))), with_kernel os cl))"
proof -
  have "length path < 4294967296" using path_ok_length [OF assms(2)] by simp
  then have "handle_open L (to_le32 flags @ to_le32 mode @ path_arg path) (kernel d) =
      (case c_open L (as_bytes path) (libc_open_flags flags) mode (kernel d) of
         (Inl _, os') \<Rightarrow> (Err (0x07, ''open''), os') | (Inr f, os') \<Rightarrow> (Ok f, os'))"
    using assms(2) by (simp add: handle_open_def path_arg_def slice_def)
  then show ?thesis
    using assms linked_fst [OF assms(1)] path_ok_length [OF assms(2)]
    by (simp add: cl_open_def call_linked dispatch_body_def dispatch_open_def MAX_REQUEST_def
        decode_response_err status_from_u8_def with_kernel_def slice_def
        split: prod.splits sum.splits)
qed

lemma close_phone:
  assumes "linked L cl c d" and "pf_fd f = Some fd"
  shows "file_close (phone_net L) f cl =
     (case c_close L fd (kernel d) of
        (True, os) \<Rightarrow>
          (Ok (), f\<lparr>pf_fd := None\<rparr>,
           cl\<lparr>cl_net := (d\<lparr>owned := untrack fd (owned d), kernel := os\<rparr>, snd (cl_net cl))\<rparr>)
      | (False, os) \<Rightarrow>
          (Err (PStatus IoError (from_utf8_lossy (as_bytes ''close failed''))), f\<lparr>pf_fd := None\<rparr>,
           with_kernel os cl))"
proof -
  obtain pool where p: "cl_pool cl = c # pool" "cl_permits cl \<noteq> 0"
      "length pool < cl_max cl" "\<not> cn_closed c" "\<not> cn_poisoned c"
    using assms(1) by (auto simp: linked_def ready_def conn_unusable_def)
  define k where "k = snd (cl_net cl)"
  have n: "cl_net cl = (d, k)" using linked_fst [OF assms(1)] by (auto simp: k_def)
  have fits: "reply_fits (fst (dispatch_close L (to_le32 fd) d))" by (rule dispatch_rest_fits)
  have "request (phone_net L) Op_Close (to_le32 fd) c (d, k) =
     (decode_response (fst (dispatch_close L (to_le32 fd) d)), c, (snd (dispatch_close L (to_le32 fd) d), k))"
    using fits p by (intro request_phone) (auto simp: conn_unusable_def MAX_REQUEST_def dispatch_body_def)
  then show ?thesis
    using p n assms(2)
    by (simp add: file_close_def acquire_def release_def drop_permit_def dispatch_close_def
        decode_response_err status_from_u8_def with_kernel_def split: prod.splits bool.splits)
qed

section \<open>Links, disk usage and copies\<close>

lemma readlink_phone:
  assumes "linked L cl c d" and "path_ok path" and "c_readlink L (as_bytes path) 4096 (kernel d) = Inr t"
  shows "cl_readlink (phone_net L) path cl = (Ok t, cl)"
proof -
  have "length t \<le> 4096"
    using kernel_saneD(2) [OF _ assms(3)] assms(1) by (simp add: linked_def)
  then show ?thesis
    using assms path_ok_length [OF assms(2)]
    by (simp add: cl_readlink_def call_linked dispatch_body_def dispatch_readlink_def MAX_REQUEST_def
        slice_def get_range_def ok_or_invalid_def)
qed

lemma disk_usage_phone:
  assumes "linked L cl c d" and "path_ok path"
    and "c_statvfs L (as_bytes path) (kernel d) = Some (bavail, blocks, bsize)"
  shows "cl_disk_usage (phone_net L) path cl =
     (Ok \<lparr>avail_bytes = saturating_mul bavail bsize, total_bytes = saturating_mul blocks bsize\<rparr>, cl)"
  using assms path_ok_length [OF assms(2)]
  by (simp add: cl_disk_usage_def call_linked dispatch_body_def dispatch_diskusage_def MAX_REQUEST_def
      disk_usage_decode_def slice_def)

lemma starts_with_slash_as_bytes: "take 1 path = ''/'' \<Longrightarrow> starts_with_slash (as_bytes path)"
  by (cases path) (auto simp: starts_with_slash_def as_bytes_def SLASH_def byte_of_char_def)

lemma copy_phone:
  assumes "linked L cl c d" and "\<not> bad_copy_string src" and "\<not> bad_copy_string dst"
  shows "cl_copy_file (phone_net L) src dst cl =
     (case do_copy_file L (as_bytes src) (as_bytes dst) (kernel d) of
        (Inr _, os) \<Rightarrow> (Ok (), with_kernel os cl)
      | (Inl (s, msg), os) \<Rightarrow>
          (Err (PStatus (status_from_u8 s) (from_utf8_lossy (as_bytes msg))), with_kernel os cl))"
proof -
  let ?args = "path_arg src @ path_arg dst"
  let ?out = "dispatch_copyfile L ?args d"
  have ok: "path_ok src" "path_ok dst" "take 1 src = ''/''" "take 1 dst = ''/''"
    using assms(2,3) by (auto simp: path_ok_def bad_copy_string_def MAX_PATH_def)
  have "0 \<notin> set (as_bytes src)" "0 \<notin> set (as_bytes dst)"
    using ok by (simp_all add: path_ok_def as_bytes_no_nul)
  then have two: "read_two_paths ?args = Some (as_bytes src, as_bytes dst)"
    using ok by (simp add: read_two_paths_def starts_with_slash_as_bytes)
  define k where "k = snd (cl_net cl)"
  have n: "cl_net cl = (d, k)" using linked_fst [OF assms(1)] by (auto simp: k_def)
  have c: "ready cl c" "\<not> conn_unusable c" "kernel_sane L"
    using assms(1) by (auto simp: linked_def ready_def)
  have r: "request (phone_net L) Op_CopyFile ?args c (d, k) = (decode_response (fst ?out), c, (snd ?out, k))"
    using c path_ok_length [OF ok(1)] path_ok_length [OF ok(2)] dispatch_copyfile_fits [OF c(3)]
    by (intro request_phone) (auto simp: MAX_REQUEST_def dispatch_body_def)
  have nz: "s \<noteq> 0" if "do_copy_file L (as_bytes src) (as_bytes dst) (kernel d) = (Inl (s, msg), os)" for s msg os
    using do_copy_file_status [OF that] .
  define body where "body = (\<lambda>c n.
    let (r, c, n) = request (phone_net L) Op_CopyFile ?args c n
    in (case r of
          Inr _ \<Rightarrow> Ok ()
        | Inl (PStatus s m) \<Rightarrow> Err (PStatus s m)
        | Inl e \<Rightarrow> Err (POther (error_display e @
            ''; completion unknown; destination may be incomplete or still copying'')), c, n))"
  let ?res = "case do_copy_file L (as_bytes src) (as_bytes dst) (kernel d) of
      (Inr _, os) \<Rightarrow> (Ok (), os)
    | (Inl (s, msg), os) \<Rightarrow> (Err (PStatus (status_from_u8 s) (from_utf8_lossy (as_bytes msg))), os)"
  have "body c (cl_net cl) = (fst ?res, c, (d\<lparr>kernel := snd ?res\<rparr>, k))"
    using r two nz unfolding body_def n
    by (simp add: dispatch_copyfile_def decode_response_err split: prod.splits sum.splits)
  from with_conn_ready [of cl c body, OF c(1) this, of "phone_net L"]
  have "cl_copy_file (phone_net L) src dst cl = (fst ?res, cl\<lparr>cl_net := (d\<lparr>kernel := snd ?res\<rparr>, k)\<rparr>)"
    using assms(2,3) by (simp add: cl_copy_file_def body_def)
  then show ?thesis
    using n by (simp add: with_kernel_def split: prod.splits sum.splits)
qed

section \<open>Listings\<close>

definition host_entry :: "bytes \<times> libc_stat \<Rightarrow> dir_entry" where
  "host_entry e = \<lparr>de_name = from_utf8_lossy (fst e), de_stat = host_stat (snd e)\<rparr>"

lemma encode_entries_host:
  "encode_entries es = concat (map (\<lambda>(name, st). encode_dir_entry name st) (map (\<lambda>(n, st). (n, host_stat st)) es))"
  by (induction es) (auto simp: encode_entry_def encode_dir_entry_def encode_stat_host)

lemma parse_host_page:
  assumes "\<And>n st. (n, st) \<in> set es \<Longrightarrow> length n < 2 ^ 32" and "length es < 2 ^ 32"
  shows "parse_dir_page (to_le32 (word_of_nat (length es)) @ encode_entries es) = Ok (map host_entry es)"
proof -
  have "list_all (\<lambda>(name, st). length name < 2 ^ 32) (map (\<lambda>(n, st). (n, host_stat st)) es)"
    using assms(1) by (auto simp: list_all_iff)
  moreover have "map (\<lambda>(name, st). \<lparr>de_name = from_utf8_lossy name, de_stat = st\<rparr>)
      (map (\<lambda>(n, st). (n, host_stat st)) es) = map host_entry es"
    by (auto simp: host_entry_def)
  ultimately show ?thesis
    using parse_dir_page_encoded [of "map (\<lambda>(n, st). (n, host_stat st)) es"] assms(2)
    by (simp only: encode_entries_host length_map)
qed

lemma entries_names: "(n, st) \<in> set (entries L path os names) \<Longrightarrow> n \<in> set names"
  by (induction names) (auto simp: entry_stat_def split: option.splits sum.splits)

lemma listdir_page_phone:
  assumes l: "linked L cl c d" and p: "path_ok path" and o: "c_opendir L (as_bytes path) (kernel d) = Inr names"
  shows "listdir_page (phone_net L) path off cl =
     (Ok (map host_entry (take 16384
        (entries L (as_bytes path) (kernel d) (drop (unat off) (visible names))))), cl)"
proof -
  define es where "es = take 16384 (entries L (as_bytes path) (kernel d) (drop (unat off) (visible names)))"
  have sane: "kernel_sane L" using l by (simp add: linked_def)
  have short: "length n \<le> 255" if "n \<in> set names" for n
    using that kernel_saneD(3) [OF sane o] by (simp add: list_all_iff)
  have "length n < 4294967296" if "(n, st) \<in> set es" for n st
  proof -
    have "n \<in> set (drop (unat off) (visible names))"
      by (rule entries_names, rule in_set_takeD, rule that [unfolded es_def])
    then have "n \<in> set names"
      by (auto simp: visible_def dest: in_set_dropD)
    then show ?thesis using short [of n] by simp
  qed
  then have page: "parse_dir_page (to_le32 (word_of_nat (length es)) @ encode_entries es) = Ok (map host_entry es)"
    by (intro parse_host_page) (auto simp: es_def)
  let ?args = "path_arg path @ to_le32 off @ to_le32 CL_LISTDIR_PAGE"
  have pr: "page_request (op_code Op_ListDir) ?args"
    using p by (simp add: page_request_def slice_def CL_LISTDIR_PAGE_def LISTDIR_PAGE_def)
  have "do_listdir L (as_bytes path) (unat off) 16384 (kernel d) =
      Ok (to_le32 (word_of_nat (length es)) @ encode_entries es)"
    unfolding es_def using p o by (subst do_listdir_eq) (simp_all add: Let_def)
  then have out: "dispatch_body L (op_code Op_ListDir) ?args (cn_id c) d =
      (reply_ok (to_le32 (word_of_nat (length es)) @ encode_entries es), d)"
    using p by (simp add: dispatch_body_def dispatch_listdir_def slice_def CL_LISTDIR_PAGE_def)
  have "request_then (phone_net L) Op_ListDir ?args parse_dir_page cl =
     (let (out, d') = dispatch_body L (op_code Op_ListDir) ?args (cn_id c) d
      in (bind_result (decode_response out) parse_dir_page, cl\<lparr>cl_net := (d', snd (cl_net cl))\<rparr>))"
    using l pr path_ok_length [OF p]
    by (intro call_phone) (auto simp: linked_def MAX_REQUEST_def)
  then show ?thesis
    unfolding listdir_page_def out using l page by (simp add: es_def [symmetric])
qed

text \<open>Every visible entry can be examined.\<close>

definition all_stat :: "'os libc \<Rightarrow> bytes \<Rightarrow> 'os \<Rightarrow> bytes list \<Rightarrow> bool" where
  "all_stat L path os names \<longleftrightarrow> list_all (\<lambda>n. entry_stat L path os n \<noteq> None) names"

lemma entries_length: "all_stat L path os names \<Longrightarrow> length (entries L path os names) = length names"
  by (induction names) (auto simp: all_stat_def split: option.splits)

lemma entries_drop: "all_stat L path os names \<Longrightarrow> entries L path os (drop k names) = drop k (entries L path os names)"
proof (induction names arbitrary: k)
  case (Cons n names)
  then show ?case by (cases k) (auto simp: all_stat_def split: option.splits)
qed simp

lemma listdir_pages_phone:
  assumes l: "linked L cl c d" and p: "path_ok path"
    and o: "c_opendir L (as_bytes path) (kernel d) = Inr names"
    and a: "all_stat L (as_bytes path) (kernel d) (visible names)"
    and bound: "length (visible names) < 2 ^ 32 - 16384"
    and "unat off \<le> length (visible names)"
    and "length (visible names) - unat off < 16384 * fuel"
  shows "listdir_pages fuel (phone_net L) path off acc cl =
     Some (Ok (acc @ map host_entry (drop (unat off) (entries L (as_bytes path) (kernel d) (visible names)))), cl)"
  using assms(6,7)
proof (induction fuel arbitrary: off acc)
  case (Suc fuel)
  let ?es = "entries L (as_bytes path) (kernel d) (visible names)"
  let ?page = "take 16384 (drop (unat off) ?es)"
  have page: "listdir_page (phone_net L) path off cl = (Ok (map host_entry ?page), cl)"
    using listdir_page_phone [OF l p o, of off] by (simp add: entries_drop [OF a])
  have len: "length ?es = length (visible names)" by (rule entries_length [OF a])
  show ?case
  proof (cases "length ?es - unat off < 16384")
    case True
    then show ?thesis
      using len by (simp add: page CL_LISTDIR_PAGE_def word_less_nat_alt)
  next
    case False
    then have full: "length ?page = 16384" using len by simp
    have off': "unat (off + 16384) = unat off + 16384"
      using Suc.prems bound by (subst unat_add_lem [THEN iffD1]) simp_all
    have "listdir_pages fuel (phone_net L) path (off + 16384) (acc @ map host_entry ?page) cl =
      Some (Ok ((acc @ map host_entry ?page) @ map host_entry (drop (unat (off + 16384)) ?es)), cl)"
      using Suc.prems False len by (intro Suc.IH) (simp_all add: off')
    moreover have "drop (unat (off + 16384)) ?es = drop 16384 (drop (unat off) ?es)"
      by (simp add: off' add.commute)
    then have "map host_entry ?page @ map host_entry (drop (unat (off + 16384)) ?es) =
        map host_entry (drop (unat off) ?es)"
      by (simp only: map_append [symmetric] append_take_drop_id)
    ultimately show ?thesis
      using full by (simp add: page CL_LISTDIR_PAGE_def del: length_take)
  qed
qed simp

end
