(* ===== verification/Proxy_Properties.thy ===== *)
theory Proxy_Properties
  imports Proxy_System
begin

text \<open>
  The properties of the file protocol: of the helper on the phone, of the client and its
  pool, and of the two together. A small kernel with one file and one directory shows
  that their hypotheses can hold.
\<close>

section \<open>A kernel for the witnesses\<close>

definition demo_stat :: libc_stat where
  "demo_stat = \<lparr>st_dev = 1, st_ino = 2, st_mode = 0x81A4, st_size = 5, st_mtime = 7, st_atime = 8,
     st_ctime = 9, st_uid = 1000, st_gid = 1000, st_nlink = 1, st_blksize = 4096, st_blocks = 8\<rparr>"

text \<open>
  Its state is the content of the file; the directory \<open>names\<close> is the same everywhere,
  and the path \<open>/x\<close> is one \<open>lstat\<close> fails on.
\<close>

definition demo_libc :: "bytes list \<Rightarrow> bytes libc" where
  "demo_libc names =
     \<lparr>c_open = (\<lambda>p fl m os. (Inr 3, os)),
      c_close = (\<lambda>f os. (True, os)),
      c_pread = (\<lambda>f n off os. Some (take n (drop (unat off) os))),
      c_pwrite = (\<lambda>f bs off os. (Some (length bs),
        take (unat off) (os @ replicate (unat off - length os) 0) @ bs @ drop (unat off + length bs) os)),
      c_stat = (\<lambda>p os. Inr demo_stat),
      c_lstat = (\<lambda>p os. if p = [SLASH, 0x78] then Inl ENOENT else Inr demo_stat),
      c_fstat = (\<lambda>f os. Inr demo_stat),
      c_opendir = (\<lambda>p os. Inr (filter (\<lambda>n. length n \<le> 255) names)),
      c_mkdir = (\<lambda>p m os. (True, os)),
      c_unlink = (\<lambda>p os. (False, os)),
      c_rmdir = (\<lambda>p os. (True, os)),
      c_rename = (\<lambda>p q os. (True, os)),
      c_truncate = (\<lambda>p n os. (True, take (unat n) os)),
      c_realpath = (\<lambda>p os. None),
      c_readlink = (\<lambda>p n os. Inl EINVAL),
      c_symlink = (\<lambda>t l os. (True, os)),
      c_utimes = (\<lambda>p a m os. (True, os)),
      c_statvfs = (\<lambda>p os. Some (10, 20, 4096)),
      c_open_nofollow = (\<lambda>p os. (Inr 4, os)),
      c_open_directory = (\<lambda>p os. (Inr 5, os)),
      c_openat_excl = (\<lambda>f n os. (Inr 6, os)),
      c_copy = (\<lambda>a b n os. (Inr n, os)),
      c_fsync = (\<lambda>f os. (None, os)),
      c_fstatat = (\<lambda>f n os. Some demo_stat),
      c_unlinkat = (\<lambda>f n os. os),
      c_strerror = (\<lambda>e. ''error'')\<rparr>"

definition demo_dev :: "bytes dev" where
  "demo_dev = \<lparr>owned = [], kernel = as_bytes ''hello''\<rparr>"

definition demo_conn :: conn where
  "demo_conn = \<lparr>cn_id = 1, cn_closed = False, cn_poisoned = False\<rparr>"

definition demo_client :: "bytes phone client" where
  "demo_client = \<lparr>cl_pool = [demo_conn], cl_permits = 4, cl_max = 4, cl_net = (demo_dev, 1)\<rparr>"

lemmas demo_defs = demo_libc_def demo_dev_def demo_conn_def demo_client_def

lemma demo_sane: "kernel_sane (demo_libc names)"
  by (auto simp: kernel_sane_def demo_libc_def list_all_iff)

lemma demo_linked: "linked (demo_libc names) demo_client demo_conn demo_dev"
  by (simp add: linked_def demo_sane) (simp add: ready_def demo_defs conn_unusable_def)

section \<open>The helper\<close>

text \<open>
  C1. Whatever way the bytes of a sequence of requests are cut by the network, the
  helper answers exactly these requests, each once and in order, and its state ends as
  if they had been dispatched one after the other.
\<close>

theorem connection_serves_requests:
  assumes "[] \<notin> set chunks" and "list_all request_ok reqs"
    and "concat chunks = concat (map (\<lambda>(op, args). request_frame op args) reqs)"
  shows "handle_connection L conn [] chunks d = run_requests L conn reqs d"
  by (rule handle_connection_requests [OF assms])

theorem connection_serves_requests_witness:
  "handle_connection (demo_libc []) 1 []
     [take 2 (request_frame 0x02 [3, 0, 0, 0]), drop 2 (request_frame 0x02 [3, 0, 0, 0])] demo_dev =
   run_requests (demo_libc []) 1 [(0x02, [3, 0, 0, 0])] demo_dev"
  by (rule connection_serves_requests)
    (simp_all add: request_ok_def MAX_REQUEST_def, simp add: request_frame_def)

text \<open>
  Every reply fits the client's frame limit and carries a status byte: fed to the
  client's reader, with anything after it, it comes out as one frame with at least one
  byte.
\<close>

theorem reply_accepted_by_client:
  assumes "kernel_sane L" and "page_request op args"
  shows "\<exists>s data. next_reply (fst (dispatch L op args conn d) @ rest) = Got (s # data) rest"
proof -
  have fits: "reply_fits (fst (dispatch_body L op args conn d))"
    by (rule dispatch_body_fits [OF assms])
  then have "next_reply (fst (dispatch L op args conn d) @ rest) = Got (fst (dispatch_body L op args conn d)) rest"
    using rep.dec_enc [OF reply_fits_body_ok] by (simp add: dispatch_def case_prod_beta)
  then show ?thesis
    using fits by (cases "fst (dispatch_body L op args conn d)") (auto simp: reply_fits_def)
qed



section \<open>The pool\<close>



text \<open>
  C25. Every client call of the request-and-decode form returns the permit it took, on
  success and on every error, and keeps the pool within its bound and clean.
\<close>

theorem call_keeps_pool:
  assumes "request_then N op args dec cl = (r, cl')"
    and "pool_inv (cl_max cl) (cl_pool cl, cl_permits cl, ps)"
  shows "cl_permits cl' = cl_permits cl \<and> pool_inv (cl_max cl) (cl_pool cl', cl_permits cl', ps)"
  using pool_steps_inv [OF request_then_steps [OF assms(1), of ps] assms(2)] assms(2) by simp

theorem call_keeps_pool_witness:
  "cl_permits (snd (cl_unlink (phone_net (demo_libc [])) ''/x'' demo_client)) = 4 \<and>
   pool_inv 4 (cl_pool (snd (cl_unlink (phone_net (demo_libc [])) ''/x'' demo_client)),
     cl_permits (snd (cl_unlink (phone_net (demo_libc [])) ''/x'' demo_client)), [])"
  using call_keeps_pool [of "phone_net (demo_libc [])" Op_Unlink "path_arg ''/x''" "\<lambda>_. Ok ()"
      demo_client "fst (cl_unlink (phone_net (demo_libc [])) ''/x'' demo_client)"
      "snd (cl_unlink (phone_net (demo_libc [])) ''/x'' demo_client)" "[]"]
  by (simp add: cl_unlink_def demo_client_def demo_conn_def)

text \<open>
  C24. A connection on which a request timed out is never used again: it is unusable, so
  every later request on it fails without touching the socket, and \<open>release\<close> drops it.
\<close>

theorem timed_out_connection_discarded:
  assumes "request N op args c n = (Err PTimeout, c', n')"
  shows "request N op' args' c' m = (Err PClosed, c', m) \<and> release c' cl = cl"
proof -
  have "cn_poisoned c'"
    using assms by (auto simp: request_def decode_response_def Let_def
        split: if_splits prod.splits exchange.splits list.splits)
  then show ?thesis by (simp add: request_def release_def conn_unusable_def)
qed

definition silent_net :: "unit net" where
  "silent_net = \<lparr>n_dial = (\<lambda>n. (Inr 1, n)), n_exchange = (\<lambda>c f n. (Silence, n))\<rparr>"

theorem timed_out_connection_discarded_witness:
  "request silent_net Op_Read [] (demo_conn\<lparr>cn_closed := True, cn_poisoned := True\<rparr>) () =
     (Err PClosed, demo_conn\<lparr>cn_closed := True, cn_poisoned := True\<rparr>, ()) \<and>
   release (demo_conn\<lparr>cn_closed := True, cn_poisoned := True\<rparr>) demo_client = demo_client"
  by (rule timed_out_connection_discarded [of silent_net Op_Close "[]" demo_conn "()" _ "()"])
    (simp add: request_def silent_net_def demo_conn_def conn_unusable_def CL_MAX_REQUEST_def)

section \<open>Client and helper together\<close>

text \<open>
  C10. What \<open>stat\<close> and \<open>lstat\<close> return on the host is what the phone's kernel said, field by
  field, and a failing call arrives as the status of its errno.
\<close>

theorem stat_end_to_end:
  assumes "linked L cl c d" and "path_ok path"
  shows "cl_stat (phone_net L) path cl = (stat_result L (c_stat L (as_bytes path) (kernel d)), cl) \<and>
         cl_lstat (phone_net L) path cl = (stat_result L (c_lstat L (as_bytes path) (kernel d)), cl)"
  using stat_phone [OF assms] by simp

theorem stat_end_to_end_witness:
  "cl_stat (phone_net (demo_libc [])) ''/x'' demo_client =
     (stat_result (demo_libc []) (c_stat (demo_libc []) (as_bytes ''/x'') (kernel demo_dev)), demo_client) \<and>
   cl_lstat (phone_net (demo_libc [])) ''/x'' demo_client =
     (stat_result (demo_libc []) (c_lstat (demo_libc []) (as_bytes ''/x'') (kernel demo_dev)), demo_client)"
  by (rule stat_end_to_end [OF demo_linked]) (simp add: path_ok_def MAX_PATH_def)

text \<open>
  C26. \<open>mkdir\<close>, \<open>unlink\<close>, \<open>rmdir\<close>, \<open>rename\<close>, \<open>truncate\<close> and \<open>utime\<close> on the host are exactly one
  system call on the phone, on the same paths and values; the outcome is reported
  faithfully and nothing else changes.
\<close>

theorem path_calls_end_to_end:
  assumes "linked L cl c d" and "path_ok path" and "path_ok dst"
  shows "cl_mkdir (phone_net L) path mode cl =
      (let (ok, os) = c_mkdir L (as_bytes path) mode (kernel d) in (unit_result ''mkdir'' ok, with_kernel os cl)) \<and>
    cl_unlink (phone_net L) path cl =
      (let (ok, os) = c_unlink L (as_bytes path) (kernel d) in (unit_result ''unlink'' ok, with_kernel os cl)) \<and>
    cl_rmdir (phone_net L) path cl =
      (let (ok, os) = c_rmdir L (as_bytes path) (kernel d) in (unit_result ''rmdir'' ok, with_kernel os cl)) \<and>
    cl_rename (phone_net L) path dst cl =
      (let (ok, os) = c_rename L (as_bytes path) (as_bytes dst) (kernel d)
       in (unit_result ''rename'' ok, with_kernel os cl)) \<and>
    cl_truncate (phone_net L) path sz cl =
      (let (ok, os) = c_truncate L (as_bytes path) sz (kernel d)
       in (unit_result ''truncate'' ok, with_kernel os cl)) \<and>
    cl_utime (phone_net L) path atime mtime cl =
      (let (ok, os) = c_utimes L (as_bytes path) atime mtime (kernel d)
       in (unit_result ''utimes'' ok, with_kernel os cl))"
  using path_calls_phone [OF assms] by blast

theorem path_calls_end_to_end_witness:
  "cl_truncate (phone_net (demo_libc [])) ''/a'' 2 demo_client = (Ok (), with_kernel (as_bytes ''he'') demo_client)"
proof -
  have "path_ok ''/a''" by (simp add: path_ok_def MAX_PATH_def)
  from path_calls_end_to_end [OF demo_linked this this, of "[]" 0 2 0 0]
  show ?thesis
    by (simp add: demo_libc_def demo_dev_def unit_result_def as_bytes_def)
qed

text \<open>A descriptor of a regular file: what was written can be read back.\<close>

definition reads_back :: "'os libc \<Rightarrow> fd \<Rightarrow> bool" where
  "reads_back L fd \<longleftrightarrow>
     (\<forall>data off os os'. c_pwrite L fd data off os = (Some (length data), os') \<longrightarrow>
        c_pread L fd (length data) off os' = Some data)"

text \<open>
  C11. Data that \<open>write_at\<close> reports as written is what \<open>read_at\<close> returns from the same
  offset, for every size a request can carry.
\<close>

theorem write_then_read:
  assumes "linked L cl c d" and "pf_fd f = Some fd" and "16 + length data \<le> MAX_REQUEST"
    and "reads_back L fd" and "write_at (phone_net L) f off data cl = (Ok (), cl')"
  shows "fst (read_at (phone_net L) f off (word_of_nat (length data)) cl') = Ok data"
proof -
  obtain os where w: "c_pwrite L fd data off (kernel d) = (Some (length data), os)"
    and cl': "cl' = with_kernel os cl"
    using assms(5) by (auto simp: write_at_phone [OF assms(1-3)] split: prod.splits option.splits if_splits)
  have "linked L cl' c (d\<lparr>kernel := os\<rparr>)"
    using assms(1) by (auto simp: linked_def cl' with_kernel_def ready_def)
  moreover have len: "unat (word_of_nat (length data) :: u32) = length data"
    using assms(3) by (simp add: MAX_REQUEST_def)
  moreover have "length data \<le> MAX_RESPONSE"
    using assms(3) by (simp add: MAX_REQUEST_def MAX_RESPONSE_def)
  moreover have "c_pread L fd (length data) off os = Some data"
    using assms(4) w by (auto simp: reads_back_def)
  ultimately show ?thesis
    using assms(2) by (simp add: read_at_phone)
qed

theorem write_then_read_witness:
  "fst (read_at (phone_net (demo_libc [])) \<lparr>pf_fd = Some 3, pf_path = ''/a''\<rparr> 1 (word_of_nat (length [7 :: u8, 8, 9]))
     (snd (write_at (phone_net (demo_libc [])) \<lparr>pf_fd = Some 3, pf_path = ''/a''\<rparr> 1 [7, 8, 9] demo_client))) = Ok [7, 8, 9]"
proof (rule write_then_read [OF demo_linked])
  show "reads_back (demo_libc []) 3"
    by (auto simp: reads_back_def demo_libc_def)
  show "write_at (phone_net (demo_libc [])) \<lparr>pf_fd = Some 3, pf_path = ''/a''\<rparr> 1 [7, 8, 9] demo_client =
    (Ok (), snd (write_at (phone_net (demo_libc [])) \<lparr>pf_fd = Some 3, pf_path = ''/a''\<rparr> 1 [7, 8, 9] demo_client))"
    by (subst (1 2) write_at_phone [OF demo_linked, of _ 3]) (simp_all add: MAX_REQUEST_def demo_libc_def)
qed (simp_all add: MAX_REQUEST_def)

text \<open>
  C9. The listing is complete and in order for a directory of any size: the paging loop
  ends after one page more than the directory fills, and returns every entry but \<open>.\<close> and
  \<open>..\<close> exactly once, provided each of them can be examined.
\<close>

theorem listdir_complete:
  assumes "linked L cl c d" and "path_ok path"
    and "c_opendir L (as_bytes path) (kernel d) = Inr names"
    and "all_stat L (as_bytes path) (kernel d) (visible names)"
    and "length (visible names) < 2 ^ 32 - 16384" and "length (visible names) div 16384 < fuel"
  shows "cl_listdir fuel (phone_net L) path cl =
     Some (Ok (map host_entry (entries L (as_bytes path) (kernel d) (visible names))), cl)"
proof -
  have "length (visible names) < 16384 * fuel"
    using assms(6) by (simp add: div_less_iff_less_mult mult.commute)
  then show ?thesis
    using listdir_pages_phone [OF assms(1-5), of 0 fuel "[]"] by (simp add: cl_listdir_def)
qed

theorem listdir_complete_witness:
  "cl_listdir 1 (phone_net (demo_libc [[DOT], [0x61], [0x62]])) ''/'' demo_client =
     Some (Ok [\<lparr>de_name = ''a'', de_stat = host_stat demo_stat\<rparr>, \<lparr>de_name = ''b'', de_stat = host_stat demo_stat\<rparr>],
       demo_client)"
proof -
  let ?L = "demo_libc [[DOT], [0x61], [0x62]]"
  have l: "from_utf8_lossy [0x61] = ''a''" "from_utf8_lossy [0x62] = ''b''"
    by (simp_all add: from_utf8_lossy_def) (code_simp, code_simp)
  have "cl_listdir 1 (phone_net ?L) ''/'' demo_client =
     Some (Ok (map host_entry (entries ?L (as_bytes ''/'') (kernel demo_dev) (visible [[DOT], [0x61], [0x62]]))), demo_client)"
    by (rule listdir_complete [OF demo_linked])
      (simp_all add: path_ok_def MAX_PATH_def demo_libc_def all_stat_def DOT_def entry_stat_def entry_path_def
        as_bytes_def SLASH_def byte_of_char_def c_str_def)
  then show ?thesis
    using l by (simp add: demo_libc_def DOT_def entry_stat_def entry_path_def host_entry_def
        as_bytes_def SLASH_def byte_of_char_def c_str_def)
qed

lemma drop_butlast_1: "length xs = Suc n \<Longrightarrow> drop n xs = [last xs]"
  by (cases xs rule: rev_cases) auto

text \<open>
  C35. An entry that cannot be examined makes the listing repeat another one: the helper
  counts it against the offset, the client does not. With one such entry in front of
  16384 good ones, the last good entry is returned twice.
\<close>

theorem listdir_repeats_entry:
  assumes l: "linked L cl c d" and p: "path_ok path"
    and o: "c_opendir L (as_bytes path) (kernel d) = Inr names" and v: "visible names = ghost # good"
    and g: "entry_stat L (as_bytes path) (kernel d) ghost = None"
    and a: "all_stat L (as_bytes path) (kernel d) good" and n: "length good = 16384"
  shows "cl_listdir 2 (phone_net L) path cl =
     Some (Ok (map host_entry (entries L (as_bytes path) (kernel d) good
                 @ [last (entries L (as_bytes path) (kernel d) good)])), cl)"
proof -
  let ?es = "entries L (as_bytes path) (kernel d) good"
  have len: "length ?es = 16384" using entries_length [OF a] n by simp
  have p1: "listdir_page (phone_net L) path 0 cl = (Ok (map host_entry ?es), cl)"
    using listdir_page_phone [OF l p o, of 0] len by (simp add: v g)
  have "entries L (as_bytes path) (kernel d) (drop 16383 good) = [last ?es]"
    using entries_drop [OF a, of 16383] drop_butlast_1 [of ?es 16383] len by simp
  then have p2: "listdir_page (phone_net L) path 16384 cl = (Ok [host_entry (last ?es)], cl)"
    using listdir_page_phone [OF l p o, of 16384] by (simp add: v)
  show ?thesis
    unfolding cl_listdir_def numeral_2_eq_2
    using p1 p2 len by (simp add: CL_LISTDIR_PAGE_def Let_def word_less_nat_alt)
qed

definition letters :: "nat \<Rightarrow> bytes" where
  "letters i = [0x61, 0x41 + word_of_nat (i div 676), 0x41 + word_of_nat (i div 26 mod 26), 0x41 + word_of_nat (i mod 26)]"

definition big_dir :: "bytes list" where
  "big_dir = [0x78] # map letters [0..<16384]"

lemma visible_letters: "visible (map letters is) = map letters is"
  by (induction "is") (simp_all add: letters_def)

lemma all_stat_letters: "all_stat (demo_libc names) (as_bytes ''/'') os (map letters is)"
  by (auto simp: all_stat_def list_all_iff entry_stat_def demo_libc_def entry_path_def letters_def
      as_bytes_def SLASH_def byte_of_char_def c_str_def)

theorem listdir_repeats_entry_witness:
  "cl_listdir 2 (phone_net (demo_libc big_dir)) ''/'' demo_client =
     Some (Ok (map host_entry
       (entries (demo_libc big_dir) (as_bytes ''/'') (kernel demo_dev) (map letters [0..<16384])
        @ [last (entries (demo_libc big_dir) (as_bytes ''/'') (kernel demo_dev) (map letters [0..<16384]))])),
       demo_client)"
proof (rule listdir_repeats_entry [OF demo_linked])
  show "c_opendir (demo_libc big_dir) (as_bytes ''/'') (kernel demo_dev) = Inr big_dir"
    by (simp add: demo_libc_def big_dir_def letters_def)
  show "visible big_dir = [0x78] # map letters [0..<16384]"
    unfolding big_dir_def visible_simps visible_letters by (simp add: DOT_def)
  show "entry_stat (demo_libc big_dir) (as_bytes ''/'') (kernel demo_dev) [0x78] = None"
    by (simp add: entry_stat_def demo_libc_def entry_path_def as_bytes_def SLASH_def byte_of_char_def c_str_def)
qed (simp_all only: all_stat_letters length_map length_upt path_ok_def MAX_PATH_def, simp_all)

text \<open>
  Copying a file on the phone: the client's call is exactly the helper's
  \<open>do_copy_file\<close>, and the helper's own verdict, never a guess, is what the host sees.
\<close>

lemma copy_end_to_end:
  assumes "linked L cl c d" and "\<not> bad_copy_string src" and "\<not> bad_copy_string dst"
  shows "cl_copy_file (phone_net L) src dst cl =
     (case do_copy_file L (as_bytes src) (as_bytes dst) (kernel d) of
        (Inr _, os) \<Rightarrow> (Ok (), with_kernel os cl)
      | (Inl (s, msg), os) \<Rightarrow>
          (Err (PStatus (status_from_u8 s) (from_utf8_lossy (as_bytes msg))), with_kernel os cl))"
  by (rule copy_phone [OF assms])

text \<open>
  Dropping the last handle of an open file closes its descriptor on the phone and
  forgets it, exactly once: the handle is then closed, a second drop does nothing, and
  neither does a drop after an explicit \<open>close\<close>.
\<close>

theorem drop_closes_once:
  assumes "linked L cl c d" and "pf_fd f = Some fd" and "c_close L fd (kernel d) = (True, os)"
  shows "file_drop (phone_net L) env True 1 f cl =
      (f\<lparr>pf_fd := None\<rparr>,
       cl\<lparr>cl_net := (d\<lparr>owned := untrack fd (owned d), kernel := os\<rparr>, snd (cl_net cl))\<rparr>) \<and>
    file_drop (phone_net L) env True 1 (f\<lparr>pf_fd := None\<rparr>) cl' = (f\<lparr>pf_fd := None\<rparr>, cl') \<and>
    fst (snd (file_close (phone_net L) f cl)) = f\<lparr>pf_fd := None\<rparr>"
proof -
  have frame: "close_frame fd = request_frame (op_code Op_Close) (to_le32 fd)"
    by (simp add: close_frame_def request_frame_def)
  obtain m where retries: "CLOSE_RETRIES = Suc m" by (simp add: CLOSE_RETRIES_def numeral_eq_Suc)
  obtain pool where p: "cl_pool cl = c # pool" "cl_permits cl \<noteq> 0"
      "length pool < cl_max cl" "\<not> cn_closed c" "\<not> cn_poisoned c"
    using assms(1) by (auto simp: linked_def ready_def conn_unusable_def)
  define k where "k = snd (cl_net cl)"
  have n: "cl_net cl = (d, k)" using linked_fst [OF assms(1)] by (auto simp: k_def)
  have ex: "phone_exchange L (cn_id c) (request_frame (op_code Op_Close) (to_le32 fd)) (d, k) =
      (Reply (reply_ok []), (d\<lparr>owned := untrack fd (owned d), kernel := os\<rparr>, k))"
    using assms(3)
    by (intro phone_exchange_request)
      (simp_all add: MAX_REQUEST_def dispatch_body_def dispatch_close_def reply_fits_ok slice_def)
  have "file_drop (phone_net L) env True 1 f cl =
      (f\<lparr>pf_fd := None\<rparr>, cl\<lparr>cl_net := (d\<lparr>owned := untrack fd (owned d), kernel := os\<rparr>, k)\<rparr>)"
    using p n ex assms(2)
    by (simp add: file_drop_def retries frame acquire_def send_frame_and_await_def conn_unusable_def phone_net_def release_def
        drop_permit_def)
  then show ?thesis
    using close_phone [OF assms(1,2)] assms(3) by (simp add: file_drop_def k_def)
qed

end
