(* ===== verification/Transfer_Job.thy ===== *)
theory Transfer_Job
  imports Prelude
begin

text \<open>
  A transfer job (\<open>transfer-engine/src/job.rs\<close>). The handle is a record; the fields the
  source keeps behind an \<open>Arc\<close>, which all clones of a handle share, are the record
  \<open>job_cells\<close>, and the handle holds the address of its cells. \<open>progress_frac\<close> is a
  floating-point fraction for display and is not modelled.
\<close>

type_synonym job_id = u64

datatype direction = Push | Pull
datatype verify_mode = VerifyOff | VerifyOn | VerifyOnError
datatype overwrite_mode = Always | SkipExisting | Resume | Rename
datatype job_state = Pending | Running | Paused | Completed | Skipped | Failed | Cancelled

record job_options =
  chunk_size :: nat
  verify :: verify_mode
  overwrite :: overwrite_mode

definition DEFAULT_CHUNK :: nat where "DEFAULT_CHUNK = 2 * 1024 * 1024"

definition default_options :: job_options where
  "default_options = \<lparr>chunk_size = DEFAULT_CHUNK, verify = VerifyOff, overwrite = SkipExisting\<rparr>"

record job_cells =
  j_state :: job_state
  j_bytes_done :: u64
  j_bytes_total :: u64
  j_speed_bps :: u64
  j_eta_secs :: u64
  j_started :: "u64 option"
  j_error :: "string option"
  j_cancel :: bool
  j_paused :: bool

type_synonym addr = nat

record job =
  job_id :: job_id
  job_direction :: direction
  job_source :: string
  job_destination :: string
  job_opts :: job_options
  job_device :: "string option"
  job_cells_at :: addr

definition fresh_cells :: job_cells where
  "fresh_cells = \<lparr>j_state = Pending, j_bytes_done = 0, j_bytes_total = 0, j_speed_bps = 0,
     j_eta_secs = 0, j_started = None, j_error = None, j_cancel = False, j_paused = False\<rparr>"

section \<open>The store of shared cells\<close>

text \<open>An allocation never reuses an address.\<close>

record store =
  st_cells :: "addr \<Rightarrow> job_cells"
  st_next :: addr

definition with_device ::
  "job_id \<Rightarrow> direction \<Rightarrow> string \<Rightarrow> string \<Rightarrow> job_options \<Rightarrow> string option \<Rightarrow> store \<Rightarrow> job \<times> store" where
  "with_device i dir src dst opts dev s =
     (\<lparr>job_id = i, job_direction = dir, job_source = src, job_destination = dst, job_opts = opts,
       job_device = dev, job_cells_at = st_next s\<rparr>,
      s\<lparr>st_cells := (st_cells s)(st_next s := fresh_cells), st_next := st_next s + 1\<rparr>)"

definition job_new ::
  "job_id \<Rightarrow> direction \<Rightarrow> string \<Rightarrow> string \<Rightarrow> job_options \<Rightarrow> store \<Rightarrow> job \<times> store" where
  "job_new i dir src dst opts s = with_device i dir src dst opts None s"

text \<open>A method of \<open>Job\<close> works on the cells its handle points to.\<close>

definition on_cells :: "job \<Rightarrow> (job_cells \<Rightarrow> job_cells) \<Rightarrow> store \<Rightarrow> store" where
  "on_cells j f s = s\<lparr>st_cells := (st_cells s)(job_cells_at j := f (st_cells s (job_cells_at j)))\<rparr>"

definition cells_of :: "store \<Rightarrow> job \<Rightarrow> job_cells" where
  "cells_of s j = st_cells s (job_cells_at j)"

section \<open>The methods\<close>

definition set_state :: "job_state \<Rightarrow> job_cells \<Rightarrow> job_cells" where
  "set_state x c = c\<lparr>j_state := x\<rparr>"

definition set_speed_bps :: "u64 \<Rightarrow> job_cells \<Rightarrow> job_cells" where
  "set_speed_bps x c = c\<lparr>j_speed_bps := x\<rparr>"

definition set_eta_secs :: "u64 \<Rightarrow> job_cells \<Rightarrow> job_cells" where
  "set_eta_secs x c = c\<lparr>j_eta_secs := x\<rparr>"

definition add_bytes :: "u64 \<Rightarrow> job_cells \<Rightarrow> job_cells" where
  "add_bytes n c = c\<lparr>j_bytes_done := j_bytes_done c + n\<rparr>"

definition set_total :: "u64 \<Rightarrow> job_cells \<Rightarrow> job_cells" where
  "set_total n c = c\<lparr>j_bytes_total := n\<rparr>"

definition mark_started :: "u64 \<Rightarrow> job_cells \<Rightarrow> job_cells" where
  "mark_started now c = c\<lparr>j_started := Some now\<rparr>"

definition set_error :: "string \<Rightarrow> job_cells \<Rightarrow> job_cells" where
  "set_error e c = c\<lparr>j_error := Some e\<rparr>"

definition reset_for_retry :: "job_cells \<Rightarrow> job_cells" where
  "reset_for_retry c =
     c\<lparr>j_state := Pending, j_bytes_done := 0, j_bytes_total := 0, j_speed_bps := 0, j_eta_secs := 0,
       j_started := None, j_error := None, j_cancel := False, j_paused := False\<rparr>"

definition cancel :: "job_cells \<Rightarrow> job_cells" where
  "cancel c = c\<lparr>j_cancel := True\<rparr>"

definition pause :: "job_cells \<Rightarrow> job_cells" where
  "pause c =
     (let c = c\<lparr>j_paused := True\<rparr>
      in if j_state c = Pending \<or> j_state c = Running then set_state Paused c else c)"

definition resume :: "job_cells \<Rightarrow> job_cells" where
  "resume c =
     (let c = c\<lparr>j_paused := False\<rparr>
      in if j_state c = Paused then set_state Running c else c)"

lemmas job_method_defs =
  set_state_def set_speed_bps_def set_eta_secs_def add_bytes_def set_total_def mark_started_def
  set_error_def reset_for_retry_def cancel_def pause_def resume_def

definition terminal :: "job_state \<Rightarrow> bool" where
  "terminal x \<longleftrightarrow> x \<in> {Completed, Skipped, Failed, Cancelled}"

section \<open>Facts\<close>

lemma reset_is_fresh: "reset_for_retry c = fresh_cells"
  by (simp add: reset_for_retry_def fresh_cells_def)

lemma pause_terminal: "terminal (j_state c) \<Longrightarrow> j_state (pause c) = j_state c"
  by (auto simp: terminal_def pause_def)

lemma resume_terminal: "terminal (j_state c) \<Longrightarrow> j_state (resume c) = j_state c"
  by (auto simp: terminal_def resume_def)

lemma cells_of_on_cells [simp]:
  "cells_of (on_cells j f s) j' = (if job_cells_at j' = job_cells_at j then f (cells_of s j) else cells_of s j')"
  by (simp add: cells_of_def on_cells_def)

lemma on_cells_next [simp]: "st_next (on_cells j f s) = st_next s"
  by (simp add: on_cells_def)

end
