(* ===== verification/Paths.thy ===== *)
theory Paths
  imports Prelude Utf8
begin

text \<open>
  The parts of \<open>std::path::Path\<close> the program uses, on the bytes of a path: \<open>parent\<close>,
  \<open>file_name\<close>, \<open>file_stem\<close>, \<open>extension\<close>, \<open>join\<close>, \<open>with_file_name\<close>, \<open>to_str\<close> and
  \<open>to_string_lossy\<close>. Repeated slashes and \<open>.\<close> components after the first are skipped from
  the end, as \<open>Components\<close> does.
\<close>

definition is_absolute :: "string \<Rightarrow> bool" where
  "is_absolute p \<longleftrightarrow> take 1 p = ''/''"

definition path_body :: "string \<Rightarrow> string list" where
  "path_body p = split_on (CHR ''/'') (if is_absolute p then drop 1 p else p)"

definition skipped_segment :: "string \<Rightarrow> bool" where
  "skipped_segment s \<longleftrightarrow> s = '''' \<or> s = ''.''"

definition trim_back :: "string list \<Rightarrow> string list" where
  "trim_back xs = rev (dropWhile skipped_segment (rev xs))"

definition path_trim :: "bool \<Rightarrow> string list \<Rightarrow> string list" where
  "path_trim absolute segs =
     (case segs of
        [] \<Rightarrow> []
      | h # t \<Rightarrow> if \<not> absolute \<and> h = ''.'' then h # trim_back t else trim_back (h # t))"

definition path_parent_str :: "string \<Rightarrow> string option" where
  "path_parent_str p =
     (let segs = path_trim (is_absolute p) (path_body p)
      in if segs = [] then None
         else Some ((if is_absolute p then ''/'' else '''')
                    @ join_with ''/'' (path_trim (is_absolute p) (butlast segs))))"

definition file_name :: "string \<Rightarrow> string option" where
  "file_name p =
     (let segs = path_trim (is_absolute p) (path_body p)
      in if segs = [] \<or> last segs = ''..'' \<or> last segs = ''.'' then None else Some (last segs))"

text \<open>The file name cut at its last dot, unless that is its first character.\<close>

definition rsplit_dot :: "string \<Rightarrow> string \<times> string option" where
  "rsplit_dot f =
     (let after = rev (takeWhile (\<lambda>c. c \<noteq> CHR ''.'') (rev f))
      in if length after = length f then (f, None)
         else let before = take (length f - length after - 1) f
              in if before = '''' then (f, None) else (before, Some after))"

definition file_stem :: "string \<Rightarrow> string option" where
  "file_stem p = map_option (\<lambda>f. fst (rsplit_dot f)) (file_name p)"

definition extension :: "string \<Rightarrow> string option" where
  "extension p = (case file_name p of None \<Rightarrow> None | Some f \<Rightarrow> snd (rsplit_dot f))"

definition path_join :: "string \<Rightarrow> string \<Rightarrow> string" where
  "path_join p q =
     (if is_absolute q then q
      else if p = '''' \<or> last p = CHR ''/'' then p @ q
      else p @ ''/'' @ q)"

definition with_file_name :: "string \<Rightarrow> string \<Rightarrow> string" where
  "with_file_name p name =
     path_join (if file_name p = None then p else (case path_parent_str p of None \<Rightarrow> p | Some d \<Rightarrow> d)) name"

definition to_str :: "string \<Rightarrow> string option" where
  "to_str p = from_utf8 (as_bytes p)"

definition to_string_lossy :: "string \<Rightarrow> string" where
  "to_string_lossy p = from_utf8_lossy (as_bytes p)"

lemma join_inj: "\<not> is_absolute a \<Longrightarrow> \<not> is_absolute b \<Longrightarrow> path_join p a = path_join p b \<longleftrightarrow> a = b"
  by (simp add: path_join_def)

end
