(* ===== verification/Transfer_Worker.thy ===== *)
theory Transfer_Worker
  imports Proxy_Client Transfer_Job Paths
begin

text \<open>
  The transfer worker (\<open>transfer-engine/src/worker.rs\<close> and \<open>verify.rs\<close>). The operations of
  \<open>ProxyClient\<close> it calls are the fields of a record \<open>remote\<close>, those of \<open>tokio::fs\<close> of a record
  \<open>local\<close>; \<open>proxy_remote\<close> is the first record for the client of \<open>Proxy_Client\<close>. SHA-256 is
  a parameter, and so is the meter that turns an offset and a total into the displayed
  speed and remaining time (\<open>progress.rs\<close>, floating point).

  A user may pause, resume or cancel the job while the worker waits: at every \<open>await\<close> the
  next entry of a schedule of such actions is applied to the job's cells. A computation
  is a function on the world which returns \<open>None\<close> when it has not ended: the job is parked
  and nobody resumes it, or a loop has used up its fuel.
\<close>

section \<open>The world\<close>

record 'r remote =
  rm_stat :: "string \<Rightarrow> 'r \<Rightarrow> (proxy_error + stat) \<times> 'r"
  rm_open :: "string \<Rightarrow> u32 \<Rightarrow> u32 \<Rightarrow> 'r \<Rightarrow> (proxy_error + pfile) \<times> 'r"
  rm_read_at :: "pfile \<Rightarrow> u64 \<Rightarrow> u32 \<Rightarrow> 'r \<Rightarrow> (proxy_error + bytes) \<times> 'r"
  rm_write_at :: "pfile \<Rightarrow> u64 \<Rightarrow> bytes \<Rightarrow> 'r \<Rightarrow> (proxy_error + unit) \<times> 'r"
  rm_close :: "pfile \<Rightarrow> 'r \<Rightarrow> (proxy_error + unit) \<times> 'r"
  rm_drop :: "pfile \<Rightarrow> 'r \<Rightarrow> 'r"
  rm_unlink :: "string \<Rightarrow> 'r \<Rightarrow> (proxy_error + unit) \<times> 'r"

type_synonym lfd = nat

record 'l local =
  l_metadata :: "string \<Rightarrow> 'l \<Rightarrow> (string + u64) \<times> 'l"
  l_open :: "string \<Rightarrow> 'l \<Rightarrow> (string + lfd) \<times> 'l"
  l_create :: "string \<Rightarrow> 'l \<Rightarrow> (string + lfd) \<times> 'l"
  l_open_write :: "string \<Rightarrow> 'l \<Rightarrow> (string + lfd) \<times> 'l"
  l_seek :: "lfd \<Rightarrow> u64 \<Rightarrow> 'l \<Rightarrow> (string + unit) \<times> 'l"
  l_read :: "lfd \<Rightarrow> nat \<Rightarrow> 'l \<Rightarrow> (string + bytes) \<times> 'l"
  l_write_all :: "lfd \<Rightarrow> bytes \<Rightarrow> 'l \<Rightarrow> (string + unit) \<times> 'l"
  l_flush :: "lfd \<Rightarrow> 'l \<Rightarrow> (string + unit) \<times> 'l"
  l_remove :: "string \<Rightarrow> 'l \<Rightarrow> (string + unit) \<times> 'l"
  l_create_dir_all :: "string \<Rightarrow> 'l \<Rightarrow> (string + unit) \<times> 'l"
  l_now :: "'l \<Rightarrow> u64"

text \<open>
  The client of \<open>Proxy_Client\<close>. \<open>ProxyFile::close\<close> consumes the handle, so its \<open>Drop\<close> runs
  at the end of the call; \<open>env\<close> is what other tasks do while a drop task sleeps.
\<close>

definition proxy_remote :: "'n net \<Rightarrow> (nat \<Rightarrow> 'n client \<Rightarrow> 'n client) \<Rightarrow> 'n client remote" where
  "proxy_remote N env =
     \<lparr>rm_stat = cl_stat N, rm_open = cl_open N, rm_read_at = read_at N, rm_write_at = write_at N,
      rm_close = (\<lambda>f cl. let (r, f, cl) = file_close N f cl in (r, snd (file_drop N env True 1 f cl))),
      rm_drop = (\<lambda>f cl. snd (file_drop N env True 1 f cl)),
      rm_unlink = cl_unlink N\<rparr>"

datatype action = UserPause | UserResume | UserCancel

fun apply_action :: "action \<Rightarrow> job_cells \<Rightarrow> job_cells" where
  "apply_action UserPause c = pause c"
| "apply_action UserResume c = resume c"
| "apply_action UserCancel c = cancel c"

record ('r, 'l) world =
  w_remote :: 'r
  w_local :: 'l
  w_job :: job_cells
  w_acts :: "action list list"

type_synonym ('r, 'l, 'a) run = "('r, 'l) world \<Rightarrow> ((proxy_error + 'a) \<times> ('r, 'l) world) option"

definition await :: "('r, 'l) world \<Rightarrow> ('r, 'l) world" where
  "await w =
     (case w_acts w of
        [] \<Rightarrow> w
      | a # as \<Rightarrow> w\<lparr>w_job := fold apply_action a (w_job w), w_acts := as\<rparr>)"

definition ret :: "'a \<Rightarrow> ('r, 'l, 'a) run" where
  "ret a w = Some (Ok a, w)"

definition raise :: "proxy_error \<Rightarrow> ('r, 'l, 'a) run" where
  "raise e w = Some (Err e, w)"

definition bindw :: "('r, 'l, 'a) run \<Rightarrow> ('a \<Rightarrow> ('r, 'l, 'b) run) \<Rightarrow> ('r, 'l, 'b) run" where
  "bindw m k w =
     (case m w of
        None \<Rightarrow> None
      | Some (Inl e, w) \<Rightarrow> Some (Err e, w)
      | Some (Inr a, w) \<Rightarrow> k a w)"

text \<open>The result of a computation as a value, for \<open>match\<close>, \<open>.ok()\<close> and \<open>let _ =\<close>.\<close>

definition attempt :: "('r, 'l, 'a) run \<Rightarrow> ('r, 'l, proxy_error + 'a) run" where
  "attempt m w = (case m w of None \<Rightarrow> None | Some (r, w) \<Rightarrow> Some (Ok r, w))"

definition on_remote :: "('r \<Rightarrow> (proxy_error + 'a) \<times> 'r) \<Rightarrow> ('r, 'l, 'a) run" where
  "on_remote f w =
     (let w = await w; (r, s) = f (w_remote w) in Some (r, w\<lparr>w_remote := s\<rparr>))"

text \<open>A local operation; \<open>what\<close> is the prefix of the message its error becomes.\<close>

definition on_local :: "string \<Rightarrow> ('l \<Rightarrow> (string + 'a) \<times> 'l) \<Rightarrow> ('r, 'l, 'a) run" where
  "on_local what f w =
     (let w = await w; (r, s) = f (w_local w)
      in Some (case r of Inl e \<Rightarrow> Err (POther (what @ e)) | Inr a \<Rightarrow> Ok a, w\<lparr>w_local := s\<rparr>))"

definition on_job :: "(job_cells \<Rightarrow> job_cells) \<Rightarrow> ('r, 'l, unit) run" where
  "on_job f w = Some (Ok (), w\<lparr>w_job := f (w_job w)\<rparr>)"

definition get_job :: "('r, 'l, job_cells) run" where
  "get_job w = Some (Ok (w_job w), w)"

definition get_now :: "'l local \<Rightarrow> ('r, 'l, u64) run" where
  "get_now Lo w = Some (Ok (l_now Lo (w_local w)), w)"

lemmas run_defs =
  ret_def raise_def bindw_def attempt_def on_remote_def on_local_def on_job_def get_job_def get_now_def

section \<open>Pausing\<close>

fun park :: "action list list \<Rightarrow> job_cells \<Rightarrow> (job_cells \<times> action list list) option" where
  "park [] c = (if j_paused c \<and> \<not> j_cancel c then None else Some (c, []))"
| "park (a # as) c =
     (if j_paused c \<and> \<not> j_cancel c then park as (fold apply_action a c) else Some (c, a # as))"

definition wait_while_paused :: "('r, 'l, bool) run" where
  "wait_while_paused w =
     (case park (w_acts w) (w_job w) of
        None \<Rightarrow> None
      | Some (c, as) \<Rightarrow> Some (Ok (j_cancel c), w\<lparr>w_job := c, w_acts := as\<rparr>))"

text \<open>The test at the head of both transfer loops; the right operand runs only when needed.\<close>

definition stop_requested :: "('r, 'l, bool) run" where
  "stop_requested =
     bindw get_job (\<lambda>c. if j_cancel c then ret True else wait_while_paused)"

section \<open>Names for \<open>OverwriteMode::Rename\<close>\<close>

record rename_candidates =
  rc_dir :: string
  rc_stem :: string
  rc_ext :: string
  rc_n :: nat

definition rc_new :: "string \<Rightarrow> rename_candidates" where
  "rc_new p =
     \<lparr>rc_dir = (case path_parent_str p of None \<Rightarrow> '''' | Some d \<Rightarrow> d),
      rc_stem = (case file_stem p of None \<Rightarrow> ''file'' | Some s \<Rightarrow> to_string_lossy s),
      rc_ext = (case extension p of None \<Rightarrow> '''' | Some e \<Rightarrow> ''.'' @ to_string_lossy e),
      rc_n = 0\<rparr>"

definition rc_next :: "rename_candidates \<Rightarrow> string \<times> rename_candidates" where
  "rc_next c =
     (let c = c\<lparr>rc_n := rc_n c + 1\<rparr>
      in (path_join (rc_dir c) (rc_stem c @ '' ('' @ show_nat (rc_n c) @ '')'' @ rc_ext c), c))"

fun pick_remote :: "'r remote \<Rightarrow> string \<Rightarrow> nat \<Rightarrow> rename_candidates \<Rightarrow> ('r, 'l, string) run" where
  "pick_remote R original 0 c = ret (original @ ''.adbshare-new'')"
| "pick_remote R original (Suc k) c =
     (let (cand, c) = rc_next c
      in bindw (attempt (on_remote (rm_stat R (to_string_lossy cand)))) (\<lambda>r.
           if \<not> is_ok r then ret (to_string_lossy cand) else pick_remote R original k c))"

definition pick_remote_rename :: "'r remote \<Rightarrow> string \<Rightarrow> ('r, 'l, string) run" where
  "pick_remote_rename R original = pick_remote R original 999 (rc_new original)"

fun pick_local :: "'l local \<Rightarrow> string \<Rightarrow> nat \<Rightarrow> rename_candidates \<Rightarrow> ('r, 'l, string) run" where
  "pick_local Lo original 0 c =
     ret (with_file_name original
           ((case file_name original of None \<Rightarrow> '''' | Some s \<Rightarrow> to_string_lossy s) @ ''.adbshare-new''))"
| "pick_local Lo original (Suc k) c =
     (let (cand, c) = rc_next c
      in bindw (attempt (on_local '''' (l_metadata Lo cand))) (\<lambda>r.
           if \<not> is_ok r then ret cand else pick_local Lo original k c))"

definition pick_local_rename :: "'l local \<Rightarrow> string \<Rightarrow> ('r, 'l, string) run" where
  "pick_local_rename Lo original = pick_local Lo original 999 (rc_new original)"

section \<open>Verification\<close>

fun hash_local_loop :: "nat \<Rightarrow> 'l local \<Rightarrow> lfd \<Rightarrow> bytes \<Rightarrow> ('r, 'l, bytes) run" where
  "hash_local_loop 0 Lo f acc = (\<lambda>w. None)"
| "hash_local_loop (Suc fuel) Lo f acc =
     bindw (on_local '''' (l_read Lo f (64 * 1024))) (\<lambda>data.
       if data = [] then ret acc else hash_local_loop fuel Lo f (acc @ data))"

definition sha256_file :: "nat \<Rightarrow> (bytes \<Rightarrow> string) \<Rightarrow> 'l local \<Rightarrow> string \<Rightarrow> ('r, 'l, string) run" where
  "sha256_file fuel sha Lo path =
     bindw (on_local '''' (l_open Lo path)) (\<lambda>f.
       bindw (hash_local_loop fuel Lo f []) (\<lambda>bs. ret (sha bs)))"

fun hash_remote_loop :: "nat \<Rightarrow> 'r remote \<Rightarrow> pfile \<Rightarrow> u32 \<Rightarrow> u64 \<Rightarrow> bytes \<Rightarrow> ('r, 'l, bytes) run" where
  "hash_remote_loop 0 R f want off acc = (\<lambda>w. None)"
| "hash_remote_loop (Suc fuel) R f want off acc =
     bindw (on_remote (rm_read_at R f off want)) (\<lambda>data.
       if data = [] then ret acc
       else hash_remote_loop fuel R f want (off + word_of_nat (length data)) (acc @ data))"

text \<open>A read error leaves through \<open>?\<close>, which drops the handle.\<close>

definition hash_remote :: "nat \<Rightarrow> (bytes \<Rightarrow> string) \<Rightarrow> 'r remote \<Rightarrow> nat \<Rightarrow> string \<Rightarrow> ('r, 'l, string) run" where
  "hash_remote fuel sha R chunk path =
     bindw (on_remote (rm_open R path OF_READ 0)) (\<lambda>f.
       bindw (attempt (hash_remote_loop fuel R f (word_of_nat (min chunk (2 ^ 32 - 1))) 0 [])) (\<lambda>r.
         case r of
           Inl e \<Rightarrow> (\<lambda>w. raise e (w\<lparr>w_remote := rm_drop R f (w_remote w)\<rparr>))
         | Inr bs \<Rightarrow>
             bindw (attempt (on_remote (rm_close R f))) (\<lambda>r.
               case r of
                 Inl e \<Rightarrow> raise (POther (''close remote file: '' @ error_display e))
               | Inr _ \<Rightarrow> ret (sha bs))))"

definition verify_paths ::
  "nat \<Rightarrow> (bytes \<Rightarrow> string) \<Rightarrow> 'r remote \<Rightarrow> 'l local \<Rightarrow> nat \<Rightarrow> string \<Rightarrow> string \<Rightarrow> ('r, 'l, unit) run" where
  "verify_paths fuel sha R Lo chunk lpath rpath =
     bindw (attempt (sha256_file fuel sha Lo lpath)) (\<lambda>lr.
       case lr of
         Inl e \<Rightarrow> raise (POther (''verify: hashing local file failed: '' @ error_display e))
       | Inr local_hash \<Rightarrow>
           bindw (attempt (hash_remote fuel sha R chunk rpath)) (\<lambda>rr.
             case rr of
               Inl e \<Rightarrow> raise (POther (''verify: hashing remote file failed: '' @ error_display e))
             | Inr remote_hash \<Rightarrow>
                 if local_hash \<noteq> remote_hash
                 then raise (POther (''verify: checksum mismatch (local sha256 '' @ local_hash
                        @ '', remote sha256 '' @ remote_hash @ '')''))
                 else ret ()))"

section \<open>Push\<close>

text \<open>What \<open>push\<close> decides from the state of the destination.\<close>

datatype plan = SkipIt u64 | ResumeAt u64 | RenameIt | Rewrite

definition push_plan :: "stat option \<Rightarrow> overwrite_mode \<Rightarrow> u64 \<Rightarrow> plan" where
  "push_plan existing mode source_len =
     (case (existing, mode) of
        (Some st, SkipExisting) \<Rightarrow> SkipIt (s_size st)
      | (Some st, Resume) \<Rightarrow> if s_size st < source_len then ResumeAt (s_size st) else Rewrite
      | (Some _, Rename) \<Rightarrow> RenameIt
      | _ \<Rightarrow> Rewrite)"

abbreviation REWRITE_FLAGS :: u32 where
  "REWRITE_FLAGS \<equiv> OF_CREATE OR OF_WRITE OR OF_TRUNC"

text \<open>The meter reading after a chunk, stored for display.\<close>

definition record_progress :: "(u64 \<Rightarrow> u64 \<Rightarrow> u64 \<times> u64) \<Rightarrow> u64 \<Rightarrow> nat \<Rightarrow> ('r, 'l, unit) run" where
  "record_progress meter offset n =
     on_job (\<lambda>c. let c = add_bytes (word_of_nat n) c;
                     (bps, eta) = meter offset (j_bytes_total c)
                 in set_eta_secs eta (set_speed_bps bps c))"

fun push_loop ::
  "nat \<Rightarrow> 'r remote \<Rightarrow> 'l local \<Rightarrow> (u64 \<Rightarrow> u64 \<Rightarrow> u64 \<times> u64) \<Rightarrow> nat \<Rightarrow> lfd \<Rightarrow> pfile \<Rightarrow> u64
     \<Rightarrow> ('r, 'l, unit) run" where
  "push_loop 0 R Lo meter chunk src dst offset = (\<lambda>w. None)"
| "push_loop (Suc fuel) R Lo meter chunk src dst offset =
     bindw stop_requested (\<lambda>stop.
       if stop then raise (POther ''cancelled'')
       else bindw (on_local ''read source: '' (l_read Lo src chunk)) (\<lambda>data.
         if data = [] then ret ()
         else bindw (on_remote (rm_write_at R dst offset data)) (\<lambda>_.
           (let offset = offset + word_of_nat (length data)
            in bindw (record_progress meter offset (length data)) (\<lambda>_.
                 push_loop fuel R Lo meter chunk src dst offset)))))"

text \<open>What follows the loop: clean up after an error, or close and verify.\<close>

definition push_finish ::
  "nat \<Rightarrow> (bytes \<Rightarrow> string) \<Rightarrow> 'r remote \<Rightarrow> 'l local \<Rightarrow> nat \<Rightarrow> job \<Rightarrow> string \<Rightarrow> bool \<Rightarrow> pfile
     \<Rightarrow> proxy_error + unit \<Rightarrow> ('r, 'l, unit) run" where
  "push_finish fuel sha R Lo chunk j dest created dst outcome =
     (case outcome of
        Inl e \<Rightarrow>
          bindw (attempt (on_remote (rm_close R dst))) (\<lambda>_.
            bindw (if created then bindw (attempt (on_remote (rm_unlink R dest))) (\<lambda>_. ret ()) else ret ())
              (\<lambda>_. raise e))
      | Inr _ \<Rightarrow>
          bindw (attempt (on_remote (rm_close R dst))) (\<lambda>r.
            case r of
              Inl e \<Rightarrow> raise (POther (''close destination: '' @ error_display e))
            | Inr _ \<Rightarrow>
                if verify (job_opts j) = VerifyOn
                then verify_paths fuel sha R Lo chunk (job_source j) dest
                else ret ()))"

definition push_go ::
  "nat \<Rightarrow> (bytes \<Rightarrow> string) \<Rightarrow> (u64 \<Rightarrow> u64 \<Rightarrow> u64 \<times> u64) \<Rightarrow> 'r remote \<Rightarrow> 'l local \<Rightarrow> nat \<Rightarrow> job
     \<Rightarrow> string \<Rightarrow> bool \<Rightarrow> u64 \<Rightarrow> u32 \<Rightarrow> ('r, 'l, unit) run" where
  "push_go fuel sha meter R Lo chunk j dest created offset flags =
     bindw (on_local '''' (l_open Lo (job_source j))) (\<lambda>src.
       bindw (if offset > 0
              then bindw (on_local ''seek source: '' (l_seek Lo src offset)) (\<lambda>_. on_job (add_bytes offset))
              else ret ()) (\<lambda>_.
         bindw (on_remote (rm_open R dest flags 0x1A4)) (\<lambda>dst.
           bindw (attempt (push_loop fuel R Lo meter chunk src dst offset)) (\<lambda>outcome.
             push_finish fuel sha R Lo chunk j dest created dst outcome))))"

definition push ::
  "nat \<Rightarrow> (bytes \<Rightarrow> string) \<Rightarrow> (u64 \<Rightarrow> u64 \<Rightarrow> u64 \<times> u64) \<Rightarrow> 'r remote \<Rightarrow> 'l local \<Rightarrow> nat \<Rightarrow> job
     \<Rightarrow> ('r, 'l, unit) run" where
  "push fuel sha meter R Lo chunk j =
     bindw (on_local ''stat source: '' (l_metadata Lo (job_source j))) (\<lambda>source_len.
       let dest = to_string_lossy (job_destination j)
       in bindw (attempt (on_remote (rm_stat R dest))) (\<lambda>st.
            let existing = ok st; created = (existing = None)
            in case push_plan existing (overwrite (job_opts j)) source_len of
                 SkipIt n \<Rightarrow> on_job (set_state Skipped \<circ> add_bytes n \<circ> set_total n)
               | ResumeAt off \<Rightarrow> push_go fuel sha meter R Lo chunk j dest created off (OF_CREATE OR OF_WRITE)
               | RenameIt \<Rightarrow>
                   bindw (pick_remote_rename R dest) (\<lambda>dest.
                     push_go fuel sha meter R Lo chunk j dest True 0 REWRITE_FLAGS)
               | Rewrite \<Rightarrow> push_go fuel sha meter R Lo chunk j dest created 0 REWRITE_FLAGS))"

section \<open>Pull\<close>

definition pull_plan :: "u64 option \<Rightarrow> overwrite_mode \<Rightarrow> u64 \<Rightarrow> plan" where
  "pull_plan existing mode known =
     (case (existing, mode) of
        (Some n, SkipExisting) \<Rightarrow> SkipIt n
      | (Some n, Resume) \<Rightarrow> if known = 0 \<or> n < known then ResumeAt n else Rewrite
      | (Some _, Rename) \<Rightarrow> RenameIt
      | _ \<Rightarrow> Rewrite)"

fun pull_loop ::
  "nat \<Rightarrow> 'r remote \<Rightarrow> 'l local \<Rightarrow> (u64 \<Rightarrow> u64 \<Rightarrow> u64 \<times> u64) \<Rightarrow> nat \<Rightarrow> pfile \<Rightarrow> lfd \<Rightarrow> u64
     \<Rightarrow> ('r, 'l, unit) run" where
  "pull_loop 0 R Lo meter chunk src dst offset = (\<lambda>w. None)"
| "pull_loop (Suc fuel) R Lo meter chunk src dst offset =
     bindw stop_requested (\<lambda>stop.
       if stop then raise (POther ''cancelled'')
       else bindw (on_remote (rm_read_at R src offset (word_of_nat chunk))) (\<lambda>data.
         if data = [] then ret ()
         else bindw (on_local ''write destination: '' (l_write_all Lo dst data)) (\<lambda>_.
           (let offset = offset + word_of_nat (length data)
            in bindw (record_progress meter offset (length data)) (\<lambda>_.
                 pull_loop fuel R Lo meter chunk src dst offset)))))"

definition pull_finish ::
  "nat \<Rightarrow> (bytes \<Rightarrow> string) \<Rightarrow> 'r remote \<Rightarrow> 'l local \<Rightarrow> nat \<Rightarrow> job \<Rightarrow> string \<Rightarrow> bool \<Rightarrow> pfile \<Rightarrow> lfd
     \<Rightarrow> proxy_error + unit \<Rightarrow> ('r, 'l, unit) run" where
  "pull_finish fuel sha R Lo chunk j dest created src dst outcome =
     (case outcome of
        Inl e \<Rightarrow>
          bindw (attempt (on_remote (rm_close R src))) (\<lambda>_.
            bindw (if created
                   then bindw (attempt (on_local '''' (l_flush Lo dst))) (\<lambda>_.
                          bindw (attempt (on_local '''' (l_remove Lo dest))) (\<lambda>_. ret ()))
                   else ret ())
              (\<lambda>_. raise e))
      | Inr _ \<Rightarrow>
          bindw (attempt (on_remote (rm_close R src))) (\<lambda>r.
            case r of
              Inl e \<Rightarrow> raise (POther (''close source: '' @ error_display e))
            | Inr _ \<Rightarrow>
                bindw (on_local '''' (l_flush Lo dst)) (\<lambda>_.
                  if verify (job_opts j) = VerifyOn
                  then verify_paths fuel sha R Lo chunk dest (to_string_lossy (job_source j))
                  else ret ())))"

definition pull_go ::
  "nat \<Rightarrow> (bytes \<Rightarrow> string) \<Rightarrow> (u64 \<Rightarrow> u64 \<Rightarrow> u64 \<times> u64) \<Rightarrow> 'r remote \<Rightarrow> 'l local \<Rightarrow> nat \<Rightarrow> job
     \<Rightarrow> string \<Rightarrow> string \<Rightarrow> bool \<Rightarrow> u64 \<Rightarrow> lfd \<Rightarrow> ('r, 'l, unit) run" where
  "pull_go fuel sha meter R Lo chunk j source_str dest created offset dst =
     bindw (on_remote (rm_open R source_str OF_READ 0)) (\<lambda>src.
       bindw (attempt (pull_loop fuel R Lo meter chunk src dst offset)) (\<lambda>outcome.
         pull_finish fuel sha R Lo chunk j dest created src dst outcome))"

text \<open>The part of \<open>pull\<close> after the source path has been accepted: open the destination.\<close>

definition pull_open ::
  "nat \<Rightarrow> (bytes \<Rightarrow> string) \<Rightarrow> (u64 \<Rightarrow> u64 \<Rightarrow> u64 \<times> u64) \<Rightarrow> 'r remote \<Rightarrow> 'l local \<Rightarrow> nat \<Rightarrow> job
     \<Rightarrow> string \<Rightarrow> u64 option \<Rightarrow> plan \<Rightarrow> ('r, 'l, unit) run" where
  "pull_open fuel sha meter R Lo chunk j source_str existing plan =
     (let dest = job_destination j; created = (existing = None)
      in case plan of
           SkipIt n \<Rightarrow> on_job (set_state Skipped \<circ> add_bytes n \<circ> set_total n)
         | ResumeAt off \<Rightarrow>
             bindw (on_local ''open destination: '' (l_open_write Lo dest)) (\<lambda>f.
               bindw (on_local ''seek destination: '' (l_seek Lo f off)) (\<lambda>_.
                 bindw (on_job (add_bytes off)) (\<lambda>_.
                   pull_go fuel sha meter R Lo chunk j source_str dest created off f)))
         | RenameIt \<Rightarrow>
             bindw (pick_local_rename Lo dest) (\<lambda>dest.
               bindw (on_local ''create destination: '' (l_create Lo dest)) (\<lambda>f.
                 pull_go fuel sha meter R Lo chunk j source_str dest True 0 f))
         | Rewrite \<Rightarrow>
             bindw (on_local ''create destination: '' (l_create Lo dest)) (\<lambda>f.
               pull_go fuel sha meter R Lo chunk j source_str dest created 0 f))"

definition pull ::
  "nat \<Rightarrow> (bytes \<Rightarrow> string) \<Rightarrow> (u64 \<Rightarrow> u64 \<Rightarrow> u64 \<times> u64) \<Rightarrow> 'r remote \<Rightarrow> 'l local \<Rightarrow> nat \<Rightarrow> job
     \<Rightarrow> ('r, 'l, unit) run" where
  "pull fuel sha meter R Lo chunk j =
     bindw (case path_parent_str (job_destination j) of
              None \<Rightarrow> ret ()
            | Some d \<Rightarrow> bindw (attempt (on_local '''' (l_create_dir_all Lo d))) (\<lambda>_. ret ())) (\<lambda>_.
       bindw (attempt (on_local '''' (l_metadata Lo (job_destination j)))) (\<lambda>m.
         case to_str (job_source j) of
           None \<Rightarrow> raise (POther (''source path is not valid UTF-8: '' @ to_string_lossy (job_source j)))
         | Some source_str \<Rightarrow>
             bindw get_job (\<lambda>c.
               pull_open fuel sha meter R Lo chunk j source_str (ok m)
                 (pull_plan (ok m) (overwrite (job_opts j)) (j_bytes_total c)))))"

section \<open>Running a job\<close>

text \<open>The size of the source for the progress display.\<close>

definition total_size :: "'r remote \<Rightarrow> 'l local \<Rightarrow> job \<Rightarrow> ('r, 'l, u64) run" where
  "total_size R Lo j =
     (case job_direction j of
        Push \<Rightarrow> on_local '''' (l_metadata Lo (job_source j))
      | Pull \<Rightarrow>
          (let path = (case to_str (job_source j) of None \<Rightarrow> '''' | Some p \<Rightarrow> p)
           in bindw (attempt (on_remote (rm_stat R path))) (\<lambda>r.
                case r of
                  Inr s \<Rightarrow> ret (s_size s)
                | Inl _ \<Rightarrow>
                    bindw (\<lambda>w. ret () (await w)) (\<lambda>_.
                      bindw (attempt (on_remote (rm_stat R path))) (\<lambda>r.
                        case r of Inr s \<Rightarrow> ret (s_size s) | Inl _ \<Rightarrow> ret 0)))))"

text \<open>What \<open>run\<close> does with the result of the transfer.\<close>

definition run_finish :: "proxy_error + unit \<Rightarrow> ('r, 'l, unit) run" where
  "run_finish result =
     bindw get_job (\<lambda>c.
       if j_cancel c then on_job (set_state Cancelled \<circ> set_error ''cancelled'')
       else case result of
              Inl e \<Rightarrow>
                bindw (on_job (set_state Failed \<circ> set_error (error_display e))) (\<lambda>_. raise e)
            | Inr _ \<Rightarrow>
                if j_state c = Running then on_job (set_state Completed) else ret ())"

definition run_job ::
  "nat \<Rightarrow> (bytes \<Rightarrow> string) \<Rightarrow> (u64 \<Rightarrow> u64 \<Rightarrow> u64 \<times> u64) \<Rightarrow> 'r remote \<Rightarrow> 'l local \<Rightarrow> nat \<Rightarrow> job
     \<Rightarrow> ('r, 'l, unit) run" where
  "run_job fuel sha meter R Lo chunk j =
     bindw get_job (\<lambda>c.
       if j_cancel c then on_job (set_state Cancelled \<circ> set_error ''cancelled'')
       else
         bindw (if j_state c \<noteq> Paused then on_job (set_state Running) else ret ()) (\<lambda>_.
           bindw (get_now Lo) (\<lambda>now.
             bindw (on_job (mark_started now)) (\<lambda>_.
               bindw (attempt (total_size R Lo j)) (\<lambda>t.
                 case t of
                   Inl e \<Rightarrow>
                     bindw (on_job (set_state Failed \<circ> set_error (error_display e))) (\<lambda>_. raise e)
                 | Inr n \<Rightarrow>
                     bindw (on_job (set_total n)) (\<lambda>_.
                       bindw (attempt (case job_direction j of
                                Push \<Rightarrow> push fuel sha meter R Lo chunk j
                              | Pull \<Rightarrow> pull fuel sha meter R Lo chunk j)) run_finish))))))"

section \<open>Reasoning about runs\<close>

text \<open>
  A triple: from a world of \<open>P\<close>, if the computation ends, its result and world are in \<open>Q\<close>.
\<close>

definition valid ::
  "(('r, 'l) world \<Rightarrow> bool) \<Rightarrow> ('r, 'l, 'a) run \<Rightarrow> (proxy_error + 'a \<Rightarrow> ('r, 'l) world \<Rightarrow> bool) \<Rightarrow> bool" where
  "valid P m Q \<longleftrightarrow> (\<forall>w r w'. P w \<longrightarrow> m w = Some (r, w') \<longrightarrow> Q r w')"

abbreviation preserves :: "(('r, 'l) world \<Rightarrow> bool) \<Rightarrow> ('r, 'l, 'a) run \<Rightarrow> bool" where
  "preserves I m \<equiv> valid I m (\<lambda>_. I)"

named_theorems run_rules

lemma validI: "(\<And>w r w'. P w \<Longrightarrow> m w = Some (r, w') \<Longrightarrow> Q r w') \<Longrightarrow> valid P m Q"
  by (simp add: valid_def)

lemma validD: "valid P m Q \<Longrightarrow> P w \<Longrightarrow> m w = Some (r, w') \<Longrightarrow> Q r w'"
  by (simp add: valid_def)

lemma preserves_bindw [run_rules]:
  assumes "preserves I m" and "\<And>a. preserves I (k a)"
  shows "preserves I (bindw m k)"
proof (rule validI)
  fix w r w'
  assume I: "I w" and run: "bindw m k w = Some (r, w')"
  then obtain x w1 where m: "m w = Some (x, w1)" by (auto simp: bindw_def split: option.splits)
  have "I w1" by (rule validD [OF assms(1) I m])
  with run m show "I w'" by (cases x) (auto simp: bindw_def dest: validD [OF assms(2)])
qed

lemma preserves_attempt [run_rules]: "preserves I m \<Longrightarrow> preserves I (attempt m)"
  by (auto simp: valid_def attempt_def split: option.splits)

lemma preserves_simple [run_rules]:
  "preserves I (ret a)" "preserves I (raise e)" "preserves I get_job" "preserves I (get_now Lo)"
  "preserves I (\<lambda>w. None)"
  by (auto simp: valid_def ret_def raise_def get_job_def get_now_def)

lemma preserves_if [run_rules]:
  "preserves I m \<Longrightarrow> preserves I m' \<Longrightarrow> preserves I (if b then m else m')"
  by simp

lemma preserves_cases [run_rules]:
  "(\<And>e. preserves I (f e)) \<Longrightarrow> (\<And>a. preserves I (g a)) \<Longrightarrow> preserves I (case r of Inl e \<Rightarrow> f e | Inr a \<Rightarrow> g a)"
  "preserves I n \<Longrightarrow> (\<And>a. preserves I (h a)) \<Longrightarrow> preserves I (case x of None \<Rightarrow> n | Some a \<Rightarrow> h a)"
  by (simp_all split: sum.split option.split)

text \<open>A property of the job's cells and the schedule that no step of the transfer touches.\<close>

definition job_inv :: "(job_cells \<Rightarrow> action list list \<Rightarrow> bool) \<Rightarrow> bool" where
  "job_inv J \<longleftrightarrow>
     (\<forall>c a as. J c (a # as) \<longrightarrow> J (fold apply_action a c) as)"

definition progress_inv :: "(job_cells \<Rightarrow> action list list \<Rightarrow> bool) \<Rightarrow> bool" where
  "progress_inv J \<longleftrightarrow>
     (\<forall>c as n b e. J c as \<longrightarrow> J (add_bytes n c) as \<and> J (set_eta_secs e (set_speed_bps b c)) as)"

definition on_cells_inv :: "(job_cells \<Rightarrow> action list list \<Rightarrow> bool) \<Rightarrow> ('r, 'l) world \<Rightarrow> bool" where
  "on_cells_inv J w \<longleftrightarrow> J (w_job w) (w_acts w)"

lemma await_inv: "job_inv J \<Longrightarrow> on_cells_inv J w \<Longrightarrow> on_cells_inv J (await w)"
  by (auto simp: await_def on_cells_inv_def job_inv_def split: list.splits)

lemma await_fields [simp]: "w_remote (await w) = w_remote w" "w_local (await w) = w_local w"
  by (simp_all add: await_def split: list.split)

lemma preserves_io [run_rules]:
  assumes "job_inv J"
  shows "preserves (on_cells_inv J) (on_remote f)" and "preserves (on_cells_inv J) (on_local what g)"
  using await_inv [OF assms]
  by (auto simp: valid_def on_remote_def on_local_def Let_def on_cells_inv_def split: prod.splits)

lemma park_inv:
  assumes "job_inv J"
  shows "park as c = Some (c', as') \<Longrightarrow> J c as \<Longrightarrow> J c' as'"
proof (induction as c rule: park.induct)
  case (2 a as c)
  then show ?case using assms by (auto simp: job_inv_def split: if_splits)
qed (auto split: if_splits)

lemma preserves_stop_requested [run_rules]:
  assumes "job_inv J"
  shows "preserves (on_cells_inv J) stop_requested"
proof -
  have "preserves (on_cells_inv J) wait_while_paused"
    using park_inv [OF assms]
    by (auto simp: valid_def wait_while_paused_def on_cells_inv_def split: option.splits)
  then show ?thesis unfolding stop_requested_def by (intro run_rules) auto
qed

lemma preserves_progress [run_rules]:
  "progress_inv J \<Longrightarrow> preserves (on_cells_inv J) (record_progress meter off n)"
  by (auto simp: valid_def record_progress_def on_job_def on_cells_inv_def Let_def progress_inv_def split: prod.splits)

lemma preserves_loops [run_rules]:
  assumes "job_inv J" and "progress_inv J"
  shows "preserves (on_cells_inv J) (push_loop fuel R Lo meter chunk src dst off)"
    and "preserves (on_cells_inv J) (pull_loop fuel R Lo meter chunk src' dst' off')"
proof -
  show "preserves (on_cells_inv J) (push_loop fuel R Lo meter chunk src dst off)"
  proof (induction fuel arbitrary: off)
    case (Suc fuel)
    then show ?case using assms by (auto simp: Let_def intro!: run_rules)
  qed (simp add: run_rules)
  show "preserves (on_cells_inv J) (pull_loop fuel R Lo meter chunk src' dst' off')"
  proof (induction fuel arbitrary: off')
    case (Suc fuel)
    then show ?case using assms by (auto simp: Let_def intro!: run_rules)
  qed (simp add: run_rules)
qed

lemma preserves_pick [run_rules]:
  assumes "job_inv J"
  shows "preserves (on_cells_inv J) (pick_remote_rename R original)"
    and "preserves (on_cells_inv J) (pick_local_rename Lo original)"
proof -
  have "preserves (on_cells_inv J) (pick_remote R original k c)" for k c
    by (induction k arbitrary: c) (auto simp: assms case_prod_beta intro!: run_rules)
  then show "preserves (on_cells_inv J) (pick_remote_rename R original)" by (simp add: pick_remote_rename_def)
  have "preserves (on_cells_inv J) (pick_local Lo original k c)" for k c
    by (induction k arbitrary: c) (auto simp: assms case_prod_beta intro!: run_rules)
  then show "preserves (on_cells_inv J) (pick_local_rename Lo original)" by (simp add: pick_local_rename_def)
qed

lemma preserves_verify [run_rules]:
  assumes "job_inv J"
  shows "preserves (on_cells_inv J) (verify_paths fuel sha R Lo chunk lp rp)"
proof -
  have "preserves (on_cells_inv J) (hash_local_loop fuel Lo f acc)" for f acc
    by (induction fuel arbitrary: acc) (auto simp: assms intro!: run_rules)
  moreover have "preserves (on_cells_inv J) (hash_remote_loop fuel R f want off acc)" for f want off acc
    by (induction fuel arbitrary: off acc) (auto simp: assms intro!: run_rules)
  moreover have "preserves (on_cells_inv J) (\<lambda>w. raise e (w\<lparr>w_remote := rm_drop R f (w_remote w)\<rparr>))" for e f
    by (simp add: valid_def raise_def on_cells_inv_def)
  ultimately show ?thesis
    unfolding verify_paths_def sha256_file_def hash_remote_def
    using assms by (intro run_rules) auto
qed

text \<open>Setting the job to \<open>Skipped\<close> is the only change of state inside a transfer.\<close>

definition skip_inv :: "(job_cells \<Rightarrow> action list list \<Rightarrow> bool) \<Rightarrow> bool" where
  "skip_inv J \<longleftrightarrow> (\<forall>c as n. J c as \<longrightarrow> J (set_state Skipped (add_bytes n (set_total n c))) as)"

lemma preserves_on_job: "(\<And>c as. J c as \<Longrightarrow> J (f c) as) \<Longrightarrow> preserves (on_cells_inv J) (on_job f)"
  by (simp add: valid_def on_job_def on_cells_inv_def)

lemma preserves_add_bytes [run_rules]: "progress_inv J \<Longrightarrow> preserves (on_cells_inv J) (on_job (add_bytes n))"
  by (rule preserves_on_job) (simp add: progress_inv_def)

lemma preserves_skip [run_rules]:
  "skip_inv J \<Longrightarrow> preserves (on_cells_inv J) (on_job (set_state Skipped \<circ> add_bytes n \<circ> set_total n))"
  by (rule preserves_on_job) (simp add: skip_inv_def)

lemma preserves_plan [run_rules]:
  "(\<And>n. preserves I (f n)) \<Longrightarrow> (\<And>n. preserves I (g n)) \<Longrightarrow> preserves I h \<Longrightarrow> preserves I k \<Longrightarrow>
   preserves I (case p of SkipIt n \<Rightarrow> f n | ResumeAt n \<Rightarrow> g n | RenameIt \<Rightarrow> h | Rewrite \<Rightarrow> k)"
  by (simp split: plan.split)

lemma preserves_push:
  assumes "job_inv J" and "progress_inv J" and "skip_inv J"
  shows "preserves (on_cells_inv J) (push fuel sha meter R Lo chunk j)"
  using assms unfolding push_def push_go_def push_finish_def Let_def
  by (intro run_rules) auto

lemma preserves_pull:
  assumes "job_inv J" and "progress_inv J" and "skip_inv J"
  shows "preserves (on_cells_inv J) (pull fuel sha meter R Lo chunk j)"
  using assms unfolding pull_def pull_open_def pull_go_def pull_finish_def Let_def
  by (intro run_rules) auto

lemma preserves_total_size:
  assumes "job_inv J"
  shows "preserves (on_cells_inv J) (total_size R Lo j)"
proof -
  have "preserves (on_cells_inv J) (\<lambda>w. ret () (await w))"
    using await_inv [OF assms] by (auto simp: valid_def ret_def)
  then show ?thesis
    using assms unfolding total_size_def Let_def
    by (cases "job_direction j") (auto intro!: run_rules)
qed

section \<open>What the loops copy\<close>

text \<open>A local file open for reading: \<open>rest\<close> is what has not been read yet.\<close>

definition reads_source :: "'l local \<Rightarrow> lfd \<Rightarrow> ('l \<Rightarrow> bytes) \<Rightarrow> bool" where
  "reads_source Lo src rest \<longleftrightarrow>
     (\<forall>n l data l'. l_read Lo src n l = (Inr data, l') \<longrightarrow> 0 < n \<longrightarrow>
        rest l = data @ rest l' \<and> (data = [] \<longrightarrow> rest l = []))"

text \<open>A remote file open for writing: a write at its end appends.\<close>

definition appends_remote :: "'r remote \<Rightarrow> pfile \<Rightarrow> ('r \<Rightarrow> bytes) \<Rightarrow> bool" where
  "appends_remote R dst content \<longleftrightarrow>
     (\<forall>off data r r'. rm_write_at R dst off data r = (Inr (), r') \<longrightarrow> unat off = length (content r) \<longrightarrow>
        content r' = content r @ data)"

text \<open>A remote file open for reading, and a local one open for writing at its end.\<close>

definition reads_remote :: "'r remote \<Rightarrow> pfile \<Rightarrow> bytes \<Rightarrow> bool" where
  "reads_remote R src file \<longleftrightarrow>
     (\<forall>off n r data r'. rm_read_at R src off n r = (Inr data, r') \<longrightarrow> 0 < n \<longrightarrow>
        (\<exists>more. drop (unat off) file = data @ more) \<and> (data = [] \<longrightarrow> drop (unat off) file = []))"

definition appends_local :: "'l local \<Rightarrow> lfd \<Rightarrow> ('l \<Rightarrow> bytes) \<Rightarrow> bool" where
  "appends_local Lo dst content \<longleftrightarrow>
     (\<forall>data l l'. l_write_all Lo dst data l = (Inr (), l') \<longrightarrow> content l' = content l @ data)"

lemma bindw_Ok:
  "bindw m k w = Some (Inr b, w') \<longleftrightarrow> (\<exists>a w1. m w = Some (Inr a, w1) \<and> k a w1 = Some (Inr b, w'))"
  by (auto simp: bindw_def split: option.splits prod.splits sum.splits)

lemma on_remote_Ok:
  "on_remote f w = Some (Inr a, w') \<longleftrightarrow>
     (\<exists>s. f (w_remote w) = (Inr a, s) \<and> w' = (await w)\<lparr>w_remote := s\<rparr>)"
  by (auto simp: on_remote_def Let_def split: prod.splits)

lemma on_local_Ok:
  "on_local what f w = Some (Inr a, w') \<longleftrightarrow>
     (\<exists>s. f (w_local w) = (Inr a, s) \<and> w' = (await w)\<lparr>w_local := s\<rparr>)"
  by (auto simp: on_local_def Let_def split: prod.splits sum.splits)

lemma stop_requested_Ok:
  "stop_requested w = Some (Inr b, w') \<Longrightarrow> w_remote w' = w_remote w \<and> w_local w' = w_local w"
  by (auto simp: stop_requested_def run_defs wait_while_paused_def split: if_splits option.splits)

lemma record_progress_Ok:
  "record_progress meter off n w = Some (Inr b, w') \<Longrightarrow> w_remote w' = w_remote w \<and> w_local w' = w_local w"
  by (auto simp: record_progress_def on_job_def)

lemmas run_Ok = bindw_Ok on_remote_Ok on_local_Ok ret_def raise_def

lemma unat_offset:
  assumes "unat off + n < 2 ^ 64"
  shows "unat (off + word_of_nat n :: u64) = unat off + n"
proof -
  have "unat (word_of_nat n :: u64) = n" using assms by simp
  then show ?thesis using assms by (subst unat_add_lem [THEN iffD1]) simp_all
qed

lemma push_loop_copies:
  assumes src: "reads_source Lo src rest" and dst: "appends_remote R dst content" and chunk: "0 < chunk"
  shows "push_loop fuel R Lo meter chunk src dst off w = Some (Ok (), w') \<Longrightarrow>
    unat off = length (content (w_remote w)) \<Longrightarrow>
    length (content (w_remote w)) + length (rest (w_local w)) < 2 ^ 64 \<Longrightarrow>
    content (w_remote w') = content (w_remote w) @ rest (w_local w)"
proof (induction fuel arbitrary: off w)
  case (Suc fuel)
  obtain b w1 where stop: "stop_requested w = Some (Inr b, w1)" "\<not> b"
    and run: "bindw (on_local ''read source: '' (l_read Lo src chunk)) (\<lambda>data.
         if data = [] then ret ()
         else bindw (on_remote (rm_write_at R dst off data)) (\<lambda>_.
           (let offset = off + word_of_nat (length data)
            in bindw (record_progress meter offset (length data)) (\<lambda>_.
                 push_loop fuel R Lo meter chunk src dst offset)))) w1 = Some (Inr (), w')"
    using Suc.prems(1) by (auto simp: bindw_Ok raise_def split: if_splits)
  note w1 = stop_requested_Ok [OF stop(1)]
  obtain data l where rd: "l_read Lo src chunk (w_local w) = (Inr data, l)"
    and run2: "(if data = [] then ret ()
         else bindw (on_remote (rm_write_at R dst off data)) (\<lambda>_.
           (let offset = off + word_of_nat (length data)
            in bindw (record_progress meter offset (length data)) (\<lambda>_.
                 push_loop fuel R Lo meter chunk src dst offset)))) ((await w1)\<lparr>w_local := l\<rparr>) = Some (Inr (), w')"
    using run w1 by (auto simp: bindw_Ok on_local_Ok)
  have rest: "rest (w_local w) = data @ rest l" "data = [] \<longrightarrow> rest (w_local w) = []"
    using src rd chunk unfolding reads_source_def by blast+
  show ?case
  proof (cases "data = []")
    case True
    then show ?thesis using run2 rest w1 by (auto simp: ret_def)
  next
    case False
    let ?w2 = "await w1\<lparr>w_local := l\<rparr>"
    obtain r w3 where wr: "rm_write_at R dst off data (w_remote w) = (Inr (), r)"
      and w3: "w_remote w3 = r" "w_local w3 = l"
      and run3: "push_loop fuel R Lo meter chunk src dst (off + word_of_nat (length data)) w3 = Some (Inr (), w')"
      using run2 False w1 by (auto simp: bindw_Ok on_remote_Ok Let_def dest!: record_progress_Ok)
    have c: "content r = content (w_remote w) @ data"
      using dst wr Suc.prems(2) by (auto simp: appends_remote_def)
    have "content (w_remote w') = content (w_remote w3) @ rest (w_local w3)"
      using Suc.prems rest(1) by (intro Suc.IH [OF run3]) (simp_all add: w3 c unat_offset)
    then show ?thesis using rest(1) by (simp add: w3 c)
  qed
qed simp

lemma pull_loop_copies:
  assumes src: "reads_remote R src file" and dst: "appends_local Lo dst content"
    and chunk: "0 < (word_of_nat chunk :: u32)" and size: "length file < 2 ^ 64"
  shows "pull_loop fuel R Lo meter chunk src dst off w = Some (Ok (), w') \<Longrightarrow>
    unat off \<le> length file \<Longrightarrow>
    content (w_local w') = content (w_local w) @ drop (unat off) file"
proof (induction fuel arbitrary: off w)
  case (Suc fuel)
  obtain b w1 where stop: "stop_requested w = Some (Inr b, w1)" "\<not> b"
    and run: "bindw (on_remote (rm_read_at R src off (word_of_nat chunk))) (\<lambda>data.
         if data = [] then ret ()
         else bindw (on_local ''write destination: '' (l_write_all Lo dst data)) (\<lambda>_.
           (let offset = off + word_of_nat (length data)
            in bindw (record_progress meter offset (length data)) (\<lambda>_.
                 pull_loop fuel R Lo meter chunk src dst offset)))) w1 = Some (Inr (), w')"
    using Suc.prems(1) by (auto simp: bindw_Ok raise_def split: if_splits)
  note w1 = stop_requested_Ok [OF stop(1)]
  obtain data r where rd: "rm_read_at R src off (word_of_nat chunk) (w_remote w) = (Inr data, r)"
    and run2: "(if data = [] then ret ()
         else bindw (on_local ''write destination: '' (l_write_all Lo dst data)) (\<lambda>_.
           (let offset = off + word_of_nat (length data)
            in bindw (record_progress meter offset (length data)) (\<lambda>_.
                 pull_loop fuel R Lo meter chunk src dst offset)))) ((await w1)\<lparr>w_remote := r\<rparr>) = Some (Inr (), w')"
    using run w1 by (auto simp: bindw_Ok on_remote_Ok)
  obtain more where more: "drop (unat off) file = data @ more" "data = [] \<longrightarrow> drop (unat off) file = []"
    using src rd chunk unfolding reads_remote_def by blast
  show ?case
  proof (cases "data = []")
    case True
    then show ?thesis using run2 more w1 by (auto simp: ret_def)
  next
    case False
    obtain l w3 where wr: "l_write_all Lo dst data (w_local w) = (Inr (), l)"
      and w3: "w_local w3 = l"
      and run3: "pull_loop fuel R Lo meter chunk src dst (off + word_of_nat (length data)) w3 = Some (Inr (), w')"
      using run2 False w1 by (auto simp: bindw_Ok on_local_Ok Let_def dest!: record_progress_Ok)
    have c: "content l = content (w_local w) @ data"
      using dst wr by (auto simp: appends_local_def)
    have len: "unat off + length data \<le> length file"
      using arg_cong [OF more(1), of length] Suc.prems(2) by simp
    then have u: "unat (off + word_of_nat (length data)) = unat off + length data"
      using size by (simp add: unat_offset)
    have "drop (unat off + length data) file = more"
      using more(1) by (metis add.commute append_eq_conv_conj drop_drop)
    moreover have "content (w_local w') = content (w_local w3) @ drop (unat off + length data) file"
      using Suc.IH [OF run3] u len by simp
    ultimately show ?thesis using more(1) by (simp add: w3 c)
  qed
qed simp

section \<open>Progress without interference\<close>

text \<open>Nobody pauses or cancels the job.\<close>

definition undisturbed :: "('r, 'l) world \<Rightarrow> bool" where
  "undisturbed w \<longleftrightarrow> w_acts w = [] \<and> \<not> j_cancel (w_job w) \<and> \<not> j_paused (w_job w)"

lemma undisturbed_simps [simp]:
  "undisturbed w \<Longrightarrow> await w = w"
  "undisturbed w \<Longrightarrow> stop_requested w = Some (Ok False, w)"
  "undisturbed (w\<lparr>w_remote := r\<rparr>) = undisturbed w"
  "undisturbed (w\<lparr>w_local := l\<rparr>) = undisturbed w"
  by (simp_all add: undisturbed_def await_def stop_requested_def run_defs wait_while_paused_def)

lemma record_progress_undisturbed:
  "\<exists>w'. record_progress meter off n w = Some (Ok (), w') \<and> w_remote w' = w_remote w \<and> w_local w' = w_local w \<and>
        undisturbed w' = undisturbed w"
  by (auto simp: record_progress_def on_job_def undisturbed_def Let_def add_bytes_def set_eta_secs_def
      set_speed_bps_def split: prod.splits)

definition never_fails :: "('s \<Rightarrow> ('e + 'a) \<times> 's) \<Rightarrow> bool" where
  "never_fails f \<longleftrightarrow> (\<forall>s. is_ok (fst (f s)))"

lemma never_failsE: "never_fails f \<Longrightarrow> (\<And>a s'. f s = (Inr a, s') \<Longrightarrow> P) \<Longrightarrow> P"
  unfolding never_fails_def is_ok_def by (metis prod.collapse sum.case(1) sum.exhaust)

lemma push_loop_total:
  assumes src: "reads_source Lo src rest" and chunk: "0 < chunk"
    and rd: "never_fails (l_read Lo src chunk)" and wr: "\<And>off data. never_fails (rm_write_at R dst off data)"
  shows "undisturbed w \<Longrightarrow> length (rest (w_local w)) < fuel \<Longrightarrow>
    \<exists>w'. push_loop fuel R Lo meter chunk src dst off w = Some (Ok (), w')"
proof (induction fuel arbitrary: off w)
  case (Suc fuel)
  from rd obtain data l where r: "l_read Lo src chunk (w_local w) = (Inr data, l)" by (rule never_failsE)
  have rest: "rest (w_local w) = data @ rest l"
    using src r chunk unfolding reads_source_def by blast
  from wr obtain u s where w: "rm_write_at R dst off data (w_remote w) = (Inr u, s)" by (rule never_failsE)
  let ?w = "w\<lparr>w_local := l, w_remote := s\<rparr>" and ?off = "off + word_of_nat (length data)"
  obtain w2 where p: "record_progress meter ?off (length data) ?w = Some (Ok (), w2)"
      "w_local w2 = l" "undisturbed w2"
    using record_progress_undisturbed [of meter ?off "length data" ?w] Suc.prems(1) by auto
  show ?case
  proof (cases "data = []")
    case True
    then show ?thesis using Suc.prems r by (simp add: bindw_def on_local_def ret_def)
  next
    case False
    then have "\<exists>w'. push_loop fuel R Lo meter chunk src dst ?off w2 = Some (Ok (), w')"
      using Suc.prems(2) rest p(2,3) by (intro Suc.IH) (auto simp: neq_Nil_conv)
    then show ?thesis
      using Suc.prems r w p(1) False by (simp add: bindw_def on_local_def on_remote_def Let_def)
  qed
qed simp

end
