(* ===== verification/Transfer_Queue.thy ===== *)
theory Transfer_Queue
  imports Transfer_Job "HOL-Library.Multiset"
begin

text \<open>
  The job queue (\<open>transfer-engine/src/queue.rs\<close>): three lists of job handles, each behind
  its own lock. Every operation of the source takes the locks it needs in one order, so
  an operation is one step on the whole state. \<open>notified\<close> counts the messages sent to the
  dispatcher; the \<open>on_update\<close> callback is not modelled.
\<close>

definition MAX_COMPLETED :: nat where "MAX_COMPLETED = 200"

record queue =
  pending :: "job list"
  in_flight :: "job list"
  completed :: "job list"
  next_id :: u64
  parallelism :: nat
  notified :: nat
  q_store :: store

definition queue_new :: "nat \<Rightarrow> queue" where
  "queue_new n =
     \<lparr>pending = [], in_flight = [], completed = [], next_id = 1, parallelism = n, notified = 0,
      q_store = \<lparr>st_cells = (\<lambda>_. fresh_cells), st_next = 0\<rparr>\<rparr>"

definition trim_completed :: "job list \<Rightarrow> job list" where
  "trim_completed xs =
     (if length xs > MAX_COMPLETED then drop (length xs - MAX_COMPLETED) xs else xs)"

definition notify :: "queue \<Rightarrow> queue" where
  "notify q = q\<lparr>notified := notified q + 1\<rparr>"

definition submit :: "job \<Rightarrow> queue \<Rightarrow> job_id \<times> queue" where
  "submit j q =
     (let (j, q) = (if job_id j = 0
                    then (j\<lparr>job_id := next_id q\<rparr>, q\<lparr>next_id := next_id q + 1\<rparr>)
                    else (j, q))
      in (job_id j, notify (q\<lparr>pending := pending q @ [j]\<rparr>)))"

definition mark_done :: "job \<Rightarrow> queue \<Rightarrow> queue" where
  "mark_done j q =
     notify (q\<lparr>in_flight := filter (\<lambda>x. job_id x \<noteq> job_id j) (in_flight q),
               completed := trim_completed (completed q @ [j])\<rparr>)"

definition jobs_snapshot :: "queue \<Rightarrow> job list" where
  "jobs_snapshot q = pending q @ in_flight q @ completed q"

definition try_dispatch :: "queue \<Rightarrow> job option \<times> queue" where
  "try_dispatch q =
     (if length (in_flight q) \<ge> parallelism q then (None, q)
      else case pending q of
             [] \<Rightarrow> (None, q)
           | j # rest \<Rightarrow> (Some j, q\<lparr>pending := rest, in_flight := in_flight q @ [j]\<rparr>))"

definition find_job :: "job_id \<Rightarrow> queue \<Rightarrow> job option" where
  "find_job i q =
     (case find (\<lambda>j. job_id j = i) (pending q) of
        Some j \<Rightarrow> Some j
      | None \<Rightarrow> (case find (\<lambda>j. job_id j = i) (in_flight q) of
                  Some j \<Rightarrow> Some j
                | None \<Rightarrow> find (\<lambda>j. job_id j = i) (completed q)))"

definition on_found :: "job_id \<Rightarrow> (job_cells \<Rightarrow> job_cells) \<Rightarrow> queue \<Rightarrow> bool \<times> queue" where
  "on_found i f q =
     (case find_job i q of
        None \<Rightarrow> (False, q)
      | Some j \<Rightarrow> (True, q\<lparr>q_store := on_cells j f (q_store q)\<rparr>))"

definition pause_job :: "job_id \<Rightarrow> queue \<Rightarrow> bool \<times> queue" where
  "pause_job i q = on_found i pause q"

definition resume_job :: "job_id \<Rightarrow> queue \<Rightarrow> bool \<times> queue" where
  "resume_job i q = on_found i resume q"

definition cancel_job :: "job_id \<Rightarrow> queue \<Rightarrow> bool \<times> queue" where
  "cancel_job i q =
     (case position (\<lambda>j. job_id j = i) (pending q) of
        Some pos \<Rightarrow>
          (let j = pending q ! pos
           in (True,
               q\<lparr>pending := remove_at pos (pending q),
                 q_store := on_cells j (set_state Cancelled \<circ> set_error ''cancelled'' \<circ> cancel) (q_store q),
                 completed := trim_completed (completed q @ [j])\<rparr>))
      | None \<Rightarrow> on_found i cancel q)"

definition retryable :: "store \<Rightarrow> job \<Rightarrow> bool" where
  "retryable s j \<longleftrightarrow> j_state (cells_of s j) \<in> {Failed, Cancelled, Skipped}"

definition retry_job :: "job_id \<Rightarrow> queue \<Rightarrow> bool \<times> queue" where
  "retry_job i q =
     (case position (\<lambda>j. job_id j = i \<and> retryable (q_store q) j) (completed q) of
        None \<Rightarrow> (False, q)
      | Some p \<Rightarrow>
          (let j = completed q ! p
           in (True, notify (q\<lparr>completed := remove_at p (completed q),
                               q_store := on_cells j reset_for_retry (q_store q),
                               pending := pending q @ [j]\<rparr>))))"

text \<open>
  \<open>Vec::retain\<close> with the closure of \<open>retry_failed\<close> and \<open>retry_failed_for\<close>: for each job in
  turn, test it, and either keep it or reset it and append it to the pending list. The
  result is the kept jobs, the requeued ones, and the store.
\<close>

fun retain_failed :: "(job \<Rightarrow> bool) \<Rightarrow> job list \<Rightarrow> store \<Rightarrow> job list \<times> job list \<times> store" where
  "retain_failed mine [] s = ([], [], s)"
| "retain_failed mine (j # js) s =
     (if mine j \<and> j_state (cells_of s j) = Failed
      then (let (keep, requeued, s') = retain_failed mine js (on_cells j reset_for_retry s)
            in (keep, j # requeued, s'))
      else (let (keep, requeued, s') = retain_failed mine js s in (j # keep, requeued, s')))"

definition requeue_failed :: "(job \<Rightarrow> bool) \<Rightarrow> queue \<Rightarrow> nat \<times> queue" where
  "requeue_failed mine q =
     (let (keep, requeued, s) = retain_failed mine (completed q) (q_store q);
          count = length requeued;
          q = q\<lparr>completed := keep, pending := pending q @ requeued, q_store := s\<rparr>
      in (count, if count > 0 then notify q else q))"

definition retry_failed :: "queue \<Rightarrow> nat \<times> queue" where
  "retry_failed q = requeue_failed (\<lambda>_. True) q"

definition retry_failed_for :: "string \<Rightarrow> queue \<Rightarrow> nat \<times> queue" where
  "retry_failed_for serial q =
     (if serial = [] then (0, q)
      else requeue_failed (\<lambda>j. job_device j = Some serial) q)"

lemmas queue_op_defs =
  submit_def mark_done_def try_dispatch_def pause_job_def resume_job_def cancel_job_def
  retry_job_def retry_failed_def retry_failed_for_def requeue_failed_def on_found_def notify_def

section \<open>Steps\<close>

text \<open>
  What the rest of the program does with a queue: jobs are created and submitted with id
  0, the dispatcher takes one, a worker changes the cells of a job in flight and hands it
  back once, and the user pauses, resumes, cancels and retries by id.
\<close>

inductive queue_step :: "queue \<Rightarrow> queue \<Rightarrow> bool" where
  q_submit: "with_device 0 dir src dst opts dev (q_store q) = (j, s) \<Longrightarrow>
     submit j (q\<lparr>q_store := s\<rparr>) = (i, q') \<Longrightarrow> queue_step q q'"
| q_dispatch: "try_dispatch q = (r, q') \<Longrightarrow> queue_step q q'"
| q_work: "j \<in> set (in_flight q) \<Longrightarrow> queue_step q (q\<lparr>q_store := on_cells j f (q_store q)\<rparr>)"
| q_done: "j \<in> set (in_flight q) \<Longrightarrow> queue_step q (mark_done j q)"
| q_pause: "pause_job i q = (r, q') \<Longrightarrow> queue_step q q'"
| q_resume: "resume_job i q = (r, q') \<Longrightarrow> queue_step q q'"
| q_cancel: "cancel_job i q = (r, q') \<Longrightarrow> queue_step q q'"
| q_retry: "retry_job i q = (r, q') \<Longrightarrow> queue_step q q'"
| q_retry_all: "retry_failed q = (n, q') \<Longrightarrow> queue_step q q'"
| q_retry_for: "retry_failed_for serial q = (n, q') \<Longrightarrow> queue_step q q'"

inductive queue_reach :: "nat \<Rightarrow> queue \<Rightarrow> bool" for n :: nat where
  init: "queue_reach n (queue_new n)"
| step: "queue_reach n q \<Longrightarrow> queue_step q q' \<Longrightarrow> queue_reach n q'"

section \<open>The invariant\<close>

abbreviation all_jobs :: "queue \<Rightarrow> job multiset" where
  "all_jobs q \<equiv> mset (pending q) + mset (in_flight q) + mset (completed q)"

definition job_ok :: "store \<Rightarrow> job \<Rightarrow> bool" where
  "job_ok s j \<longleftrightarrow> job_cells_at j < st_next s \<and> job_id j = word_of_nat (Suc (job_cells_at j))"

definition queue_inv :: "nat \<Rightarrow> queue \<Rightarrow> bool" where
  "queue_inv n q \<longleftrightarrow>
     parallelism q = n \<and> length (in_flight q) \<le> n \<and> length (completed q) \<le> MAX_COMPLETED \<and>
     next_id q = word_of_nat (Suc (st_next (q_store q))) \<and>
     (\<forall>j \<in># all_jobs q. job_ok (q_store q) j) \<and>
     (\<forall>a. count (image_mset job_cells_at (all_jobs q)) a \<le> 1)"

lemma length_trim [simp]: "length (trim_completed xs) \<le> MAX_COMPLETED"
  by (simp add: trim_completed_def)

lemma mset_drop_subseteq: "mset (drop n xs) \<subseteq># mset xs"
  by (metis append_take_drop_id mset_append mset_subset_eq_add_right)

lemma mset_trim: "mset (trim_completed xs) \<subseteq># mset xs"
  by (simp add: trim_completed_def mset_drop_subseteq)

lemma last_trim: "j \<in> set (trim_completed (xs @ [j]))"
  by (auto simp: trim_completed_def MAX_COMPLETED_def)

lemma mset_remove_at: "p < length xs \<Longrightarrow> add_mset (xs ! p) (mset (remove_at p xs)) = mset xs"
  by (subst (3) id_take_nth_drop [of p]) (auto simp: remove_at_def)

lemma filter_out_mset:
  "j \<in> set xs \<Longrightarrow> add_mset j (mset (filter (\<lambda>x. job_id x \<noteq> job_id j) xs)) \<subseteq># mset xs"
proof (induction xs)
  case (Cons x xs)
  have "mset (filter (\<lambda>x. job_id x \<noteq> job_id j) xs) \<subseteq># mset xs"
    by (simp add: multiset_filter_subset)
  with Cons show ?case
    by (cases "x = j") (auto simp: subset_mset.add_increasing add_mset_commute intro: subset_mset.order_trans)
qed simp

lemma retain_failed_mset:
  "retain_failed mine js s = (keep, req, s') \<Longrightarrow> mset keep + mset req = mset js \<and> st_next s' = st_next s"
  by (induction mine js s arbitrary: keep req s' rule: retain_failed.induct)
    (fastforce split: if_splits prod.splits)+

lemma queue_inv_mono:
  assumes "queue_inv n q" and "all_jobs q' \<subseteq># all_jobs q"
    and "st_next (q_store q') = st_next (q_store q)" and "next_id q' = next_id q"
    and "parallelism q' = parallelism q"
    and "length (in_flight q') \<le> n" and "length (completed q') \<le> MAX_COMPLETED"
  shows "queue_inv n q'"
proof -
  have "count (image_mset job_cells_at (all_jobs q')) a \<le> 1" for a
    using assms(1) mset_subset_eq_count [OF image_mset_subseteq_mono [OF assms(2)], of job_cells_at a]
    unfolding queue_inv_def by (meson order_trans)
  moreover have "\<forall>j \<in># all_jobs q'. job_ok (q_store q') j"
    using assms(1,3) mset_subset_eqD [OF assms(2)] by (auto simp: queue_inv_def job_ok_def)
  ultimately show ?thesis
    using assms(1,3-7) by (simp add: queue_inv_def)
qed

lemma queue_inv_new: "queue_inv n (queue_new n)"
  by (simp add: queue_inv_def queue_new_def)

lemma on_found_fields:
  "on_found i f q = (r, q') \<Longrightarrow>
   \<exists>s. q' = q\<lparr>q_store := s\<rparr> \<and> st_next s = st_next (q_store q)"
  by (auto simp: on_found_def split: option.splits intro: exI [of _ "q_store q"])

lemma queue_inv_store:
  "queue_inv n q \<Longrightarrow> st_next s = st_next (q_store q) \<Longrightarrow> queue_inv n (q\<lparr>q_store := s\<rparr>)"
  by (simp add: queue_inv_def job_ok_def)

lemma queue_inv_submit:
  assumes inv: "queue_inv n q" and d: "with_device 0 dir src dst opts dev (q_store q) = (j, s)"
    and "submit j (q\<lparr>q_store := s\<rparr>) = (i, q')"
  shows "queue_inv n q'"
proof -
  let ?a = "st_next (q_store q)"
  have new: "j = \<lparr>job_id = 0, job_direction = dir, job_source = src, job_destination = dst, job_opts = opts,
      job_device = dev, job_cells_at = ?a\<rparr>" "st_next s = Suc ?a"
    using d by (auto simp: with_device_def)
  have q': "q' = notify (q\<lparr>q_store := s, next_id := next_id q + 1,
      pending := pending q @ [j\<lparr>job_id := next_id q\<rparr>]\<rparr>)"
    using assms(3) new by (auto simp: submit_def)
  have "?a \<notin># image_mset job_cells_at (all_jobs q)"
    using inv by (auto simp: queue_inv_def job_ok_def)
  then have "count (image_mset job_cells_at (all_jobs q)) ?a = 0"
    by (metis count_eq_zero_iff)
  with inv show ?thesis
    by (auto simp: queue_inv_def q' new notify_def job_ok_def ac_simps intro!: less_SucI)
qed

lemma queue_inv_dispatch:
  assumes "queue_inv n q" and "try_dispatch q = (r, q')"
  shows "queue_inv n q'"
proof (cases "q' = q")
  case False
  then obtain j rest where "pending q = j # rest" "length (in_flight q) < parallelism q"
    and "q' = q\<lparr>pending := rest, in_flight := in_flight q @ [j]\<rparr>"
    using assms(2) by (auto simp: try_dispatch_def split: if_splits list.splits)
  then show ?thesis
    using assms(1) by (intro queue_inv_mono [OF assms(1)]) (auto simp: queue_inv_def)
qed (use assms in simp)

lemma queue_inv_done:
  assumes "queue_inv n q" and "j \<in> set (in_flight q)"
  shows "queue_inv n (mark_done j q)"
proof (rule queue_inv_mono [OF assms(1)])
  let ?rest = "filter (\<lambda>x. job_id x \<noteq> job_id j) (in_flight q)"
  have "all_jobs (mark_done j q) \<subseteq># mset (pending q) + mset ?rest + add_mset j (mset (completed q))"
    using mset_trim [of "completed q @ [j]"]
    by (simp add: mark_done_def notify_def del: mset_append) (simp add: subset_mset.add_left_mono)
  also have "\<dots> = mset (pending q) + add_mset j (mset ?rest) + mset (completed q)"
    by simp
  also have "\<dots> \<subseteq># all_jobs q"
    by (intro subset_mset.add_mono filter_out_mset [OF assms(2)] subset_mset.order_refl)
  finally show "all_jobs (mark_done j q) \<subseteq># all_jobs q" .
  show "length (in_flight (mark_done j q)) \<le> n"
    using assms(1)
    by (auto simp: mark_done_def notify_def queue_inv_def intro: le_trans [OF length_filter_le])
qed (simp_all add: mark_done_def notify_def)

lemma queue_inv_cancel:
  assumes "queue_inv n q" and "cancel_job i q = (r, q')"
  shows "queue_inv n q'"
proof (cases "position (\<lambda>j. job_id j = i) (pending q)")
  case None
  then show ?thesis
    using assms on_found_fields [of i cancel q r q'] by (auto simp: cancel_job_def intro: queue_inv_store)
next
  case (Some p)
  let ?j = "pending q ! p"
  have p: "p < length (pending q)" using position_Some [OF Some] by simp
  have "mset (trim_completed (completed q @ [?j])) \<subseteq># add_mset ?j (mset (completed q))"
    using mset_trim [of "completed q @ [?j]"] by simp
  then have "mset (remove_at p (pending q)) + mset (in_flight q) + mset (trim_completed (completed q @ [?j]))
      \<subseteq># mset (remove_at p (pending q)) + mset (in_flight q) + add_mset ?j (mset (completed q))"
    by (rule subset_mset.add_left_mono)
  also have "\<dots> = all_jobs q"
    unfolding mset_remove_at [OF p, symmetric] by (simp add: ac_simps)
  finally have sub: "mset (remove_at p (pending q)) + mset (in_flight q)
      + mset (trim_completed (completed q @ [?j])) \<subseteq># all_jobs q" .
  have "q' = q\<lparr>pending := remove_at p (pending q),
      q_store := on_cells ?j (set_state Cancelled \<circ> set_error ''cancelled'' \<circ> cancel) (q_store q),
      completed := trim_completed (completed q @ [?j])\<rparr>"
    using assms(2) Some by (simp add: cancel_job_def Let_def)
  then show ?thesis
    using sub assms(1) by (intro queue_inv_mono [OF assms(1)]) (simp_all add: queue_inv_def)
qed

lemma queue_inv_retry:
  assumes "queue_inv n q" and "retry_job i q = (r, q')"
  shows "queue_inv n q'"
proof (cases "position (\<lambda>j. job_id j = i \<and> retryable (q_store q) j) (completed q)")
  case None
  then show ?thesis using assms by (simp add: retry_job_def)
next
  case (Some p)
  have p: "p < length (completed q)" using position_Some [OF Some] by simp
  show ?thesis
  proof (rule queue_inv_mono [OF assms(1)])
    show "all_jobs q' \<subseteq># all_jobs q"
      using assms(2) Some mset_remove_at [OF p, symmetric]
      by (auto simp: retry_job_def Let_def notify_def ac_simps)
    show "length (completed q') \<le> MAX_COMPLETED"
      using assms Some by (auto simp: retry_job_def Let_def notify_def remove_at_def queue_inv_def)
  qed (use assms Some in \<open>auto simp: retry_job_def Let_def notify_def queue_inv_def\<close>)
qed

lemma queue_inv_requeue:
  assumes "queue_inv n q" and "requeue_failed mine q = (k, q')"
  shows "queue_inv n q'"
proof -
  obtain keep req s where r: "retain_failed mine (completed q) (q_store q) = (keep, req, s)"
    by (metis prod_cases3)
  then have m: "mset keep + mset req = mset (completed q)" and "st_next s = st_next (q_store q)"
    using retain_failed_mset by blast+
  moreover have "length keep \<le> length (completed q)"
    using m by (metis le_add1 size_mset size_union)
  ultimately show ?thesis
    using assms r by (intro queue_inv_mono [OF assms(1)])
      (auto simp: requeue_failed_def Let_def notify_def queue_inv_def ac_simps split: if_splits)
qed

lemma queue_step_inv: "queue_step q q' \<Longrightarrow> queue_inv n q \<Longrightarrow> queue_inv n q'"
proof (induction rule: queue_step.induct)
  case (q_submit dir src dst opts dev q j s i q')
  then show ?case by (blast intro: queue_inv_submit)
next
  case (q_dispatch q r q')
  then show ?case by (blast intro: queue_inv_dispatch)
next
  case (q_work j q f)
  then show ?case by (simp add: queue_inv_store)
next
  case (q_done j q)
  then show ?case by (simp add: queue_inv_done)
next
  case (q_pause i q r q')
  then show ?case by (auto simp: pause_job_def dest!: on_found_fields intro: queue_inv_store)
next
  case (q_resume i q r q')
  then show ?case by (auto simp: resume_job_def dest!: on_found_fields intro: queue_inv_store)
next
  case (q_cancel i q r q')
  then show ?case by (blast intro: queue_inv_cancel)
next
  case (q_retry i q r q')
  then show ?case by (blast intro: queue_inv_retry)
next
  case (q_retry_all q k q')
  then show ?case by (auto simp: retry_failed_def intro: queue_inv_requeue)
next
  case (q_retry_for serial q k q')
  then show ?case
    by (auto simp: retry_failed_for_def split: if_splits intro: queue_inv_requeue)
qed

lemma queue_reach_inv: "queue_reach n q \<Longrightarrow> queue_inv n q"
  by (induction rule: queue_reach.induct) (auto intro: queue_inv_new queue_step_inv)

section \<open>Consequences\<close>

lemma distinct_cells: "queue_inv n q \<Longrightarrow> distinct (map job_cells_at (jobs_snapshot q))"
  unfolding queue_inv_def jobs_snapshot_def
  by (subst distinct_count_atmost_1)
     (metis (no_types, lifting) One_nat_def add.assoc count_eq_zero_iff image_mset_union le_SucE le_zero_eq
       mset_append mset_map set_mset_mset)

text \<open>
  Ids follow the addresses of the cells, so they are distinct until the 64-bit counter
  has gone round.
\<close>

lemma distinct_ids:
  assumes inv: "queue_inv n q" and bound: "st_next (q_store q) < 2 ^ 64 - 1"
  shows "distinct (map job_id (jobs_snapshot q))"
proof -
  have ok: "job_ok (q_store q) j" if "j \<in> set (jobs_snapshot q)" for j
    using inv that by (auto simp: queue_inv_def jobs_snapshot_def)
  have u: "unat (job_id j) = Suc (job_cells_at j)" if "j \<in> set (jobs_snapshot q)" for j
  proof -
    have "Suc (job_cells_at j) < 2 ^ 64" using ok [OF that] bound by (simp add: job_ok_def)
    then show ?thesis
      using ok [OF that] unat_u64_of_nat [of "Suc (job_cells_at j)"] by (simp only: job_ok_def)
  qed
  have "map (Suc \<circ> job_cells_at) (jobs_snapshot q) = map (unat \<circ> job_id) (jobs_snapshot q)"
    using u by simp
  moreover have "distinct (map (Suc \<circ> job_cells_at) (jobs_snapshot q))"
    using distinct_cells [OF inv] by (simp add: distinct_map inj_on_def)
  ultimately have "distinct (map (unat \<circ> job_id) (jobs_snapshot q))" by (simp only:)
  then show ?thesis
    by (auto simp: distinct_map inj_on_def)
qed

lemma retain_failed_partition:
  assumes "distinct (map job_cells_at js)"
  shows "retain_failed mine js s =
     (filter (\<lambda>j. \<not> (mine j \<and> j_state (cells_of s j) = Failed)) js,
      filter (\<lambda>j. mine j \<and> j_state (cells_of s j) = Failed) js,
      foldl (\<lambda>s j. on_cells j reset_for_retry s) s (filter (\<lambda>j. mine j \<and> j_state (cells_of s j) = Failed) js))"
  using assms
proof (induction js arbitrary: s)
  case (Cons j js)
  have same: "cells_of (on_cells j reset_for_retry s) x = cells_of s x" if "x \<in> set js" for x
    using Cons.prems that by (auto simp: image_iff)
  have "filter (\<lambda>x. \<not> (mine x \<and> j_state (cells_of (on_cells j reset_for_retry s) x) = Failed)) js =
      filter (\<lambda>x. \<not> (mine x \<and> j_state (cells_of s x) = Failed)) js"
    "filter (\<lambda>x. mine x \<and> j_state (cells_of (on_cells j reset_for_retry s) x) = Failed) js =
      filter (\<lambda>x. mine x \<and> j_state (cells_of s x) = Failed) js"
    using same by (auto simp del: cells_of_on_cells intro!: filter_cong)
  with Cons show ?case by (simp del: cells_of_on_cells)
qed simp

lemma cells_of_resets:
  "cells_of (foldl (\<lambda>s j. on_cells j reset_for_retry s) s js) x =
     (if job_cells_at x \<in> job_cells_at ` set js then fresh_cells else cells_of s x)"
  by (induction js arbitrary: s) (auto simp: reset_is_fresh)

lemma mem_remove_at:
  assumes "p < length xs"
  shows "x \<in> set xs \<longleftrightarrow> x = xs ! p \<or> x \<in> set (remove_at p xs)"
  using mset_remove_at [OF assms] by (metis insert_iff set_mset_add_mset_insert set_mset_mset)

lemma retain_failed_set:
  "retain_failed mine js s = (keep, req, s') \<Longrightarrow> set keep \<union> set req = set js"
  using retain_failed_mset by (metis set_mset_mset set_mset_union)

lemma unfinished_kept:
  assumes "queue_step q q'" and "j \<in> set (pending q) \<union> set (in_flight q)"
    and "\<And>x. x \<in> set (in_flight q) \<Longrightarrow> job_id x = job_id j \<Longrightarrow> x = j"
  shows "j \<in> set (jobs_snapshot q')"
  using assms
proof (induction rule: queue_step.induct)
  case (q_done x q)
  then show ?case using last_trim [of x "completed q"]
    by (auto simp: mark_done_def notify_def jobs_snapshot_def)
next
  case (q_cancel i q r q')
  have "j = pending q ! p \<or> j \<in> set (remove_at p (pending q))"
    if "position (\<lambda>j. job_id j = i) (pending q) = Some p" "j \<in> set (pending q)" for p
    using that mem_remove_at [of p "pending q" j] position_Some [OF that(1)] by blast
  then show ?case
    using q_cancel last_trim [of j "completed q"]
    by (auto simp: cancel_job_def jobs_snapshot_def Let_def split: option.splits dest!: on_found_fields)
next
  case (q_retry_all q k q')
  then show ?case
    by (auto simp: retry_failed_def requeue_failed_def Let_def notify_def jobs_snapshot_def split: prod.splits if_splits)
next
  case (q_retry_for serial q k q')
  then show ?case
    by (auto simp: retry_failed_for_def requeue_failed_def Let_def notify_def jobs_snapshot_def
        split: prod.splits if_splits)
qed (auto simp: submit_def notify_def jobs_snapshot_def try_dispatch_def pause_job_def resume_job_def
       retry_job_def Let_def split: if_splits list.splits option.splits dest!: on_found_fields)

lemma distinct_map_inj: "distinct (map f xs) \<Longrightarrow> x \<in> set xs \<Longrightarrow> y \<in> set xs \<Longrightarrow> f x = f y \<Longrightarrow> x = y"
  by (auto simp: distinct_map dest: inj_onD)

lemma find_job_store [simp]: "find_job i (q\<lparr>q_store := s\<rparr>) = find_job i q"
  by (simp add: find_job_def split: option.split)

lemma find_SomeD: "find P xs = Some x \<Longrightarrow> x \<in> set xs \<and> P x"
  by (auto simp: find_Some_iff)

lemma find_job_Some: "find_job i q = Some j \<Longrightarrow> j \<in> set (jobs_snapshot q) \<and> job_id j = i"
  by (auto simp: find_job_def jobs_snapshot_def split: option.splits dest!: find_SomeD)

lemma find_job_None: "find_job i q = None \<Longrightarrow> j \<in> set (jobs_snapshot q) \<Longrightarrow> job_id j \<noteq> i"
  by (auto simp: find_job_def jobs_snapshot_def find_None_iff split: option.splits)

section \<open>Properties\<close>

text \<open>
  C7. In every reachable state of the queue at most \<open>parallelism\<close> jobs are in flight, the
  history holds at most 200 jobs, no job is in two places, and ids are unique (as long as
  fewer than \<open>2 ^ 64 - 1\<close> jobs were ever created).
\<close>

theorem queue_bounds_and_unique_ids:
  assumes "queue_reach n q" and "st_next (q_store q) < 2 ^ 64 - 1"
  shows "length (in_flight q) \<le> n \<and> length (completed q) \<le> MAX_COMPLETED \<and>
         distinct (jobs_snapshot q) \<and> distinct (map job_id (jobs_snapshot q))"
  using queue_reach_inv [OF assms(1)] distinct_ids [OF queue_reach_inv [OF assms(1)] assms(2)]
  by (auto simp: queue_inv_def distinct_map)

definition demo_queue :: queue where
  "demo_queue =
     (let q = queue_new 1;
          (j, s) = with_device 0 Pull ''/sdcard/a'' ''/tmp/a'' default_options (Some ''S1'') (q_store q)
      in snd (submit j (q\<lparr>q_store := s\<rparr>)))"

lemma demo_queue_reach: "queue_reach 1 demo_queue"
proof (rule queue_reach.step [OF queue_reach.init])
  show "queue_step (queue_new 1) demo_queue"
    by (rule q_submit [where i = 1 and dir = Pull and src = "''/sdcard/a''" and dst = "''/tmp/a''"
          and opts = default_options and dev = "Some ''S1''"])
      (auto simp: demo_queue_def with_device_def submit_def queue_new_def)
qed

theorem queue_bounds_and_unique_ids_witness:
  "length (in_flight demo_queue) \<le> 1 \<and> length (completed demo_queue) \<le> MAX_COMPLETED \<and>
   distinct (jobs_snapshot demo_queue) \<and> distinct (map job_id (jobs_snapshot demo_queue))"
  by (rule queue_bounds_and_unique_ids [OF demo_queue_reach])
    (simp add: demo_queue_def with_device_def submit_def queue_new_def notify_def)

text \<open>
  C21. No operation loses a job that has not finished: a job that is queued or running
  before a step is still in the queue after it.
\<close>

theorem unfinished_job_never_lost:
  assumes "queue_reach n q" and "st_next (q_store q) < 2 ^ 64 - 1" and "queue_step q q'"
    and "j \<in> set (pending q) \<union> set (in_flight q)"
  shows "j \<in> set (jobs_snapshot q')"
proof (rule unfinished_kept [OF assms(3,4)])
  fix x
  assume "x \<in> set (in_flight q)" and "job_id x = job_id j"
  then show "x = j"
    using distinct_map_inj [OF distinct_ids [OF queue_reach_inv [OF assms(1)] assms(2)], of x j] assms(4)
    by (auto simp: jobs_snapshot_def)
qed

theorem unfinished_job_never_lost_witness:
  "hd (pending demo_queue) \<in> set (jobs_snapshot (snd (cancel_job 1 demo_queue)))"
proof (rule unfinished_job_never_lost [OF demo_queue_reach])
  show "queue_step demo_queue (snd (cancel_job 1 demo_queue))"
    by (rule q_cancel [of 1 _ "fst (cancel_job 1 demo_queue)"]) simp
qed (simp_all add: demo_queue_def with_device_def submit_def queue_new_def notify_def)

text \<open>
  Retrying for a device that was plugged back in requeues exactly the failed jobs
  whose device tag is that serial, in their order; each starts afresh; all other jobs
  keep their place and their state.
\<close>

theorem retry_failed_for_exact:
  assumes "queue_reach n q" and "serial \<noteq> []" and "retry_failed_for serial q = (k, q')"
  shows "pending q' = pending q @ filter (\<lambda>j. job_device j = Some serial \<and>
            j_state (cells_of (q_store q) j) = Failed) (completed q) \<and>
         completed q' = filter (\<lambda>j. \<not> (job_device j = Some serial \<and>
            j_state (cells_of (q_store q) j) = Failed)) (completed q) \<and>
         in_flight q' = in_flight q \<and>
         (\<forall>j \<in> set (jobs_snapshot q). cells_of (q_store q') j =
            (if j \<in> set (completed q) \<and> job_device j = Some serial \<and>
                j_state (cells_of (q_store q) j) = Failed
             then fresh_cells else cells_of (q_store q) j))"
proof -
  have d: "distinct (map job_cells_at (jobs_snapshot q))"
    by (rule distinct_cells [OF queue_reach_inv [OF assms(1)]])
  then have dc: "distinct (map job_cells_at (completed q))"
    by (simp add: jobs_snapshot_def)
  have same: "x = y" if "x \<in> set (jobs_snapshot q)" "y \<in> set (completed q)" "job_cells_at x = job_cells_at y" for x y
    using distinct_map_inj [OF d, of x y] that by (simp add: jobs_snapshot_def)
  let ?mine = "\<lambda>j. job_device j = Some serial \<and> j_state (cells_of (q_store q) j) = Failed"
  have cells: "job_cells_at j \<in> job_cells_at ` set (filter ?mine (completed q)) \<longleftrightarrow>
      j \<in> set (completed q) \<and> ?mine j" if "j \<in> set (jobs_snapshot q)" for j
    using same [OF that] by auto
  have fields: "pending q' = pending q @ filter ?mine (completed q)"
    "completed q' = filter (\<lambda>j. \<not> ?mine j) (completed q)" "in_flight q' = in_flight q"
    "q_store q' = foldl (\<lambda>s j. on_cells j reset_for_retry s) (q_store q) (filter ?mine (completed q))"
    using assms(2,3)
    by (auto simp: retry_failed_for_def requeue_failed_def retain_failed_partition [OF dc] Let_def
        notify_def split: if_splits)
  have "cells_of (q_store q') j =
      (if j \<in> set (completed q) \<and> ?mine j then fresh_cells else cells_of (q_store q) j)"
    if "j \<in> set (jobs_snapshot q)" for j
    unfolding fields(4) cells_of_resets cells [OF that] ..
  then show ?thesis using fields(1-3) by simp
qed

text \<open>
  Cancelling a job that still waits takes it out of the pending list at once, so no
  dispatcher can start it, and marks it cancelled; cancelling a running job sets the flag
  its worker checks and leaves its state to the worker.
\<close>

lemma cancel_job_effect:
  assumes "queue_reach n q" and "st_next (q_store q) < 2 ^ 64 - 1" and "j \<in> set (jobs_snapshot q)"
    and "cancel_job (job_id j) q = (r, q')"
  shows "r \<and> j_cancel (cells_of (q_store q') j) \<and> j \<notin> set (pending q') \<and>
         j_state (cells_of (q_store q') j) =
           (if j \<in> set (pending q) then Cancelled else j_state (cells_of (q_store q) j))"
proof -
  have ids: "x = j" if "x \<in> set (jobs_snapshot q)" "job_id x = job_id j" for x
    using distinct_map_inj [OF distinct_ids [OF queue_reach_inv [OF assms(1)] assms(2)], of x j] assms(3) that
    by simp
  have dp: "distinct (pending q)"
    using distinct_cells [OF queue_reach_inv [OF assms(1)]]
    by (auto simp: jobs_snapshot_def distinct_map)
  show ?thesis
  proof (cases "position (\<lambda>x. job_id x = job_id j) (pending q)")
    case None
    then have out: "j \<notin> set (pending q)" by (auto simp: position_None)
    have "find_job (job_id j) q \<noteq> None"
      using assms(3) find_job_None by blast
    moreover have "x = j" if "find_job (job_id j) q = Some x" for x
      using find_job_Some [OF that] ids by blast
    ultimately have "find_job (job_id j) q = Some j" by blast
    then show ?thesis
      using None assms(4) out by (auto simp: cancel_job_def on_found_def cancel_def)
  next
    case (Some p)
    then have p: "p < length (pending q)" "job_id (pending q ! p) = job_id j"
      using position_Some by fastforce+
    then have j: "pending q ! p = j" by (intro ids) (auto simp: jobs_snapshot_def)
    then have mem: "j \<in> set (pending q)" using p(1) nth_mem by blast
    have "distinct (take p (pending q) @ pending q ! p # drop (Suc p) (pending q))"
      using dp id_take_nth_drop [OF p(1)] by simp
    then have "j \<notin> set (remove_at p (pending q))"
      by (auto simp: remove_at_def j)
    then show ?thesis
      using Some assms(4) j mem by (auto simp: cancel_job_def Let_def set_state_def set_error_def cancel_def)
  qed
qed

text \<open>
  Resuming a paused job that is still waiting in the queue labels it \<open>Running\<close> although
  no worker has it.
\<close>

lemma resume_queued_job_says_running:
  assumes "j \<in> set (pending q)" and "find_job (job_id j) q = Some j"
    and "j_state (cells_of (q_store q) j) = Pending"
  shows "let q' = snd (resume_job (job_id j) (snd (pause_job (job_id j) q)))
         in pending q' = pending q \<and> j_state (cells_of (q_store q') j) = Running"
  using assms by (simp add: pause_job_def resume_job_def on_found_def Let_def pause_def resume_def set_state_def)

end
