(* ===== verification/Transfer_Properties.thy ===== *)
theory Transfer_Properties
  imports Transfer_Worker Transfer_Queue
begin

text \<open>
  The properties of the transfer worker. A world with one local and one remote file shows
  that their hypotheses can hold.
\<close>

section \<open>A world for the witnesses\<close>

text \<open>Locally: what is left to read of the source, and the destination. Remotely: the file.\<close>

definition demo_local :: "(bytes \<times> bytes) local" where
  "demo_local =
     \<lparr>l_metadata = (\<lambda>p l. if p = ''/none'' then (Inl ''not found'', l) else (Inr (word_of_nat (length (fst l))), l)),
      l_open = (\<lambda>p l. (Inr 1, l)),
      l_create = (\<lambda>p l. (Inr 2, (fst l, []))),
      l_open_write = (\<lambda>p l. (Inr 2, l)),
      l_seek = (\<lambda>f n l. (Inr (), l)),
      l_read = (\<lambda>f n l. (Inr (take n (fst l)), (drop n (fst l), snd l))),
      l_write_all = (\<lambda>f d l. (Inr (), (fst l, snd l @ d))),
      l_flush = (\<lambda>f l. (Inr (), l)),
      l_remove = (\<lambda>p l. (Inr (), (fst l, []))),
      l_create_dir_all = (\<lambda>p l. (Inr (), l)),
      l_now = (\<lambda>l. 0)\<rparr>"

definition demo_pfile :: pfile where "demo_pfile = \<lparr>pf_fd = Some 3, pf_path = ''/r''\<rparr>"

definition demo_remote :: "bytes remote" where
  "demo_remote =
     \<lparr>rm_stat = (\<lambda>p r. (if p = ''/new'' then Err (PStatus NotFound ''x'')
        else Ok \<lparr>s_mode = 0, s_size = word_of_nat (length r), s_mtime = 0, s_atime = 0, s_ctime = 0,
          s_uid = 0, s_gid = 0, s_nlink = 0, s_blksize = 0, s_blocks = 0\<rparr>, r)),
      rm_open = (\<lambda>p fl m r. if p = ''/locked'' then (Err (PStatus IoError ''open''), r)
        else (Ok demo_pfile, if fl AND OF_TRUNC \<noteq> 0 then [] else r)),
      rm_read_at = (\<lambda>f off n r. (Ok (take (unat n) (drop (unat off) r)), r)),
      rm_write_at = (\<lambda>f off d r. (Ok (), r @ d)),
      rm_close = (\<lambda>f r. (Ok (), r)),
      rm_drop = (\<lambda>f r. r),
      rm_unlink = (\<lambda>p r. (Ok (), []))\<rparr>"

definition demo_job :: "direction \<Rightarrow> string \<Rightarrow> string \<Rightarrow> overwrite_mode \<Rightarrow> job" where
  "demo_job dir src dst mode =
     \<lparr>job_id = 1, job_direction = dir, job_source = src, job_destination = dst,
      job_opts = default_options\<lparr>overwrite := mode\<rparr>, job_device = None, job_cells_at = 0\<rparr>"

definition demo_world :: "bytes \<Rightarrow> bytes \<Rightarrow> bytes \<Rightarrow> action list list \<Rightarrow> (bytes, bytes \<times> bytes) world" where
  "demo_world rem src dst acts =
     \<lparr>w_remote = rem, w_local = (src, dst), w_job = fresh_cells, w_acts = acts\<rparr>"

definition demo_meter :: "u64 \<Rightarrow> u64 \<Rightarrow> u64 \<times> u64" where
  "demo_meter off n = (off, 0)"

lemma demo_reads: "reads_source demo_local f fst"
  by (auto simp: reads_source_def demo_local_def)


section \<open>The bytes\<close>



text \<open>
  A pull that ends without an error has appended exactly the rest of the remote file
  from its starting offset, so a file that held the first \<open>offset\<close> bytes holds all of them.
\<close>

theorem pull_delivers_source:
  assumes "reads_remote R src whole" and "appends_local Lo dst content" and "0 < (word_of_nat chunk :: u32)"
    and "length whole < 2 ^ 64"
    and "pull_loop fuel R Lo meter chunk src dst off w = Some (Ok (), w')"
    and "unat off \<le> length whole" and "content (w_local w) = take (unat off) whole"
  shows "content (w_local w') = whole"
  using pull_loop_copies [OF assms(1-6)] assms(7) by simp

definition fixed_remote :: "bytes \<Rightarrow> bytes remote" where
  "fixed_remote whole =
     demo_remote\<lparr>rm_read_at := (\<lambda>f off n r. (Ok (take (unat n) (drop (unat off) whole)), r))\<rparr>"

lemma fixed_reads: "reads_remote (fixed_remote whole) f whole"
proof -
  have "\<exists>more. drop k whole = take n (drop k whole) @ more" for k n
    by (metis append_take_drop_id)
  then show ?thesis
    by (auto simp: reads_remote_def fixed_remote_def unat_gt_0 unat_eq_zero)
qed

text \<open>
  C27. The push loop ends: when reads and writes succeed and nobody pauses or cancels, one
  round more than the source has bytes is enough, whatever the chunk size.
\<close>

theorem push_loop_terminates:
  assumes "reads_source Lo src rest" and "0 < chunk" and "never_fails (l_read Lo src chunk)"
    and "\<forall>off data. never_fails (rm_write_at R dst off data)"
    and "undisturbed w" and "length (rest (w_local w)) < fuel"
  shows "\<exists>w'. push_loop fuel R Lo meter chunk src dst off w = Some (Ok (), w')"
  using push_loop_total [OF assms(1-3) _ assms(5,6)] assms(4) by blast

theorem push_loop_terminates_witness:
  "\<exists>w'. push_loop 4 demo_remote demo_local demo_meter 2 1 demo_pfile 0 (demo_world [] [1, 2, 3] [] []) = Some (Ok (), w')"
  by (rule push_loop_terminates [OF demo_reads])
    (auto simp: never_fails_def demo_remote_def demo_local_def undisturbed_def demo_world_def fresh_cells_def)

section \<open>What is never destroyed\<close>

lemmas deep_cong = if_cong sum.case_cong option.case_cong plan.case_cong

lemma no_unlink_loops [simp]:
  "push_loop fuel (R\<lparr>rm_unlink := u\<rparr>) Lo meter chunk src dst off = push_loop fuel R Lo meter chunk src dst off"
  "hash_remote_loop fuel (R\<lparr>rm_unlink := u\<rparr>) f want off' acc = hash_remote_loop fuel R f want off' acc"
  by (induction fuel arbitrary: off off' acc) (simp_all add: Let_def cong: deep_cong)

lemma no_unlink_verify [simp]:
  "verify_paths fuel sha (R\<lparr>rm_unlink := u\<rparr>) Lo chunk lp rp = verify_paths fuel sha R Lo chunk lp rp"
  by (simp add: verify_paths_def hash_remote_def cong: deep_cong)

lemma no_unlink_go [simp]:
  "push_go fuel sha meter (R\<lparr>rm_unlink := u\<rparr>) Lo chunk j dest False off flags =
   push_go fuel sha meter R Lo chunk j dest False off flags"
  by (simp add: push_go_def push_finish_def cong: deep_cong)

lemma no_remove_loops [simp]:
  "pull_loop fuel R (Lo\<lparr>l_remove := u\<rparr>) meter chunk src dst off = pull_loop fuel R Lo meter chunk src dst off"
  "hash_local_loop fuel (Lo\<lparr>l_remove := u\<rparr>) f acc = hash_local_loop fuel Lo f acc"
  by (induction fuel arbitrary: off acc) (simp_all add: Let_def cong: deep_cong)

lemma no_remove_verify [simp]:
  "verify_paths fuel sha R (Lo\<lparr>l_remove := u\<rparr>) chunk lp rp = verify_paths fuel sha R Lo chunk lp rp"
  by (simp add: verify_paths_def sha256_file_def cong: deep_cong)

lemma no_remove_go [simp]:
  "pull_go fuel sha meter R (Lo\<lparr>l_remove := u\<rparr>) chunk j src dest False off f =
   pull_go fuel sha meter R Lo chunk j src dest False off f"
  by (simp add: pull_go_def pull_finish_def cong: deep_cong)



text \<open>
  With \<open>SkipExisting\<close>, the default, an existing destination is not touched: the only
  thing a push asks of the phone is one \<open>stat\<close>, the job is marked skipped, and it reports
  the size of the file that is there.
\<close>

lemma skip_existing_touches_nothing:
  assumes "overwrite (job_opts j) = SkipExisting" and "w_acts w = []"
    and "l_metadata Lo (job_source j) (w_local w) = (Inr n, l)"
    and "rm_stat R (to_string_lossy (job_destination j)) (w_remote w) = (Inr st, r)"
  shows "push fuel sha meter R Lo chunk j w =
    Some (Ok (), w\<lparr>w_local := l, w_remote := r,
      w_job := set_state Skipped (add_bytes (s_size st) (set_total (s_size st) (w_job w)))\<rparr>)"
  using assms by (simp add: push_def bindw_def on_local_def on_remote_def attempt_def Let_def await_def
      push_plan_def on_job_def)

section \<open>How a job ends\<close>

text \<open>The schedule holds no pause, and the job is running or skipped.\<close>

definition going :: "job_cells \<Rightarrow> action list list \<Rightarrow> bool" where
  "going c as \<longleftrightarrow> UserPause \<notin> set (concat as) \<and> (j_state c = Running \<or> j_state c = Skipped)"

lemma going_actions:
  "UserPause \<notin> set a \<Longrightarrow> j_state c = Running \<or> j_state c = Skipped \<Longrightarrow>
   j_state (fold apply_action a c) = j_state c"
proof (induction a arbitrary: c)
  case (Cons x a)
  then show ?case by (cases x) (auto simp: resume_def cancel_def set_state_def)
qed simp

lemma going_inv: "job_inv going" "progress_inv going" "skip_inv going"
  by (auto simp: job_inv_def progress_inv_def skip_inv_def going_def going_actions job_method_defs)

lemma run_finish_ends:
  assumes "going (w_job w) (w_acts w)" and "run_finish res w = Some (r, w')"
  shows "terminal (j_state (w_job w')) \<and>
    (\<forall>e. r = Err e \<longrightarrow> j_state (w_job w') = Failed \<and> j_error (w_job w') = Some (error_display e)) \<and>
    (j_cancel (w_job w') \<longrightarrow> j_state (w_job w') = Cancelled)"
  using assms
  by (auto simp: run_finish_def run_defs going_def terminal_def set_state_def set_error_def split: if_splits sum.splits)

text \<open>
  A job nobody pauses always ends in a final state when its run ends: completed or
  skipped on success, failed with the message of its error on an error, cancelled when it
  was cancelled, at whatever moment that happened.
\<close>

theorem run_ends_in_final_state:
  assumes "UserPause \<notin> set (concat (w_acts w))" and "j_state (w_job w) \<noteq> Paused"
    and "run_job fuel sha meter R Lo chunk j w = Some (r, w')"
  shows "terminal (j_state (w_job w')) \<and>
    (\<forall>e. r = Err e \<longrightarrow> j_state (w_job w') = Failed \<and> j_error (w_job w') = Some (error_display e)) \<and>
    (j_cancel (w_job w') \<longrightarrow> r = Ok () \<longrightarrow> j_state (w_job w') = Cancelled)"
proof (cases "j_cancel (w_job w)")
  case True
  then show ?thesis
    using assms(3) by (auto simp: run_job_def run_defs terminal_def set_state_def set_error_def)
next
  case False
  define w1 where "w1 = w\<lparr>w_job := mark_started (l_now Lo (w_local w)) (set_state Running (w_job w))\<rparr>"
  have g1: "going (w_job w1) (w_acts w1)"
    using assms(1) by (simp add: w1_def going_def mark_started_def set_state_def)
  obtain t w2 where t: "total_size R Lo j w1 = Some (t, w2)"
    using assms(2,3) False by (auto simp: run_job_def run_defs w1_def split: option.splits)
  have g2: "going (w_job w2) (w_acts w2)"
    using validD [OF preserves_total_size [OF going_inv(1)] _ t] g1 by (simp add: on_cells_inv_def)
  show ?thesis
  proof (cases t)
    case (Inl e)
    then show ?thesis
      using assms(2,3) False t
      by (auto simp: run_job_def run_defs w1_def terminal_def set_state_def set_error_def)
  next
    case (Inr n)
    define w3 where "w3 = w2\<lparr>w_job := set_total n (w_job w2)\<rparr>"
    have g3: "on_cells_inv going w3" using g2 by (simp add: on_cells_inv_def w3_def going_def set_total_def)
    let ?m = "case job_direction j of Push \<Rightarrow> push fuel sha meter R Lo chunk j | Pull \<Rightarrow> pull fuel sha meter R Lo chunk j"
    obtain res w4 where m: "?m w3 = Some (res, w4)" and fin: "run_finish res w4 = Some (r, w')"
      using assms(2,3) False t Inr
      by (auto simp: run_job_def run_defs w1_def w3_def split: option.splits)
    have "preserves (on_cells_inv going) ?m"
      by (cases "job_direction j") (simp_all add: preserves_push [OF going_inv] preserves_pull [OF going_inv])
    then have "on_cells_inv going w4" using g3 m by (rule validD)
    then show ?thesis
      using run_finish_ends [OF _ fin] by (auto simp: on_cells_inv_def)
  qed
qed


lemmas demo_eval =
  demo_job_def demo_remote_def demo_local_def demo_world_def demo_meter_def fresh_cells_def run_defs
  await_def stop_requested_def wait_while_paused_def record_progress_def job_method_defs Let_def default_options_def


text \<open>
  C37. A pull whose remote source cannot be opened leaves the empty destination file it has
  just created behind: nothing after the creation touches the local side.
\<close>

theorem failed_pull_leaves_empty_file:
  assumes "w_acts w = []" and "l_create Lo (job_destination j) (w_local w) = (Inr f, l)"
    and "rm_open R source_str OF_READ 0 (w_remote w) = (Inl e, r)"
  shows "pull_open fuel sha meter R Lo chunk j source_str None Rewrite w =
    Some (Err e, w\<lparr>w_local := l, w_remote := r\<rparr>)"
  using assms by (simp add: pull_open_def pull_go_def bindw_def on_local_def on_remote_def Let_def await_def)

theorem failed_pull_leaves_empty_file_witness:
  "pull_open 5 (\<lambda>b. '''') demo_meter demo_remote demo_local 2 (demo_job Pull ''/locked'' ''/none'' Always)
     ''/locked'' None Rewrite (demo_world [1] [] [7] []) =
   Some (Err (PStatus IoError ''open''), (demo_world [1] [] [7] [])\<lparr>w_local := ([], []), w_remote := [1]\<rparr>)"
  by (rule failed_pull_leaves_empty_file) (simp_all add: demo_world_def demo_local_def demo_remote_def)

section \<open>Verification\<close>

lemma attempt_Ok: "attempt m w = Some (Inr r, w') \<longleftrightarrow> m w = Some (r, w')"
  by (auto simp: attempt_def split: option.splits)

lemma case_raise_Ok:
  "(case r of Inl e \<Rightarrow> raise (f e) | Inr a \<Rightarrow> k a) w = Some (Inr b, w') \<longleftrightarrow>
     (\<exists>a. r = Inr a \<and> k a w = Some (Inr b, w'))"
  "(case r of Inl e \<Rightarrow> (\<lambda>w. raise (f e) (g e w)) | Inr a \<Rightarrow> k a) w = Some (Inr b, w') \<longleftrightarrow>
     (\<exists>a. r = Inr a \<and> k a w = Some (Inr b, w'))"
  by (cases r; auto simp: raise_def)+

lemma hash_local_loop_reads:
  assumes "reads_source Lo f rest"
  shows "hash_local_loop fuel Lo f acc w = Some (Ok bs, w') \<Longrightarrow> bs = acc @ rest (w_local w)"
proof (induction fuel arbitrary: acc w)
  case (Suc fuel)
  then obtain data l where rd: "l_read Lo f (64 * 1024) (w_local w) = (Inr data, l)"
    and run: "(if data = [] then ret acc else hash_local_loop fuel Lo f (acc @ data)) ((await w)\<lparr>w_local := l\<rparr>) = Some (Ok bs, w')"
    by (auto simp: bindw_Ok on_local_Ok)
  have "0 < (64 * 1024 :: nat)" by simp
  with assms rd have rest: "rest (w_local w) = data @ rest l" "data = [] \<longrightarrow> rest (w_local w) = []"
    unfolding reads_source_def by blast+
  show ?case
  proof (cases "data = []")
    case True
    then show ?thesis using run rest by (auto simp: ret_def)
  next
    case False
    then show ?thesis using Suc.IH [of "acc @ data"] run rest by fastforce
  qed
qed simp

lemma hash_remote_loop_reads:
  assumes src: "reads_remote R f whole" and size: "length whole < 2 ^ 64" and want: "0 < want"
  shows "hash_remote_loop fuel R f want off acc w = Some (Ok bs, w') \<Longrightarrow> unat off \<le> length whole \<Longrightarrow>
    bs = acc @ drop (unat off) whole"
proof (induction fuel arbitrary: off acc w)
  case (Suc fuel)
  then obtain data r where rd: "rm_read_at R f off want (w_remote w) = (Inr data, r)"
    and run: "(if data = [] then ret acc else hash_remote_loop fuel R f want (off + word_of_nat (length data)) (acc @ data))
      ((await w)\<lparr>w_remote := r\<rparr>) = Some (Ok bs, w')"
    by (auto simp: bindw_Ok on_remote_Ok)
  obtain more where more: "drop (unat off) whole = data @ more" "data = [] \<longrightarrow> drop (unat off) whole = []"
    using src rd want unfolding reads_remote_def by blast
  show ?case
  proof (cases "data = []")
    case True
    then show ?thesis using run more by (auto simp: ret_def)
  next
    case False
    have len: "unat off + length data \<le> length whole"
      using arg_cong [OF more(1), of length] Suc.prems(2) by simp
    then have u: "unat (off + word_of_nat (length data)) = unat off + length data"
      using size by (simp add: unat_offset)
    have "drop (unat off + length data) whole = more"
      using more(1) by (metis add.commute append_eq_conv_conj drop_drop)
    then show ?thesis
      using Suc.IH [of "off + word_of_nat (length data)" "acc @ data"] run False u len more(1) by fastforce
  qed
qed simp

text \<open>
  C28. Verification compares the right things: if \<open>verify_paths\<close> accepts, the SHA-256 of the
  whole local file equals that of the whole remote file as read back, for every way the
  reads are cut.
\<close>

theorem verify_accepts_equal_hashes:
  assumes "\<forall>l f l'. l_open Lo lpath l = (Inr f, l') \<longrightarrow> reads_source Lo f rest \<and> rest l' = lfile"
    and "\<forall>r f r'. rm_open R rpath OF_READ 0 r = (Inr f, r') \<longrightarrow> reads_remote R f rfile"
    and "length rfile < 2 ^ 64" and "0 < chunk"
    and "verify_paths fuel sha R Lo chunk lpath rpath w = Some (Ok (), w')"
  shows "sha lfile = sha rfile"
proof -
  have want: "0 < (word_of_nat (min chunk (2 ^ 32 - 1)) :: u32)"
  proof -
    have "unat (word_of_nat (min chunk (2 ^ 32 - 1)) :: u32) = min chunk (2 ^ 32 - 1)"
      by (intro unat_u32_of_nat) simp
    then show ?thesis using assms(4) by (simp add: word_less_nat_alt)
  qed
  obtain h w1 where lh: "sha256_file fuel sha Lo lpath w = Some (Ok h, w1)"
    and rh: "\<exists>w2. hash_remote fuel sha R chunk rpath w1 = Some (Ok h, w2)"
    using assms(5)
    by (auto simp: verify_paths_def bindw_Ok attempt_Ok case_raise_Ok raise_def ret_def split: if_splits)
  have "h = sha lfile"
    using lh assms(1) hash_local_loop_reads
    by (fastforce simp: sha256_file_def bindw_Ok on_local_Ok ret_def)
  moreover have "h = sha rfile"
  proof -
    from rh obtain f wa bs wb where "\<exists>r r'. rm_open R rpath OF_READ 0 r = (Inr f, r')"
      and b: "hash_remote_loop fuel R f (word_of_nat (min chunk (2 ^ 32 - 1))) 0 [] wa = Some (Ok bs, wb)"
      and h: "h = sha bs" and "w_local wa = w_local w1"
      by (auto simp: hash_remote_def bindw_Ok on_remote_Ok attempt_Ok case_raise_Ok ret_def) force
    then have "reads_remote R f rfile" using assms(2) by blast
    from hash_remote_loop_reads [OF this assms(3) want b] h show ?thesis by simp
  qed
  ultimately show ?thesis by simp
qed

definition verify_local :: "(bytes \<times> bytes) local" where
  "verify_local = demo_local\<lparr>l_open := (\<lambda>p l. (Inr 1, ([65, 66], snd l)))\<rparr>"

definition verify_remote :: "bytes remote" where
  "verify_remote = fixed_remote [65, 66]\<lparr>rm_open := (\<lambda>p fl m r. (Ok demo_pfile, r))\<rparr>"

theorem verify_accepts_equal_hashes_witness:
  "from_bytes [65, 66] = from_bytes (as_bytes ''AB'')"
proof (rule verify_accepts_equal_hashes [where Lo = verify_local and lpath = "''/l''" and rest = fst
      and rpath = "''/r''" and R = verify_remote and chunk = 2 and fuel = "Suc (Suc (Suc 0))"
      and w = "demo_world [] [] [] []"
      and w' = "snd (the (verify_paths (Suc (Suc (Suc 0))) from_bytes verify_remote verify_local 2 ''/l'' ''/r''
        (demo_world [] [] [] [])))"])
  show "\<forall>l f l'. l_open verify_local ''/l'' l = (Ok f, l') \<longrightarrow> reads_source verify_local f fst \<and> fst l' = [65, 66]"
    using demo_reads by (auto simp: verify_local_def demo_local_def reads_source_def)
  have "as_bytes ''AB'' = [65, 66]" by (simp add: as_bytes_def byte_of_char_def)
  then show "\<forall>r f r'. rm_open verify_remote ''/r'' OF_READ 0 r = (Ok f, r') \<longrightarrow> reads_remote verify_remote f (as_bytes ''AB'')"
    using fixed_reads [of "[65, 66]"] by (simp add: verify_remote_def reads_remote_def)
  show "verify_paths (Suc (Suc (Suc 0))) from_bytes verify_remote verify_local 2 ''/l'' ''/r'' (demo_world [] [] [] []) =
    Some (Ok (), snd (the (verify_paths (Suc (Suc (Suc 0))) from_bytes verify_remote verify_local 2 ''/l'' ''/r''
      (demo_world [] [] [] []))))"
    by (simp add: verify_paths_def sha256_file_def hash_remote_def verify_local_def verify_remote_def fixed_remote_def
        demo_eval)
qed simp_all

end
