(* ===== verification/Path_Map.thy ===== *)
theory Path_Map
  imports Paths
begin

text \<open>
  Paths as keys. \<open>PathBuf\<close> compares, hashes and tests prefixes by components, so that
  \<open>/a//b\<close> and \<open>/a/b\<close> are the same key; \<open>components\<close> is that view. \<open>HashMap<PathBuf, V>\<close> is
  an association list whose order stands for the iteration order of the hash map; its
  lookups compare keys by components and an insertion under an equal key keeps the old
  key, as in Rust.
\<close>

section \<open>Components\<close>

datatype component = RootDir | CurDir | ParentDir | Normal string

definition component_of :: "string \<Rightarrow> component" where
  "component_of s = (if s = ''..'' then ParentDir else Normal s)"

definition body_components :: "string list \<Rightarrow> component list" where
  "body_components segs = map component_of (filter (\<lambda>s. \<not> skipped_segment s) segs)"

definition components :: "string \<Rightarrow> component list" where
  "components p =
     (if is_absolute p then RootDir # body_components (path_body p)
      else (if hd (path_body p) = ''.'' then [CurDir] else []) @ body_components (path_body p))"

definition path_starts_with :: "string \<Rightarrow> string \<Rightarrow> bool" where
  "path_starts_with p base \<longleftrightarrow> take (length (components base)) (components p) = components base"

text \<open>
  \<open>strip_prefix\<close> of absolute paths: the segments after those of \<open>base\<close>, without the
  separators and dots around them.
\<close>

fun drop_components :: "nat \<Rightarrow> string list \<Rightarrow> string list" where
  "drop_components n [] = []"
| "drop_components n (s # segs) =
     (if skipped_segment s then drop_components n segs
      else case n of 0 \<Rightarrow> s # segs | Suc m \<Rightarrow> drop_components m segs)"

definition strip_prefix :: "string \<Rightarrow> string \<Rightarrow> string option" where
  "strip_prefix p base =
     (if path_starts_with p base
      then Some (join_with ''/'' (trim_back (drop_components (length (components base) - 1) (path_body p))))
      else None)"

section \<open>Hash maps keyed by paths\<close>

type_synonym 'v pmap = "(string \<times> 'v) list"

definition same_path :: "string \<Rightarrow> string \<Rightarrow> bool" where
  "same_path p q \<longleftrightarrow> components p = components q"

definition pm_get :: "'v pmap \<Rightarrow> string \<Rightarrow> 'v option" where
  "pm_get m p = map_option snd (find (\<lambda>e. same_path (fst e) p) m)"

definition pm_insert :: "string \<Rightarrow> 'v \<Rightarrow> 'v pmap \<Rightarrow> 'v pmap" where
  "pm_insert p v m =
     (if list_ex (\<lambda>e. same_path (fst e) p) m
      then map (\<lambda>e. if same_path (fst e) p then (fst e, v) else e) m
      else m @ [(p, v)])"

definition pm_remove :: "string \<Rightarrow> 'v pmap \<Rightarrow> 'v pmap" where
  "pm_remove p m = filter (\<lambda>e. \<not> same_path (fst e) p) m"

definition pm_ok :: "'v pmap \<Rightarrow> bool" where
  "pm_ok m \<longleftrightarrow> distinct (map (\<lambda>e. components (fst e)) m)"

section \<open>Components of joined paths\<close>

lemma skipped_simps [simp]: "skipped_segment []" "skipped_segment ''.''"
  by (simp_all add: skipped_segment_def)

lemma body_components_append [simp]:
  "body_components (xs @ ys) = body_components xs @ body_components ys"
  by (simp add: body_components_def)

lemma body_components_Cons:
  "body_components (s # segs) =
     (if skipped_segment s then body_components segs else component_of s # body_components segs)"
  by (simp add: body_components_def)

lemma body_components_Nil [simp]: "body_components [] = []"
  by (simp add: body_components_def)

lemma body_components_trim [simp]: "body_components (trim_back segs) = body_components segs"
proof (induction segs rule: rev_induct)
  case (snoc s segs)
  then show ?case by (simp add: trim_back_def body_components_Cons)
qed (simp add: trim_back_def)

lemma is_absolute_simps [simp]:
  "is_absolute (CHR ''/'' # p)" "\<not> is_absolute []" "is_absolute p \<Longrightarrow> is_absolute (p @ q)"
  by (auto simp: is_absolute_def take_Suc split: if_splits list.splits) (cases p; simp)

lemma is_absoluteE:
  assumes "is_absolute p" obtains b where "p = CHR ''/'' # b"
  using assms by (cases p) (auto simp: is_absolute_def)

lemma path_body_slash [simp]: "path_body (CHR ''/'' # b) = split_on (CHR ''/'') b"
  by (simp add: path_body_def)

lemma components_absolute:
  "is_absolute p \<Longrightarrow> components p = RootDir # body_components (path_body p)"
  by (simp add: components_def)

lemma path_join_absolute [simp]: "is_absolute p \<Longrightarrow> is_absolute (path_join p q)"
  by (simp add: path_join_def)

lemma components_join:
  assumes "is_absolute p" and "\<not> is_absolute q"
  shows "components (path_join p q) = components p @ body_components (path_body q)"
proof -
  from assms(1) obtain b where p: "p = CHR ''/'' # b" by (rule is_absoluteE)
  have q: "path_body q = split_on (CHR ''/'') q" using assms(2) by (simp add: path_body_def)
  show ?thesis
  proof (cases "b = [] \<or> last b \<noteq> CHR ''/''")
    case True
    then show ?thesis
      using assms p q
      by (auto simp: path_join_def components_absolute split_on_sep body_components_Cons)
  next
    case False
    then obtain b' where b: "b = b' @ ''/''" by (metis append_butlast_last_id)
    show ?thesis
      using assms p q split_on_sep [of "CHR ''/''" b' q] split_on_sep [of "CHR ''/''" b' "[]"]
      by (simp add: b path_join_def components_absolute body_components_Cons)
  qed
qed

lemma path_body_no_slash: "s \<in> set (path_body p) \<Longrightarrow> CHR ''/'' \<notin> set s"
  by (auto simp: path_body_def dest: split_on_pieces)

lemma components_slash_join:
  assumes "\<forall>s \<in> set segs. CHR ''/'' \<notin> set s"
  shows "components (CHR ''/'' # join_with ''/'' segs) = RootDir # body_components segs"
  using assms
  by (cases "segs = []")
    (simp_all add: components_absolute split_on_join body_components_Cons)

lemma set_trim_back: "set (trim_back segs) \<subseteq> set segs"
  unfolding trim_back_def by (auto dest: set_dropWhileD)

lemma trim_back_cases:
  "trim_back segs = [] \<or> (\<exists>ys s. trim_back segs = ys @ [s] \<and> \<not> skipped_segment s)"
  by (induction segs rule: rev_induct) (auto simp: trim_back_def)

lemma path_parent_components:
  assumes "is_absolute p"
  shows "path_parent_str p = None \<longleftrightarrow> components p = [RootDir]"
    and "path_parent_str p = Some d \<Longrightarrow> is_absolute d \<and> components d = butlast (components p)"
proof -
  let ?segs = "trim_back (path_body p)"
  have segs: "path_trim True xs = trim_back xs" for xs
    by (cases xs) (simp_all add: path_trim_def trim_back_def)
  have body: "body_components ?segs = body_components (path_body p)" by simp
  consider "?segs = []" | ys s where "?segs = ys @ [s]" "\<not> skipped_segment s"
    using trim_back_cases by blast
  note cases = this
  show "path_parent_str p = None \<longleftrightarrow> components p = [RootDir]"
    using cases
  proof cases
    case 1
    then show ?thesis using assms body by (simp add: path_parent_str_def segs components_absolute)
  next
    case 2
    have "body_components (path_body p) = body_components ys @ [component_of s]"
      using body 2 by (simp add: body_components_Cons)
    then show ?thesis
      using assms 2 by (simp add: path_parent_str_def segs components_absolute)
  qed
  assume d: "path_parent_str p = Some d"
  show "is_absolute d \<and> components d = butlast (components p)"
    using cases
  proof cases
    case 1
    then show ?thesis using assms d by (simp add: path_parent_str_def segs)
  next
    case 2
    have "\<forall>t \<in> set (trim_back ys). CHR ''/'' \<notin> set t"
      using 2 set_trim_back [of ys] set_trim_back [of "path_body p"] path_body_no_slash by force
    then have "components (CHR ''/'' # join_with ''/'' (trim_back ys)) = RootDir # body_components ys"
      by (simp add: components_slash_join)
    with 2 d body assms show ?thesis
      by (auto simp: path_parent_str_def segs components_absolute body_components_Cons
          simp flip: body)
  qed
qed

lemma components_join_name:
  assumes "is_absolute p" and "CHR ''/'' \<notin> set name" and "\<not> skipped_segment name"
  shows "components (path_join p name) = components p @ [component_of name]"
proof -
  have "\<not> is_absolute name" using assms(2) by (cases name) (auto simp: is_absolute_def)
  then show ?thesis
    using assms by (simp add: components_join path_body_def split_on_none body_components_Cons)
qed

lemma body_drop_components:
  "body_components (drop_components n segs) = drop n (body_components segs)"
  by (induction n segs rule: drop_components.induct) (simp_all add: body_components_Cons split: nat.splits)

lemma drop_components_head:
  "drop_components n segs = [] \<or> (\<exists>s ys. drop_components n segs = s # ys \<and> \<not> skipped_segment s)"
  by (induction n segs rule: drop_components.induct) (auto split: nat.splits)

lemma set_drop_components: "set (drop_components n segs) \<subseteq> set segs"
  by (induction n segs rule: drop_components.induct) (auto split: nat.splits)

lemma trim_back_Cons: "\<not> skipped_segment s \<Longrightarrow> \<exists>zs. trim_back (s # ys) = s # zs"
  by (auto simp: trim_back_def dropWhile_append
      intro: exI [of _ "rev (dropWhile skipped_segment (rev ys))"])

lemma strip_prefix_components:
  assumes "is_absolute dst" and "is_absolute src" and "path_starts_with p src" and "is_absolute p"
  shows "\<exists>rel. strip_prefix p src = Some rel \<and>
     components (path_join dst rel) = components dst @ drop (length (components src)) (components p)"
proof -
  let ?n = "length (components src) - 1"
  let ?segs = "trim_back (drop_components ?n (path_body p))"
  have no: "\<forall>s \<in> set ?segs. CHR ''/'' \<notin> set s"
    using set_trim_back set_drop_components path_body_no_slash by blast
  have head: "?segs = [] \<or> (\<exists>s ys. ?segs = s # ys \<and> \<not> skipped_segment s)"
    using drop_components_head [of ?n "path_body p"] trim_back_Cons by (metis trim_back_cases trim_back_def dropWhile.simps(1) rev.simps(1))
  have rel: "\<not> is_absolute (join_with ''/'' ?segs)"
  proof -
    have "join_with ''/'' (s # ys) = s @ (if ys = [] then [] else CHR ''/'' # join_with ''/'' ys)" for s ys
      by (cases ys) simp_all
    then show ?thesis
      using head no by (fastforce simp: is_absolute_def skipped_segment_def neq_Nil_conv)
  qed
  have "body_components (path_body (join_with ''/'' ?segs)) = body_components ?segs"
    using rel no by (cases "?segs = []")
      (simp_all add: path_body_def split_on_join body_components_Cons del: body_components_trim)
  then have "components (path_join dst (join_with ''/'' ?segs)) =
      components dst @ drop ?n (body_components (path_body p))"
    using assms rel by (simp add: components_join body_drop_components)
  then show ?thesis
    using assms by (simp add: strip_prefix_def components_absolute drop_Cons')
qed

section \<open>Laws of the maps\<close>

lemma same_path_simps [simp]: "same_path p p"
  by (simp add: same_path_def)

lemma pm_get_Nil [simp]: "pm_get [] p = None"
  by (simp add: pm_get_def)

lemma pm_get_Cons: "pm_get (e # m) p = (if same_path (fst e) p then Some (snd e) else pm_get m p)"
  by (simp add: pm_get_def)

lemma pm_get_append: "pm_get (m @ n) p = (case pm_get m p of None \<Rightarrow> pm_get n p | Some v \<Rightarrow> Some v)"
  by (induction m) (simp_all add: pm_get_Cons)

lemma pm_get_None: "pm_get m p = None \<longleftrightarrow> \<not> list_ex (\<lambda>e. same_path (fst e) p) m"
  by (induction m) (simp_all add: pm_get_Cons)

lemma pm_get_update:
  "pm_get (map (\<lambda>e. if same_path (fst e) p then (fst e, v) else e) m) q =
     (if same_path p q then map_option (\<lambda>_. v) (pm_get m q) else pm_get m q)"
  by (induction m) (auto simp: pm_get_Cons same_path_def)

lemma pm_get_cong: "same_path p q \<Longrightarrow> pm_get m p = pm_get m q"
  by (simp add: pm_get_def same_path_def)

lemma pm_get_insert [simp]:
  "pm_get (pm_insert p v m) q = (if same_path p q then Some v else pm_get m q)"
  using pm_get_None [of m p] pm_get_cong [of p q m]
  by (auto simp: pm_insert_def pm_get_update pm_get_append pm_get_Cons split: option.splits)

lemma pm_get_filter_keys:
  assumes "\<And>k. P k \<longleftrightarrow> Q (components k)"
  shows "pm_get (filter (\<lambda>e. P (fst e)) m) q = (if P q then pm_get m q else None)"
  by (induction m) (auto simp: pm_get_Cons same_path_def assms)

lemma pm_get_remove [simp]:
  "pm_get (pm_remove p m) q = (if same_path p q then None else pm_get m q)"
  using pm_get_filter_keys [of "\<lambda>k. \<not> same_path k p" "\<lambda>c. c \<noteq> components p" m q]
  by (auto simp: pm_remove_def same_path_def)

lemma pm_ok_filter [simp]: "pm_ok m \<Longrightarrow> pm_ok (filter P m)"
  by (auto simp: pm_ok_def intro: distinct_map_filter)

lemma pm_ok_remove [simp]: "pm_ok m \<Longrightarrow> pm_ok (pm_remove p m)"
  by (simp add: pm_remove_def)

lemma pm_ok_insert [simp]: "pm_ok m \<Longrightarrow> pm_ok (pm_insert p v m)"
  by (auto simp: pm_ok_def pm_insert_def list_ex_iff same_path_def o_def if_distrib [of fst]
      cong: if_cong)

lemma pm_ok_Nil [simp]: "pm_ok []"
  by (simp add: pm_ok_def)

lemma pm_get_SomeD: "pm_get m p = Some v \<Longrightarrow> \<exists>k. (k, v) \<in> set m \<and> same_path k p"
  by (induction m) (auto simp: pm_get_Cons split: if_splits)

lemma pm_get_mem: "pm_ok m \<Longrightarrow> (k, v) \<in> set m \<Longrightarrow> pm_get m k = Some v"
  by (induction m) (force simp: pm_get_Cons pm_ok_def same_path_def)+

lemma pm_get_filter:
  "pm_ok m \<Longrightarrow> pm_get (filter P m) q = Some v \<Longrightarrow> pm_get m q = Some v"
  by (metis (no_types, lifting) set_filter mem_Collect_eq pm_get_SomeD pm_get_cong pm_get_mem)

lemma length_pm_insert: "length (pm_insert p v m) \<le> Suc (length m)"
  by (simp add: pm_insert_def)

lemma length_pm_remove: "length (pm_remove p m) \<le> length m"
  by (simp add: pm_remove_def)

end
