(* ===== verification/Fuse_Cache.thy ===== *)
theory Fuse_Cache
  imports Path_Map Proxy_Ops
begin

text \<open>
  The caches of the FUSE layer (\<open>adbfs/src/cache.rs\<close>). An \<open>Instant\<close> is a number of
  milliseconds; \<open>elapsed\<close> saturates at zero, as subtraction of naturals does. The lock
  around each cache makes every operation one step.

  Both caches implement the interface \<open>ttl_cache\<close>: they return only what was stored under
  the path and has not been invalidated since. The clients of a cache use one consequence
  of it: whatever relation holds between the paths and the values stored holds of the
  values returned.
\<close>

section \<open>StatCache\<close>

definition MAX_ENTRIES :: nat where "MAX_ENTRIES = 8192"

record stat_cache =
  sc_inner :: "(stat \<times> nat) pmap"
  sc_ttl :: nat

definition sc_new :: "nat \<Rightarrow> stat_cache" where
  "sc_new ttl = \<lparr>sc_inner = [], sc_ttl = ttl\<rparr>"

definition sc_get :: "nat \<Rightarrow> string \<Rightarrow> stat_cache \<Rightarrow> stat option \<times> stat_cache" where
  "sc_get now path c =
     (case pm_get (sc_inner c) path of
        None \<Rightarrow> (None, c)
      | Some (s, time) \<Rightarrow>
          if now - time < sc_ttl c then (Some s, c)
          else (None, c\<lparr>sc_inner := pm_remove path (sc_inner c)\<rparr>))"

definition sc_put :: "nat \<Rightarrow> string \<Rightarrow> stat \<Rightarrow> stat_cache \<Rightarrow> stat_cache" where
  "sc_put now path s c =
     (let inner = sc_inner c;
          inner = (if length inner \<ge> MAX_ENTRIES
                   then let inner = filter (\<lambda>e. now - snd (snd e) < sc_ttl c) inner
                        in if length inner \<ge> MAX_ENTRIES then [] else inner
                   else inner)
      in c\<lparr>sc_inner := pm_insert path (s, now) inner\<rparr>)"

definition sc_invalidate :: "string \<Rightarrow> stat_cache \<Rightarrow> stat_cache" where
  "sc_invalidate path c = c\<lparr>sc_inner := pm_remove path (sc_inner c)\<rparr>"

definition sc_invalidate_prefix :: "string \<Rightarrow> stat_cache \<Rightarrow> stat_cache" where
  "sc_invalidate_prefix pre c =
     c\<lparr>sc_inner := filter (\<lambda>e. \<not> path_starts_with (fst e) pre) (sc_inner c)\<rparr>"

section \<open>DirCache\<close>

record dir_cache =
  dc_map :: "(dir_entry list \<times> nat) pmap"
  dc_order :: "string list"
  dc_epoch :: u64
  dc_ttl :: nat
  dc_capacity :: nat

definition dc_new :: "nat \<Rightarrow> nat \<Rightarrow> dir_cache" where
  "dc_new ttl capacity =
     \<lparr>dc_map = [], dc_order = [], dc_epoch = 0, dc_ttl = ttl, dc_capacity = max capacity 1\<rparr>"

definition remove_entry :: "string \<Rightarrow> dir_cache \<Rightarrow> dir_cache" where
  "remove_entry path c =
     c\<lparr>dc_map := pm_remove path (dc_map c),
       dc_order := filter (\<lambda>k. \<not> same_path k path) (dc_order c)\<rparr>"

definition dc_get :: "nat \<Rightarrow> string \<Rightarrow> dir_cache \<Rightarrow> dir_entry list option \<times> dir_cache" where
  "dc_get now path c =
     (case pm_get (dc_map c) path of
        None \<Rightarrow> (None, c)
      | Some (entries, time) \<Rightarrow>
          if now - time < dc_ttl c then (Some entries, c) else (None, remove_entry path c))"

text \<open>The eviction loop: it drops the oldest directories while the list is at capacity.\<close>

fun evict :: "nat \<Rightarrow> string list \<Rightarrow> (dir_entry list \<times> nat) pmap \<Rightarrow> string list \<times> (dir_entry list \<times> nat) pmap" where
  "evict capacity [] m = ([], m)"
| "evict capacity (oldest # order) m =
     (if length (oldest # order) \<ge> capacity then evict capacity order (pm_remove oldest m)
      else (oldest # order, m))"

definition drop_key :: "string \<Rightarrow> string list \<Rightarrow> string list" where
  "drop_key path order =
     (case position (\<lambda>k. same_path k path) order of
        Some pos \<Rightarrow> remove_at pos order
      | None \<Rightarrow> order)"

definition dc_put :: "nat \<Rightarrow> string \<Rightarrow> dir_entry list \<Rightarrow> u64 \<Rightarrow> dir_cache \<Rightarrow> dir_cache" where
  "dc_put now path entries epoch c =
     (if dc_epoch c \<noteq> epoch then c
      else let (order, m) = evict (dc_capacity c) (drop_key path (dc_order c)) (dc_map c)
           in c\<lparr>dc_order := order @ [path], dc_map := pm_insert path (entries, now) m\<rparr>)"

definition dc_invalidate :: "string \<Rightarrow> dir_cache \<Rightarrow> dir_cache" where
  "dc_invalidate path c = remove_entry path (c\<lparr>dc_epoch := dc_epoch c + 1\<rparr>)"

definition dc_invalidate_prefix :: "string \<Rightarrow> dir_cache \<Rightarrow> dir_cache" where
  "dc_invalidate_prefix pre c =
     (let dropped = filter (\<lambda>k. path_starts_with k pre) (map fst (dc_map c))
      in c\<lparr>dc_epoch := dc_epoch c + 1,
           dc_map := fold pm_remove dropped (dc_map c),
           dc_order := filter (\<lambda>k. \<not> list_ex (\<lambda>d. same_path d k) dropped) (dc_order c)\<rparr>)"

section \<open>The invariants\<close>

definition sc_inv :: "stat_cache \<Rightarrow> bool" where
  "sc_inv c \<longleftrightarrow> pm_ok (sc_inner c) \<and> length (sc_inner c) \<le> MAX_ENTRIES"

text \<open>The eviction order names exactly the cached directories, each once, within the capacity.\<close>

definition dc_inv :: "dir_cache \<Rightarrow> bool" where
  "dc_inv c \<longleftrightarrow> pm_ok (dc_map c) \<and> 0 < dc_capacity c \<and>
     distinct (map components (dc_order c)) \<and> length (dc_order c) \<le> dc_capacity c \<and>
     components ` set (dc_order c) = components ` fst ` set (dc_map c)"

section \<open>The interface of a cache\<close>

definition coherent :: "('c \<Rightarrow> string \<Rightarrow> 'v option) \<Rightarrow> (string \<Rightarrow> 'v \<Rightarrow> bool) \<Rightarrow> 'c \<Rightarrow> bool" where
  "coherent lookup R c \<longleftrightarrow> (\<forall>p v. lookup c p = Some v \<longrightarrow> R p v)"

locale ttl_cache =
  fixes lookup :: "'c \<Rightarrow> string \<Rightarrow> 'v option"
    and inv :: "'c \<Rightarrow> bool"
    and get :: "nat \<Rightarrow> string \<Rightarrow> 'c \<Rightarrow> 'v option \<times> 'c"
    and put :: "'e \<Rightarrow> nat \<Rightarrow> string \<Rightarrow> 'v \<Rightarrow> 'c \<Rightarrow> 'c"
    and invalidate invalidate_prefix :: "string \<Rightarrow> 'c \<Rightarrow> 'c"
  assumes get_returns: "inv c \<Longrightarrow> get now p c = (Some v, c') \<Longrightarrow> lookup c p = Some v"
    and get_drops: "inv c \<Longrightarrow> get now p c = (r, c') \<Longrightarrow> lookup c' q = Some v \<Longrightarrow> lookup c q = Some v"
    and put_adds: "inv c \<Longrightarrow> lookup (put e now p v c) q = Some w \<Longrightarrow>
      same_path p q \<and> w = v \<or> lookup c q = Some w"
    and lookup_invalidate: "inv c \<Longrightarrow>
      lookup (invalidate p c) q = (if same_path p q then None else lookup c q)"
    and lookup_invalidate_prefix: "inv c \<Longrightarrow>
      lookup (invalidate_prefix p c) q = (if path_starts_with q p then None else lookup c q)"
    and inv_get: "inv c \<Longrightarrow> inv (snd (get now p c))"
    and inv_put: "inv c \<Longrightarrow> inv (put e now p v c)"
    and inv_invalidate: "inv c \<Longrightarrow> inv (invalidate p c)"
    and inv_invalidate_prefix: "inv c \<Longrightarrow> inv (invalidate_prefix p c)"
begin

lemma coherent_get:
  assumes "inv c" and "coherent lookup R c" and "get now p c = (r, c')"
  shows "coherent lookup R c'" and "r = Some v \<Longrightarrow> R p v"
  using assms get_returns [of c now p v c'] get_drops [of c now p r c'] by (auto simp: coherent_def)

lemma coherent_put:
  assumes "inv c" and "coherent lookup R c" and "\<And>q. same_path p q \<Longrightarrow> R q v"
  shows "coherent lookup R (put e now p v c)"
  using assms put_adds unfolding coherent_def by blast

lemma coherent_invalidate:
  assumes "inv c" and "coherent lookup R c" and "\<And>q v. \<not> same_path p q \<Longrightarrow> R q v \<Longrightarrow> R' q v"
  shows "coherent lookup R' (invalidate p c)"
  using assms by (auto simp: coherent_def lookup_invalidate split: if_splits)

lemma coherent_invalidate_prefix:
  assumes "inv c" and "coherent lookup R c" and "\<And>q v. \<not> path_starts_with q p \<Longrightarrow> R q v \<Longrightarrow> R' q v"
  shows "coherent lookup R' (invalidate_prefix p c)"
  using assms by (auto simp: coherent_def lookup_invalidate_prefix split: if_splits)

lemma get_after_invalidate: "inv c \<Longrightarrow> fst (get now p (invalidate p c)) = None"
  using get_returns [of "invalidate p c" now p] lookup_invalidate [of c p p] inv_invalidate [of c p]
  by (cases "get now p (invalidate p c)"; cases "fst (get now p (invalidate p c))") auto

end

section \<open>StatCache implements it\<close>

definition sc_lookup :: "stat_cache \<Rightarrow> string \<Rightarrow> stat option" where
  "sc_lookup c p = map_option fst (pm_get (sc_inner c) p)"

lemma path_starts_with_key:
  "pm_get (filter (\<lambda>e. \<not> path_starts_with (fst e) pre) m) q =
     (if path_starts_with q pre then None else pm_get m q)"
  using pm_get_filter_keys [of "\<lambda>k. \<not> path_starts_with k pre"
      "\<lambda>c. take (length (components pre)) c \<noteq> components pre" m q]
  by (simp add: path_starts_with_def)

lemma sc_inv_put [simp]:
  assumes "sc_inv c" shows "sc_inv (sc_put now p s c)"
proof -
  have "length (pm_insert p v m) \<le> MAX_ENTRIES" if "length m < MAX_ENTRIES" for m :: "(stat \<times> nat) pmap" and v
    using that length_pm_insert [of p v m] by simp
  then show ?thesis
    using assms by (auto simp: sc_inv_def sc_put_def Let_def not_le MAX_ENTRIES_def)
qed

interpretation sc: ttl_cache sc_lookup sc_inv sc_get "\<lambda>_ :: unit. sc_put" sc_invalidate sc_invalidate_prefix
proof
  fix c :: stat_cache and now p q v w c' r
  assume inv: "sc_inv c"
  then have ok: "pm_ok (sc_inner c)" by (simp add: sc_inv_def)
  show "sc_get now p c = (Some v, c') \<Longrightarrow> sc_lookup c p = Some v"
    by (auto simp: sc_get_def sc_lookup_def split: option.splits prod.splits if_splits)
  show "sc_get now p c = (r, c') \<Longrightarrow> sc_lookup c' q = Some v \<Longrightarrow> sc_lookup c q = Some v"
    by (auto simp: sc_get_def sc_lookup_def split: option.splits prod.splits if_splits)
  show "sc_lookup (sc_put now p v c) q = Some w \<Longrightarrow> same_path p q \<and> w = v \<or> sc_lookup c q = Some w"
    using pm_get_filter [OF ok]
    by (auto simp: sc_put_def sc_lookup_def Let_def split: if_splits)
  show "sc_lookup (sc_invalidate p c) q = (if same_path p q then None else sc_lookup c q)"
    by (simp add: sc_lookup_def sc_invalidate_def)
  show "sc_lookup (sc_invalidate_prefix p c) q = (if path_starts_with q p then None else sc_lookup c q)"
    by (simp add: sc_lookup_def sc_invalidate_prefix_def path_starts_with_key)
  show "sc_inv (snd (sc_get now p c))"
    using inv length_pm_remove [of p "sc_inner c"]
    by (auto simp: sc_inv_def sc_get_def split: option.splits)
  show "sc_inv (sc_put now p v c)" using inv by simp
  show "sc_inv (sc_invalidate p c)"
    using inv length_pm_remove [of p "sc_inner c"] by (auto simp: sc_inv_def sc_invalidate_def)
  show "sc_inv (sc_invalidate_prefix p c)"
    using inv by (auto simp: sc_inv_def sc_invalidate_prefix_def intro: le_trans [OF length_filter_le])
qed

section \<open>DirCache implements it\<close>

definition dc_lookup :: "dir_cache \<Rightarrow> string \<Rightarrow> dir_entry list option" where
  "dc_lookup c p = map_option fst (pm_get (dc_map c) p)"

lemma components_keys_remove:
  "components ` fst ` set (pm_remove p m) = components ` fst ` set m - {components p}"
  by (force simp: pm_remove_def same_path_def)

lemma components_keys_insert:
  "components ` fst ` set (pm_insert p v m) = insert (components p) (components ` fst ` set m)"
proof (cases "list_ex (\<lambda>e. same_path (fst e) p) m")
  case True
  then have "components p \<in> components ` fst ` set m" by (auto simp: list_ex_iff same_path_def) (metis fst_conv image_eqI)
  moreover have "map fst (pm_insert p v m) = map fst m"
    using True by (auto simp: pm_insert_def)
  then have "fst ` set (pm_insert p v m) = fst ` set m" by (metis list.set_map)
  ultimately show ?thesis by auto
next
  case False
  then show ?thesis by (auto simp: pm_insert_def)
qed

lemma pm_fold_remove:
  "pm_ok m \<Longrightarrow> pm_ok (fold pm_remove ps m)"
  "pm_get (fold pm_remove ps m) q = (if \<exists>p \<in> set ps. same_path p q then None else pm_get m q)"
  "components ` fst ` set (fold pm_remove ps m) = components ` fst ` set m - components ` set ps"
  by (induction ps arbitrary: m) (auto simp: components_keys_remove)

lemma evict_eq:
  "0 < capacity \<Longrightarrow> evict capacity order m =
     (drop (Suc (length order) - capacity) order,
      fold pm_remove (take (Suc (length order) - capacity) order) m)"
proof (induction capacity order m rule: evict.induct)
  case (2 capacity oldest order m)
  then show ?case by (cases "capacity \<le> Suc (length order)") (auto simp: Suc_diff_le)
qed simp

lemma drop_key:
  assumes "distinct (map components order)"
  shows "distinct (map components (drop_key path order)) \<and>
    components ` set (drop_key path order) = components ` set order - {components path} \<and>
    length (drop_key path order) \<le> length order"
proof (cases "position (\<lambda>k. same_path k path) order")
  case None
  then have "\<forall>k \<in> set order. components k \<noteq> components path"
    by (simp add: position_None same_path_def)
  then show ?thesis using assms None by (auto simp: drop_key_def)
next
  case (Some pos)
  then obtain ys x zs where "order = ys @ x # zs" "remove_at pos order = ys @ zs" "same_path x path"
    by (rule position_split) auto
  then show ?thesis using assms Some by (auto simp: drop_key_def same_path_def) (metis image_eqI)+
qed

lemma components_take_drop:
  "distinct (map components xs) \<Longrightarrow>
     components ` set (drop n xs) = components ` set xs - components ` set (take n xs)"
  by (subst (2) append_take_drop_id [symmetric, of xs n], simp only: set_append image_Un)
    (metis Diff_triv Un_Diff Diff_cancel Un_empty_left append_take_drop_id distinct_append inf_commute
      list.set_map map_append)

lemma dc_inv_put [simp]:
  assumes "dc_inv c" shows "dc_inv (dc_put now path entries e c)"
proof (cases "dc_epoch c = e")
  case True
  define rest where "rest = drop_key path (dc_order c)"
  define k where "k = Suc (length rest) - dc_capacity c"
  note rest = drop_key [of "dc_order c" path, folded rest_def]
  have put: "dc_put now path entries e c =
      c\<lparr>dc_order := drop k rest @ [path],
        dc_map := pm_insert path (entries, now) (fold pm_remove (take k rest) (dc_map c))\<rparr>"
    using True assms by (simp add: dc_put_def evict_eq dc_inv_def k_def Let_def flip: rest_def)
  have dist: "distinct (map components (drop k rest @ [path]))"
    using rest assms by (auto simp: dc_inv_def drop_map [symmetric] simp flip: set_map dest: in_set_dropD)
  have len: "length (drop k rest @ [path]) \<le> dc_capacity c"
    using assms rest by (auto simp: k_def dc_inv_def)
  have "components ` set (drop k rest @ [path]) =
      insert (components path) (components ` set (dc_order c) - components ` set (take k rest))"
    using components_take_drop [of rest k] rest assms by (auto simp: dc_inv_def)
  with dist len show ?thesis
    using assms
    by (simp add: put dc_inv_def pm_fold_remove components_keys_insert)
next
  case False
  then show ?thesis using assms by (simp add: dc_put_def)
qed

lemma components_filter:
  "components ` set (filter (\<lambda>k. Q (components k)) ks) = {c \<in> components ` set ks. Q c}"
  by auto

lemma dc_inv_remove_entry:
  assumes "dc_inv c" shows "dc_inv (remove_entry path c)"
proof -
  have "components ` set (filter (\<lambda>k. \<not> same_path k path) (dc_order c)) =
      components ` set (dc_order c) - {components path}"
    using components_filter [of "\<lambda>x. x \<noteq> components path" "dc_order c"] by (auto simp: same_path_def)
  then show ?thesis
    using assms
    by (auto simp: dc_inv_def remove_entry_def components_keys_remove
        intro: distinct_map_filter le_trans [OF length_filter_le])
qed

lemma dc_invalidate_prefix_map:
  assumes "dc_inv c"
  shows "pm_get (dc_map (dc_invalidate_prefix p c)) q =
    (if path_starts_with q p then None else pm_get (dc_map c) q)"
proof -
  have "(\<exists>k \<in> set (filter (\<lambda>k. path_starts_with k p) (map fst (dc_map c))). same_path k q) \<longleftrightarrow>
      path_starts_with q p \<and> pm_get (dc_map c) q \<noteq> None"
    by (auto simp: path_starts_with_def same_path_def pm_get_None list_ex_iff) (metis fst_conv)+
  then show ?thesis
    by (auto simp: dc_invalidate_prefix_def Let_def pm_fold_remove)
qed

lemma list_ex_same_path: "list_ex (\<lambda>d. same_path d k) ks \<longleftrightarrow> components k \<in> components ` set ks"
  by (induction ks) (auto simp: same_path_def)

lemma dc_inv_invalidate_prefix:
  assumes "dc_inv c" shows "dc_inv (dc_invalidate_prefix p c)"
proof -
  let ?dropped = "filter (\<lambda>k. path_starts_with k p) (map fst (dc_map c))"
  have "components ` set (filter (\<lambda>k. \<not> list_ex (\<lambda>d. same_path d k) ?dropped) (dc_order c)) =
      components ` set (dc_order c) - components ` set ?dropped"
    using components_filter [of "\<lambda>x. x \<notin> components ` set ?dropped" "dc_order c"]
    by (simp only: list_ex_same_path set_diff_eq)
  then show ?thesis
    using assms
    unfolding dc_inv_def dc_invalidate_prefix_def Let_def
    by (simp add: pm_fold_remove distinct_map_filter le_trans [OF length_filter_le] del: set_filter)
qed

interpretation dc: ttl_cache dc_lookup dc_inv dc_get "\<lambda>e now p v. dc_put now p v e"
    dc_invalidate dc_invalidate_prefix
proof
  fix c :: dir_cache and now p q v w c' r e
  assume inv: "dc_inv c"
  then have ok: "pm_ok (dc_map c)" "0 < dc_capacity c" by (simp_all add: dc_inv_def)
  show "dc_get now p c = (Some v, c') \<Longrightarrow> dc_lookup c p = Some v"
    by (auto simp: dc_get_def dc_lookup_def split: option.splits prod.splits if_splits)
  show "dc_get now p c = (r, c') \<Longrightarrow> dc_lookup c' q = Some v \<Longrightarrow> dc_lookup c q = Some v"
    by (auto simp: dc_get_def dc_lookup_def remove_entry_def split: option.splits prod.splits if_splits)
  show "dc_lookup (dc_put now p v e c) q = Some w \<Longrightarrow> same_path p q \<and> w = v \<or> dc_lookup c q = Some w"
    using ok by (auto simp: dc_put_def evict_eq dc_lookup_def pm_fold_remove split: if_splits)
  show "dc_lookup (dc_invalidate p c) q = (if same_path p q then None else dc_lookup c q)"
    by (simp add: dc_lookup_def dc_invalidate_def remove_entry_def)
  show "dc_lookup (dc_invalidate_prefix p c) q = (if path_starts_with q p then None else dc_lookup c q)"
    using inv by (simp add: dc_lookup_def dc_invalidate_prefix_map)
  show "dc_inv (snd (dc_get now p c))"
    using inv by (auto simp: dc_get_def dc_inv_remove_entry split: option.splits)
  show "dc_inv (dc_put now p v e c)" using inv by simp
  show "dc_inv (dc_invalidate p c)"
    using inv by (auto simp: dc_invalidate_def intro!: dc_inv_remove_entry) (simp add: dc_inv_def)
  show "dc_inv (dc_invalidate_prefix p c)" using inv by (rule dc_inv_invalidate_prefix)
qed

section \<open>Sequences of operations\<close>

text \<open>
  Between the moment a handler reads the epoch and the moment it stores its listing, other
  threads run any sequence of operations on the cache.
\<close>

datatype dc_op =
    DGet nat string
  | DPut nat string "dir_entry list" u64
  | DInvalidate string
  | DInvalidatePrefix string

fun dc_apply :: "dc_op \<Rightarrow> dir_cache \<Rightarrow> dir_cache" where
  "dc_apply (DGet now p) c = snd (dc_get now p c)"
| "dc_apply (DPut now p v e) c = dc_put now p v e c"
| "dc_apply (DInvalidate p) c = dc_invalidate p c"
| "dc_apply (DInvalidatePrefix p) c = dc_invalidate_prefix p c"

fun is_invalidation :: "dc_op \<Rightarrow> bool" where
  "is_invalidation (DInvalidate p) = True"
| "is_invalidation (DInvalidatePrefix p) = True"
| "is_invalidation _ = False"

lemma dc_apply_epoch:
  "dc_epoch (dc_apply x c) = (if is_invalidation x then dc_epoch c + 1 else dc_epoch c)"
  by (cases x) (auto simp: dc_get_def dc_put_def dc_invalidate_def remove_entry_def
      dc_invalidate_prefix_def Let_def split: option.splits prod.splits)

lemma dc_fold_epoch:
  "dc_epoch (fold dc_apply xs c) = dc_epoch c + word_of_nat (length (filter is_invalidation xs))"
  by (induction xs arbitrary: c) (auto simp: dc_apply_epoch)

lemma dc_fold_inv: "dc_inv c \<Longrightarrow> dc_inv (fold dc_apply xs c)"
proof (induction xs arbitrary: c)
  case (Cons x xs)
  have "dc_inv (dc_apply x c)"
    using Cons.prems dc.inv_get dc.inv_put dc.inv_invalidate dc.inv_invalidate_prefix
    by (cases x) auto
  with Cons.IH show ?case by simp
qed simp

lemma dc_capacity_ops [simp]:
  "dc_capacity (snd (dc_get now p c)) = dc_capacity c"
  "dc_capacity (dc_put now p v e c) = dc_capacity c"
  "dc_capacity (dc_invalidate p c) = dc_capacity c"
  "dc_capacity (dc_invalidate_prefix p c) = dc_capacity c"
  by (simp_all add: dc_get_def dc_put_def dc_invalidate_def remove_entry_def dc_invalidate_prefix_def
      Let_def case_prod_beta split: option.split)

lemma dc_inv_length:
  assumes inv: "dc_inv c" shows "length (dc_map c) \<le> dc_capacity c"
proof -
  have "length (dc_map c) = card (components ` fst ` set (dc_map c))"
    using inv distinct_card [of "map (\<lambda>e. components (fst e)) (dc_map c)"]
    by (simp add: dc_inv_def pm_ok_def image_image)
  also have "\<dots> = card (set (map components (dc_order c)))"
    using inv by (simp add: dc_inv_def)
  also have "\<dots> \<le> length (dc_order c)" using card_length [of "map components (dc_order c)"] by simp
  finally show ?thesis using inv by (simp add: dc_inv_def)
qed

lemma dc_inv_new: "dc_inv (dc_new ttl capacity)"
  by (simp add: dc_inv_def dc_new_def)

lemma sc_inv_new: "sc_inv (sc_new ttl)"
  by (simp add: sc_inv_def sc_new_def)

lemma epoch_moves:
  assumes "0 < n" and "n < 2 ^ 64"
  shows "(e :: u64) + word_of_nat n \<noteq> e"
  using assms by (auto simp: word_of_nat_eq_0_iff dest: nat_dvd_not_less)

end
