(* ===== verification/Fuse_Fs.thy ===== *)
theory Fuse_Fs
  imports Fuse_Cache Proxy_Client Device_Proxy
begin

text \<open>
  The FUSE filesystem (\<open>adbfs/src/filesystem.rs\<close>). A handler is a function on the state of
  \<open>Adbfs\<close> and of the proxy thread, and returns the reply it sends to the kernel. The
  operations of \<open>SyncProxy\<close> are the fields of a record; \<open>sync_proxy\<close> is that record for the
  client of \<open>Proxy_Client\<close>, whose requests the proxy thread runs one at a time. The clock
  is read off the state of the proxy thread, since time passes while a handler waits for
  it. The directory buffer of \<open>fuser\<close> is a parameter: \<open>add\<close> says whether the buffer was full
  and gives the buffer back.

  The two counters are natural numbers whose low 64 bits are the value of the atomic.
\<close>

section \<open>The proxy thread\<close>

record 's sync_proxy =
  sp_now :: "'s \<Rightarrow> nat"
  sp_stat :: "string \<Rightarrow> 's \<Rightarrow> (proxy_error + stat) \<times> 's"
  sp_lstat :: "string \<Rightarrow> 's \<Rightarrow> (proxy_error + stat) \<times> 's"
  sp_readlink :: "string \<Rightarrow> 's \<Rightarrow> (proxy_error + bytes) \<times> 's"
  sp_symlink :: "bytes \<Rightarrow> bytes \<Rightarrow> 's \<Rightarrow> (proxy_error + unit) \<times> 's"
  sp_listdir :: "string \<Rightarrow> 's \<Rightarrow> ((proxy_error + dir_entry list) \<times> 's) option"
  sp_open :: "string \<Rightarrow> u32 \<Rightarrow> u32 \<Rightarrow> 's \<Rightarrow> (proxy_error + pfile) \<times> 's"
  sp_read_at :: "pfile \<Rightarrow> u64 \<Rightarrow> u32 \<Rightarrow> 's \<Rightarrow> (proxy_error + bytes) \<times> 's"
  sp_write_at :: "pfile \<Rightarrow> u64 \<Rightarrow> bytes \<Rightarrow> 's \<Rightarrow> (proxy_error + unit) \<times> 's"
  sp_close :: "pfile \<Rightarrow> 's \<Rightarrow> (proxy_error + unit) \<times> 's"
  sp_mkdir :: "string \<Rightarrow> u32 \<Rightarrow> 's \<Rightarrow> (proxy_error + unit) \<times> 's"
  sp_unlink :: "string \<Rightarrow> 's \<Rightarrow> (proxy_error + unit) \<times> 's"
  sp_rmdir :: "string \<Rightarrow> 's \<Rightarrow> (proxy_error + unit) \<times> 's"
  sp_rename :: "string \<Rightarrow> string \<Rightarrow> 's \<Rightarrow> (proxy_error + unit) \<times> 's"
  sp_truncate :: "string \<Rightarrow> u64 \<Rightarrow> 's \<Rightarrow> (proxy_error + unit) \<times> 's"
  sp_fstat :: "pfile \<Rightarrow> 's \<Rightarrow> (proxy_error + stat) \<times> 's"

definition sync_proxy ::
  "nat \<Rightarrow> 'n net \<Rightarrow> (nat \<Rightarrow> 'n client \<Rightarrow> 'n client) \<Rightarrow> ('n client \<Rightarrow> nat) \<Rightarrow> 'n client sync_proxy" where
  "sync_proxy fuel N env now =
     \<lparr>sp_now = now,
      sp_stat = cl_stat N,
      sp_lstat = cl_lstat N,
      sp_readlink = cl_readlink N,
      sp_symlink = cl_symlink N,
      sp_listdir = cl_listdir fuel N,
      sp_open = cl_open N,
      sp_read_at = read_at N,
      sp_write_at = write_at N,
      sp_close = (\<lambda>f cl. let (r, f, cl) = file_close N f cl in (r, snd (file_drop N env True 1 f cl))),
      sp_mkdir = cl_mkdir N,
      sp_unlink = cl_unlink N,
      sp_rmdir = cl_rmdir N,
      sp_rename = cl_rename N,
      sp_truncate = cl_truncate N,
      sp_fstat = file_stat N\<rparr>"

text \<open>\<open>SyncProxy::start\<close>: connect until it works; \<open>None\<close> when the device has not answered yet.\<close>

fun start_proxy :: "nat \<Rightarrow> 'n net \<Rightarrow> nat \<Rightarrow> 'n \<Rightarrow> 'n client option" where
  "start_proxy 0 N max_conns n = None"
| "start_proxy (Suc fuel) N max_conns n =
     (case connect N max_conns n of
        (Inr c, n) \<Rightarrow> Some c
      | (Inl e, n) \<Rightarrow> start_proxy fuel N max_conns n)"

section \<open>State, replies and attributes\<close>

definition TTL :: nat where "TTL = 2000"
definition DIR_TTL :: nat where "DIR_TTL = 2000"
definition DIR_CACHE_CAPACITY :: nat where "DIR_CACHE_CAPACITY = 8"
definition BLOCK_SIZE :: u32 where "BLOCK_SIZE = 4096"
definition ADB_UID :: u32 where "ADB_UID = 2000"
definition ADB_GID :: u32 where "ADB_GID = 2000"

abbreviation ROOT_INO :: u64 where
  "ROOT_INO \<equiv> 1"

datatype file_type = Directory | Symlink | RegularFile

record file_attr =
  a_ino :: u64
  a_size :: u64
  a_blocks :: u64
  a_atime :: nat
  a_mtime :: nat
  a_ctime :: nat
  a_crtime :: nat
  a_kind :: file_type
  a_perm :: u16
  a_nlink :: u32
  a_uid :: u32
  a_gid :: u32
  a_rdev :: u32
  a_blksize :: u32
  a_flags :: u32

datatype fuse_errno =
    E_INVAL | E_NOENT | E_ACCES | E_ISDIR | E_NOTDIR | E_EXIST | E_NOTEMPTY | E_NOSPC
  | E_NAMETOOLONG | E_AGAIN | E_IO | E_BADF | E_NOSYS

datatype 'b fuse_reply =
    RError fuse_errno
  | REntry nat file_attr u64
  | RAttr nat file_attr
  | RDirectory 'b
  | RData bytes
  | ROpened u64 u32
  | RWritten u32
  | RCreated nat file_attr u64 u64 u32
  | RStatfs u64 u64 u64 u64 u64 u32 u32 u32
  | ROk

record adbfs =
  fs_cache :: stat_cache
  fs_dir_cache :: dir_cache
  ino_to_path :: "u64 \<rightharpoonup> string"
  path_to_ino :: "u64 pmap"
  next_ino :: nat
  open_files :: "u64 \<rightharpoonup> pfile"
  next_fh :: nat

definition with_proxy :: adbfs where
  "with_proxy =
     \<lparr>fs_cache = sc_new TTL,
      fs_dir_cache = dc_new DIR_TTL DIR_CACHE_CAPACITY,
      ino_to_path = [ROOT_INO \<mapsto> ''/''],
      path_to_ino = pm_insert ''/'' ROOT_INO [],
      next_ino = 100,
      open_files = Map.empty,
      next_fh = 1\<rparr>"

definition path_to_string :: "string \<Rightarrow> string option" where
  "path_to_string p = to_str p"

definition invalidate_parent_listing :: "string \<Rightarrow> adbfs \<Rightarrow> adbfs" where
  "invalidate_parent_listing path fs =
     (case path_parent_str path of
        None \<Rightarrow> fs
      | Some parent \<Rightarrow>
          fs\<lparr>fs_dir_cache := dc_invalidate parent (fs_dir_cache fs),
             fs_cache := sc_invalidate parent (fs_cache fs)\<rparr>)"

definition invalidate_after_rename :: "string \<Rightarrow> string \<Rightarrow> bool \<Rightarrow> adbfs \<Rightarrow> adbfs" where
  "invalidate_after_rename src dst is_dir fs =
     (let fs = invalidate_parent_listing dst (invalidate_parent_listing src fs)
      in if is_dir
         then fs\<lparr>fs_cache := sc_invalidate_prefix dst (sc_invalidate_prefix src (fs_cache fs)),
                 fs_dir_cache := dc_invalidate_prefix dst (dc_invalidate_prefix src (fs_dir_cache fs))\<rparr>
         else fs\<lparr>fs_cache := sc_invalidate dst (sc_invalidate src (fs_cache fs))\<rparr>)"

definition forget_ino :: "u64 \<Rightarrow> adbfs \<Rightarrow> adbfs" where
  "forget_ino ino fs =
     (if ino = ROOT_INO then fs
      else case ino_to_path fs ino of
             None \<Rightarrow> fs
           | Some path \<Rightarrow>
               fs\<lparr>ino_to_path := (ino_to_path fs)(ino := None),
                  path_to_ino := pm_remove path (path_to_ino fs)\<rparr>)"

definition ino_for :: "string \<Rightarrow> adbfs \<Rightarrow> u64 \<times> adbfs" where
  "ino_for path fs =
     (case pm_get (path_to_ino fs) path of
        Some ino \<Rightarrow> (ino, fs)
      | None \<Rightarrow>
          (let ino = word_of_nat (next_ino fs)
           in (ino, fs\<lparr>next_ino := next_ino fs + 1,
                       path_to_ino := pm_insert path ino (path_to_ino fs),
                       ino_to_path := (ino_to_path fs)(ino \<mapsto> path)\<rparr>)))"

definition kind_from_mode :: "u32 \<Rightarrow> file_type" where
  "kind_from_mode mode =
     (if mode_is_dir mode then Directory
      else if mode_is_symlink mode then Symlink
      else RegularFile)"

text \<open>\<open>stat.mtime.max(0) as u64\<close>: seconds since the epoch of a signed time.\<close>

definition epoch_secs :: "u64 \<Rightarrow> nat" where
  "epoch_secs t = nat (max (sint t) 0)"

definition attr_from_stat :: "u64 \<Rightarrow> stat \<Rightarrow> file_attr" where
  "attr_from_stat ino s =
     \<lparr>a_ino = ino,
      a_size = s_size s,
      a_blocks = s_blocks s,
      a_atime = epoch_secs (s_atime s),
      a_mtime = epoch_secs (s_mtime s),
      a_ctime = epoch_secs (s_ctime s),
      a_crtime = epoch_secs (s_ctime s),
      a_kind = kind_from_mode (s_mode s),
      a_perm = ucast (mode_permissions (s_mode s)),
      a_nlink = s_nlink s,
      a_uid = ADB_UID,
      a_gid = ADB_GID,
      a_rdev = 0,
      a_blksize = max (s_blksize s) BLOCK_SIZE,
      a_flags = 0\<rparr>"

definition resolve_child :: "u64 \<Rightarrow> string \<Rightarrow> adbfs \<Rightarrow> string option" where
  "resolve_child parent name fs =
     (case ino_to_path fs parent of
        None \<Rightarrow> None
      | Some p \<Rightarrow> Some (path_join p name))"

definition adopt_listing_entry :: "nat \<Rightarrow> string \<Rightarrow> dir_entry \<Rightarrow> bool \<Rightarrow> adbfs \<Rightarrow> u64 \<times> adbfs" where
  "adopt_listing_entry now parent entry fresh fs =
     (let child_path = path_join parent (de_name entry);
          (ino, fs) = ino_for child_path fs
      in (ino, if fresh then fs\<lparr>fs_cache := sc_put now child_path (de_stat entry) (fs_cache fs)\<rparr>
               else fs))"

fun proxy_to_errno :: "proxy_error \<Rightarrow> fuse_errno" where
  "proxy_to_errno (PStatus NotFound _) = E_NOENT"
| "proxy_to_errno (PStatus PermissionDenied _) = E_ACCES"
| "proxy_to_errno (PStatus IsDir _) = E_ISDIR"
| "proxy_to_errno (PStatus NotDir _) = E_NOTDIR"
| "proxy_to_errno (PStatus Exists _) = E_EXIST"
| "proxy_to_errno (PStatus NotEmpty _) = E_NOTEMPTY"
| "proxy_to_errno (PStatus NoSpace _) = E_NOSPC"
| "proxy_to_errno (PStatus NameTooLong _) = E_NAMETOOLONG"
| "proxy_to_errno (PStatus InvalidArg _) = E_INVAL"
| "proxy_to_errno PBusy = E_AGAIN"
| "proxy_to_errno _ = E_IO"

section \<open>The handlers\<close>

text \<open>\<open>let Some(x) = e else { reply.error(EINVAL); return; }\<close>\<close>

definition or_einval ::
  "'a option \<Rightarrow> adbfs \<times> 's \<Rightarrow> ('a \<Rightarrow> 'b fuse_reply \<times> adbfs \<times> 's) \<Rightarrow> 'b fuse_reply \<times> adbfs \<times> 's" where
  "or_einval x st k = (case x of None \<Rightarrow> (RError E_INVAL, st) | Some a \<Rightarrow> k a)"

definition cache_put :: "nat \<Rightarrow> string \<Rightarrow> stat \<Rightarrow> adbfs \<Rightarrow> adbfs" where
  "cache_put now path s fs = fs\<lparr>fs_cache := sc_put now path s (fs_cache fs)\<rparr>"

definition cache_invalidate :: "string \<Rightarrow> adbfs \<Rightarrow> adbfs" where
  "cache_invalidate path fs = fs\<lparr>fs_cache := sc_invalidate path (fs_cache fs)\<rparr>"

definition fs_lookup ::
  "'s sync_proxy \<Rightarrow> u64 \<Rightarrow> string \<Rightarrow> adbfs \<times> 's \<Rightarrow> 'b fuse_reply \<times> adbfs \<times> 's" where
  "fs_lookup P parent name st =
     (case st of (fs, s) \<Rightarrow>
      or_einval (resolve_child parent name fs) st (\<lambda>path.
      or_einval (path_to_string path) st (\<lambda>path_str.
        case sp_lstat P path_str s of
          (Inr stat, s) \<Rightarrow>
            (let fs = cache_put (sp_now P s) path stat fs;
                 (ino, fs) = ino_for path fs
             in (REntry TTL (attr_from_stat ino stat) 0, fs, s))
        | (Inl e, s) \<Rightarrow> (RError (proxy_to_errno e), fs, s))))"

definition fs_forget :: "u64 \<Rightarrow> adbfs \<times> 's \<Rightarrow> adbfs \<times> 's" where
  "fs_forget ino st = (forget_ino ino (fst st), snd st)"

definition open_handle :: "u64 option \<Rightarrow> adbfs \<Rightarrow> pfile option" where
  "open_handle fh fs = Option.bind fh (open_files fs)"

definition fs_getattr ::
  "'s sync_proxy \<Rightarrow> u64 \<Rightarrow> u64 option \<Rightarrow> adbfs \<times> 's \<Rightarrow> 'b fuse_reply \<times> adbfs \<times> 's" where
  "fs_getattr P ino fh st =
     (case st of (fs, s) \<Rightarrow>
      or_einval (ino_to_path fs ino) st (\<lambda>path.
        case open_handle fh fs of
          Some f \<Rightarrow>
            (case sp_fstat P f s of
               (Inr stat, s) \<Rightarrow> (RAttr TTL (attr_from_stat ino stat), fs, s)
             | (Inl e, s) \<Rightarrow> (RError (proxy_to_errno e), fs, s))
        | None \<Rightarrow>
            (let (cached, c) = sc_get (sp_now P s) path (fs_cache fs);
                 fs = fs\<lparr>fs_cache := c\<rparr>
             in case cached of
                  Some stat \<Rightarrow> (RAttr TTL (attr_from_stat ino stat), fs, s)
                | None \<Rightarrow>
                    or_einval (path_to_string path) (fs, s) (\<lambda>path_str.
                      case sp_lstat P path_str s of
                        (Inr stat, s) \<Rightarrow>
                          (RAttr TTL (attr_from_stat ino stat), cache_put (sp_now P s) path stat fs, s)
                      | (Inl e, s) \<Rightarrow> (RError (proxy_to_errno e), fs, s)))))"

text \<open>
  \<open>readdir\<close>. The loop hands every entry from position \<open>n\<close> on to the buffer, with the
  offset of the entry after it, and ignores whether the buffer had room.
\<close>

fun readdir_loop ::
  "('b \<Rightarrow> u64 \<Rightarrow> u64 \<Rightarrow> file_type \<Rightarrow> string \<Rightarrow> bool \<times> 'b) \<Rightarrow> nat \<Rightarrow> string \<Rightarrow> bool \<Rightarrow>
     nat \<Rightarrow> dir_entry list \<Rightarrow> 'b \<Rightarrow> adbfs \<Rightarrow> 'b \<times> adbfs" where
  "readdir_loop add now path fresh n [] b fs = (b, fs)"
| "readdir_loop add now path fresh n (entry # entries) b fs =
     (let (child_ino, fs) = adopt_listing_entry now path entry fresh fs;
          kind = kind_from_mode (s_mode (de_stat entry));
          (full, b) = add b child_ino (word_of_nat n + 3) kind (de_name entry)
      in readdir_loop add now path fresh (Suc n) entries b fs)"

definition readdir_reply ::
  "('b \<Rightarrow> u64 \<Rightarrow> u64 \<Rightarrow> file_type \<Rightarrow> string \<Rightarrow> bool \<times> 'b) \<Rightarrow> nat \<Rightarrow> u64 \<Rightarrow> string \<Rightarrow> u64 \<Rightarrow>
     dir_entry list \<Rightarrow> bool \<Rightarrow> 'b \<Rightarrow> adbfs \<Rightarrow> 'b \<times> adbfs" where
  "readdir_reply add now ino path offset entries fresh b fs =
     (let cur = unat offset;
          (b, cur) = (if cur = 0 then (snd (add b ino 1 Directory ''.''), 1) else (b, cur));
          (b, cur) = (if cur = 1 then (snd (add b ROOT_INO 2 Directory ''..''), 2) else (b, cur));
          k = cur - 2
      in readdir_loop add now path fresh k (drop k entries) b fs)"

definition fs_readdir ::
  "('b \<Rightarrow> u64 \<Rightarrow> u64 \<Rightarrow> file_type \<Rightarrow> string \<Rightarrow> bool \<times> 'b) \<Rightarrow> 's sync_proxy \<Rightarrow> u64 \<Rightarrow> u64 \<Rightarrow> 'b \<Rightarrow>
     adbfs \<times> 's \<Rightarrow> ('b fuse_reply \<times> adbfs \<times> 's) option" where
  "fs_readdir add P ino offset b st =
     (case st of (fs, s) \<Rightarrow>
      (case ino_to_path fs ino of
         None \<Rightarrow> Some (RError E_INVAL, fs, s)
       | Some path \<Rightarrow>
      (case path_to_string path of
         None \<Rightarrow> Some (RError E_INVAL, fs, s)
       | Some path_str \<Rightarrow>
      (case dc_get (sp_now P s) path (fs_dir_cache fs) of
         (Some cached, dc) \<Rightarrow>
           (let (b, fs) = readdir_reply add (sp_now P s) ino path offset cached False b (fs\<lparr>fs_dir_cache := dc\<rparr>)
            in Some (RDirectory b, fs, s))
       | (None, dc) \<Rightarrow>
           (let epoch = dc_epoch dc
            in case sp_listdir P path_str s of
                 None \<Rightarrow> None
               | Some (Inr entries, s) \<Rightarrow>
                   (let fs = fs\<lparr>fs_dir_cache := dc_put (sp_now P s) path entries epoch dc\<rparr>;
                        (b, fs) = readdir_reply add (sp_now P s) ino path offset entries True b fs
                    in Some (RDirectory b, fs, s))
               | Some (Inl e, s) \<Rightarrow> Some (RError (proxy_to_errno e), fs\<lparr>fs_dir_cache := dc\<rparr>, s))))))"

definition fs_symlink ::
  "'s sync_proxy \<Rightarrow> u64 \<Rightarrow> string \<Rightarrow> bytes \<Rightarrow> adbfs \<times> 's \<Rightarrow> 'b fuse_reply \<times> adbfs \<times> 's" where
  "fs_symlink P parent link_name target st =
     (case st of (fs, s) \<Rightarrow>
      or_einval (resolve_child parent link_name fs) st (\<lambda>path.
        case sp_symlink P target (as_bytes path) s of
          (Inl e, s) \<Rightarrow> (RError (proxy_to_errno e), fs, s)
        | (Inr _, s) \<Rightarrow>
            (let (r, s) = sp_lstat P (to_string_lossy path) s;
                 (ino, fs) = ino_for path fs;
                 stat = (case r of
                     Inr stat \<Rightarrow> stat
                   | Inl _ \<Rightarrow> \<lparr>s_mode = mode_symlink, s_size = word_of_nat (length target), s_mtime = 0,
                       s_atime = 0, s_ctime = 0, s_uid = ADB_UID, s_gid = ADB_GID, s_nlink = 1,
                       s_blksize = BLOCK_SIZE, s_blocks = 0\<rparr>);
                 fs = cache_put (sp_now P s) path stat (invalidate_parent_listing path fs)
             in (REntry TTL (attr_from_stat ino stat) 0, fs, s))))"

definition fs_readlink :: "'s sync_proxy \<Rightarrow> u64 \<Rightarrow> adbfs \<times> 's \<Rightarrow> 'b fuse_reply \<times> adbfs \<times> 's" where
  "fs_readlink P ino st =
     (case st of (fs, s) \<Rightarrow>
      or_einval (ino_to_path fs ino) st (\<lambda>path.
      or_einval (path_to_string path) st (\<lambda>path_str.
        case sp_readlink P path_str s of
          (Inr target, s) \<Rightarrow> (RData target, fs, s)
        | (Inl e, s) \<Rightarrow> (RError (proxy_to_errno e), fs, s))))"

definition host_open_flags :: "u32 \<Rightarrow> u32" where
  "host_open_flags flags =
     (let oflags = OF_READ;
          oflags = (if flags AND O_WRONLY \<noteq> 0 then OF_WRITE else oflags);
          oflags = (if flags AND O_RDWR \<noteq> 0 then OF_READ OR OF_WRITE else oflags);
          oflags = (if flags AND O_CREAT \<noteq> 0 then oflags OR OF_CREATE else oflags);
          oflags = (if flags AND O_TRUNC \<noteq> 0 then oflags OR OF_TRUNC else oflags)
      in if flags AND O_APPEND \<noteq> 0 then oflags OR OF_APPEND else oflags)"

text \<open>A fresh file handle for an open file.\<close>

definition add_handle :: "pfile \<Rightarrow> adbfs \<Rightarrow> u64 \<times> adbfs" where
  "add_handle f fs =
     (let fh = word_of_nat (next_fh fs)
      in (fh, fs\<lparr>next_fh := next_fh fs + 1, open_files := (open_files fs)(fh \<mapsto> f)\<rparr>))"

definition fs_open :: "'s sync_proxy \<Rightarrow> u64 \<Rightarrow> u32 \<Rightarrow> adbfs \<times> 's \<Rightarrow> 'b fuse_reply \<times> adbfs \<times> 's" where
  "fs_open P ino flags st =
     (case st of (fs, s) \<Rightarrow>
      or_einval (ino_to_path fs ino) st (\<lambda>path.
      or_einval (path_to_string path) st (\<lambda>path_str.
        let oflags = host_open_flags flags;
            (res, s) = sp_open P path_str oflags 0x1A4 s;
            fs = (if oflags AND OF_TRUNC = OF_TRUNC
                  then invalidate_parent_listing path (cache_invalidate path fs) else fs)
        in case res of
             Inr f \<Rightarrow> (let (fh, fs) = add_handle f fs in (ROpened fh 0, fs, s))
           | Inl e \<Rightarrow> (RError (proxy_to_errno e), fs, s))))"

definition fs_read ::
  "'s sync_proxy \<Rightarrow> u64 \<Rightarrow> u64 \<Rightarrow> u32 \<Rightarrow> adbfs \<times> 's \<Rightarrow> 'b fuse_reply \<times> adbfs \<times> 's" where
  "fs_read P fh offset size' st =
     (case st of (fs, s) \<Rightarrow>
      (case open_files fs fh of
         None \<Rightarrow> (RError E_BADF, st)
       | Some f \<Rightarrow>
           (case sp_read_at P f offset size' s of
              (Inr data, s) \<Rightarrow> (RData data, fs, s)
            | (Inl e, s) \<Rightarrow> (RError (proxy_to_errno e), fs, s))))"

definition fs_write ::
  "'s sync_proxy \<Rightarrow> u64 \<Rightarrow> u64 \<Rightarrow> u64 \<Rightarrow> bytes \<Rightarrow> adbfs \<times> 's \<Rightarrow> 'b fuse_reply \<times> adbfs \<times> 's" where
  "fs_write P ino fh offset data st =
     (case st of (fs, s) \<Rightarrow>
      (case open_files fs fh of
         None \<Rightarrow> (RError E_BADF, st)
       | Some f \<Rightarrow>
           (case sp_write_at P f offset data s of
              (Inr _, s) \<Rightarrow>
                (RWritten (word_of_nat (length data)),
                 (case ino_to_path fs ino of
                    Some path \<Rightarrow> invalidate_parent_listing path (cache_invalidate path fs)
                  | None \<Rightarrow> fs), s)
            | (Inl e, s) \<Rightarrow> (RError (proxy_to_errno e), fs, s))))"

definition fs_release :: "'s sync_proxy \<Rightarrow> u64 \<Rightarrow> u64 \<Rightarrow> adbfs \<times> 's \<Rightarrow> 'b fuse_reply \<times> adbfs \<times> 's" where
  "fs_release P ino fh st =
     (case st of (fs, s) \<Rightarrow>
      let (fs, s) = (case open_files fs fh of
             Some f \<Rightarrow> (fs\<lparr>open_files := (open_files fs)(fh := None)\<rparr>, snd (sp_close P f s))
           | None \<Rightarrow> (fs, s));
          fs = (case ino_to_path fs ino of
             Some path \<Rightarrow> cache_invalidate path fs
           | None \<Rightarrow> fs)
      in (ROk, fs, s))"

definition fs_create ::
  "'s sync_proxy \<Rightarrow> u64 \<Rightarrow> string \<Rightarrow> u32 \<Rightarrow> u32 \<Rightarrow> adbfs \<times> 's \<Rightarrow> 'b fuse_reply \<times> adbfs \<times> 's" where
  "fs_create P parent name mode flags st =
     (case st of (fs, s) \<Rightarrow>
      or_einval (resolve_child parent name fs) st (\<lambda>path.
      or_einval (path_to_string path) st (\<lambda>path_str.
        let oflags = OF_READ OR OF_WRITE OR OF_CREATE;
            oflags = (if flags AND O_TRUNC \<noteq> 0 then oflags OR OF_TRUNC else oflags);
            oflags = (if flags AND O_EXCL \<noteq> 0 then oflags OR OF_EXCL else oflags)
        in case sp_open P path_str oflags mode s of
             (Inr f, s) \<Rightarrow>
               (let (fh, fs) = add_handle f fs;
                    (ino, fs) = ino_for path fs;
                    (r, s) = sp_stat P path_str s;
                    stat = (case r of
                        Inr stat \<Rightarrow> stat
                      | Inl _ \<Rightarrow> \<lparr>s_mode = mode_file, s_size = 0, s_mtime = 0, s_atime = 0, s_ctime = 0,
                          s_uid = ADB_UID, s_gid = ADB_GID, s_nlink = 1, s_blksize = 4096, s_blocks = 0\<rparr>);
                    fs = cache_put (sp_now P s) path stat (invalidate_parent_listing path fs)
                in (RCreated TTL (attr_from_stat ino stat) 0 fh 0, fs, s))
           | (Inl e, s) \<Rightarrow> (RError (proxy_to_errno e), fs, s))))"

definition fs_mkdir ::
  "'s sync_proxy \<Rightarrow> u64 \<Rightarrow> string \<Rightarrow> u32 \<Rightarrow> adbfs \<times> 's \<Rightarrow> 'b fuse_reply \<times> adbfs \<times> 's" where
  "fs_mkdir P parent name mode st =
     (case st of (fs, s) \<Rightarrow>
      or_einval (resolve_child parent name fs) st (\<lambda>path.
      or_einval (path_to_string path) st (\<lambda>path_str.
        case sp_mkdir P path_str mode s of
          (Inr _, s) \<Rightarrow>
            (let (ino, fs) = ino_for path fs;
                 (r, s) = sp_stat P path_str s;
                 stat = (case r of
                     Inr stat \<Rightarrow> stat
                   | Inl _ \<Rightarrow> \<lparr>s_mode = mode_dir, s_size = 4096, s_mtime = 0, s_atime = 0, s_ctime = 0,
                       s_uid = ADB_UID, s_gid = ADB_GID, s_nlink = 2, s_blksize = 4096, s_blocks = 8\<rparr>);
                 fs = cache_put (sp_now P s) path stat (invalidate_parent_listing path fs)
             in (REntry TTL (attr_from_stat ino stat) 0, fs, s))
        | (Inl e, s) \<Rightarrow> (RError (proxy_to_errno e), fs, s))))"

definition fs_unlink ::
  "'s sync_proxy \<Rightarrow> u64 \<Rightarrow> string \<Rightarrow> adbfs \<times> 's \<Rightarrow> 'b fuse_reply \<times> adbfs \<times> 's" where
  "fs_unlink P parent name st =
     (case st of (fs, s) \<Rightarrow>
      or_einval (resolve_child parent name fs) st (\<lambda>path.
      or_einval (path_to_string path) st (\<lambda>path_str.
        case sp_unlink P path_str s of
          (Inr _, s) \<Rightarrow> (ROk, cache_invalidate path (invalidate_parent_listing path fs), s)
        | (Inl e, s) \<Rightarrow> (RError (proxy_to_errno e), fs, s))))"

definition fs_rmdir ::
  "'s sync_proxy \<Rightarrow> u64 \<Rightarrow> string \<Rightarrow> adbfs \<times> 's \<Rightarrow> 'b fuse_reply \<times> adbfs \<times> 's" where
  "fs_rmdir P parent name st =
     (case st of (fs, s) \<Rightarrow>
      or_einval (resolve_child parent name fs) st (\<lambda>path.
      or_einval (path_to_string path) st (\<lambda>path_str.
        case sp_rmdir P path_str s of
          (Inr _, s) \<Rightarrow>
            (ROk, cache_invalidate path (invalidate_parent_listing path
               (fs\<lparr>fs_dir_cache := dc_invalidate path (fs_dir_cache fs)\<rparr>)), s)
        | (Inl e, s) \<Rightarrow> (RError (proxy_to_errno e), fs, s))))"

text \<open>
  The inode mappings a rename moves: \<open>take_stale\<close> takes the descendants of the source out of
  \<open>path_to_ino\<close>, \<open>place_moved\<close> enters the moved ones under their new paths.
\<close>

fun take_stale ::
  "string \<Rightarrow> string \<Rightarrow> string list \<Rightarrow> (u64 \<times> string) list \<Rightarrow> u64 pmap \<Rightarrow> (u64 \<times> string) list \<times> u64 pmap" where
  "take_stale src dst [] moved p2i = (moved, p2i)"
| "take_stale src dst (old # stale) moved p2i =
     (case pm_get p2i old of
        Some ino \<Rightarrow>
          (let rel = (case strip_prefix old src of Some rel \<Rightarrow> rel | None \<Rightarrow> '''')
           in take_stale src dst stale (moved @ [(ino, path_join dst rel)]) (pm_remove old p2i))
      | None \<Rightarrow> take_stale src dst stale moved p2i)"

fun place_moved :: "(u64 \<times> string) list \<Rightarrow> u64 pmap \<Rightarrow> (u64 \<rightharpoonup> string) \<Rightarrow> u64 pmap \<times> (u64 \<rightharpoonup> string)" where
  "place_moved [] p2i i2p = (p2i, i2p)"
| "place_moved ((ino, new_path) # moved) p2i i2p =
     place_moved moved (pm_insert new_path ino p2i) (i2p(ino \<mapsto> new_path))"

definition rename_inodes :: "string \<Rightarrow> string \<Rightarrow> bool \<Rightarrow> adbfs \<Rightarrow> adbfs" where
  "rename_inodes src dst is_dir fs =
     (let p2i = path_to_ino fs;
          i2p = ino_to_path fs;
          (p2i, i2p) = (case pm_get p2i dst of
              Some dst_ino \<Rightarrow> (pm_remove dst p2i, i2p(dst_ino := None))
            | None \<Rightarrow> (p2i, i2p));
          (moved, p2i) = (case pm_get p2i src of
              Some ino \<Rightarrow> ([(ino, dst)], pm_remove src p2i)
            | None \<Rightarrow> ([], p2i));
          (moved, p2i) = (if is_dir
              then take_stale src dst (filter (\<lambda>p. path_starts_with p src) (map fst p2i)) moved p2i
              else (moved, p2i));
          (p2i, i2p) = place_moved moved p2i i2p
      in fs\<lparr>path_to_ino := p2i, ino_to_path := i2p\<rparr>)"

definition RENAME_NOREPLACE :: u32 where "RENAME_NOREPLACE = 1"
definition RENAME_EXCHANGE :: u32 where "RENAME_EXCHANGE = 2"

definition rename_is_dir :: "'s sync_proxy \<Rightarrow> string \<Rightarrow> string \<Rightarrow> adbfs \<times> 's \<Rightarrow> bool \<times> adbfs \<times> 's" where
  "rename_is_dir P src src_str st =
     (case st of (fs, s) \<Rightarrow>
      let (cached, c) = sc_get (sp_now P s) src (fs_cache fs);
          fs = fs\<lparr>fs_cache := c\<rparr>
      in case cached of
           Some stat \<Rightarrow> (mode_is_dir (s_mode stat), fs, s)
         | None \<Rightarrow>
             (case sp_stat P src_str s of
                (Inr stat, s) \<Rightarrow> (mode_is_dir (s_mode stat), fs, s)
              | (Inl _, s) \<Rightarrow> (False, fs, s)))"

definition rename_go ::
  "'s sync_proxy \<Rightarrow> string \<Rightarrow> string \<Rightarrow> string \<Rightarrow> string \<Rightarrow> adbfs \<times> 's \<Rightarrow> 'b fuse_reply \<times> adbfs \<times> 's" where
  "rename_go P src dst src_str dst_str st =
     (let (is_dir, fs, s) = rename_is_dir P src src_str st
      in case sp_rename P src_str dst_str s of
           (Inr _, s) \<Rightarrow>
             (ROk, invalidate_after_rename src dst is_dir (rename_inodes src dst is_dir fs), s)
         | (Inl e, s) \<Rightarrow> (RError (proxy_to_errno e), fs, s))"

definition fs_rename ::
  "'s sync_proxy \<Rightarrow> u64 \<Rightarrow> string \<Rightarrow> u64 \<Rightarrow> string \<Rightarrow> u32 \<Rightarrow> adbfs \<times> 's \<Rightarrow> 'b fuse_reply \<times> adbfs \<times> 's" where
  "fs_rename P parent name newparent newname flags st =
     (case st of (fs, s) \<Rightarrow>
      or_einval (resolve_child parent name fs) st (\<lambda>src.
      or_einval (resolve_child newparent newname fs) st (\<lambda>dst.
      or_einval (path_to_string src) st (\<lambda>src_str.
      or_einval (path_to_string dst) st (\<lambda>dst_str.
        if flags AND RENAME_EXCHANGE = RENAME_EXCHANGE then (RError E_NOSYS, st)
        else if flags AND RENAME_NOREPLACE = RENAME_NOREPLACE
        then case sp_lstat P dst_str s of
               (Inr _, s) \<Rightarrow> (RError E_EXIST, fs, s)
             | (Inl (PStatus NotFound _), s) \<Rightarrow> rename_go P src dst src_str dst_str (fs, s)
             | (Inl e, s) \<Rightarrow> (RError (proxy_to_errno e), fs, s)
        else rename_go P src dst src_str dst_str st)))))"

text \<open>
  \<open>setattr\<close>; the flag says that one of mode, uid, gid, atime and mtime is to change.
\<close>

definition fs_setattr ::
  "'s sync_proxy \<Rightarrow> u64 \<Rightarrow> bool \<Rightarrow> u64 option \<Rightarrow> u64 option \<Rightarrow> adbfs \<times> 's \<Rightarrow> 'b fuse_reply \<times> adbfs \<times> 's" where
  "fs_setattr P ino others size' fh st =
     (case st of (fs, s) \<Rightarrow>
      or_einval (ino_to_path fs ino) st (\<lambda>path.
      or_einval (path_to_string path) st (\<lambda>path_str.
        let (err, fs, s) = (case size' of
               None \<Rightarrow> (None, fs, s)
             | Some n \<Rightarrow>
                 (case sp_truncate P path_str n s of
                    (Inl e, s) \<Rightarrow> (Some e, fs, s)
                  | (Inr _, s) \<Rightarrow> (None, invalidate_parent_listing path fs, s)))
        in case err of
             Some e \<Rightarrow> (RError (proxy_to_errno e), fs, s)
           | None \<Rightarrow>
               if others then (RError E_NOSYS, fs, s)
               else let (r, s) = (case open_handle fh fs of
                           Some f \<Rightarrow> sp_fstat P f s
                         | None \<Rightarrow> sp_lstat P path_str s)
                    in case r of
                         Inr stat \<Rightarrow>
                           (RAttr TTL (attr_from_stat ino stat), cache_put (sp_now P s) path stat fs, s)
                       | Inl e \<Rightarrow> (RError (proxy_to_errno e), fs, s))))"

definition fs_statfs :: "adbfs \<times> 's \<Rightarrow> 'b fuse_reply \<times> adbfs \<times> 's" where
  "fs_statfs st = (RStatfs (2 ^ 32) (2 ^ 31) (2 ^ 31) (2 ^ 20) (2 ^ 20) BLOCK_SIZE 256 4096, st)"

section \<open>Sequences of requests\<close>

datatype fuse_request =
    Lookup u64 string
  | Forget u64
  | Getattr u64 "u64 option"
  | Readdir u64 u64
  | MakeSymlink u64 string bytes
  | ReadLink u64
  | OpenFile u64 u32
  | ReadFile u64 u64 u32
  | WriteFile u64 u64 u64 bytes
  | Release u64 u64
  | Create u64 string u32 u32
  | Mkdir u64 string u32
  | Unlink u64 string
  | Rmdir u64 string
  | Rename u64 string u64 string u32
  | Setattr u64 bool "u64 option" "u64 option"
  | Statfs

fun handle ::
  "('b \<Rightarrow> u64 \<Rightarrow> u64 \<Rightarrow> file_type \<Rightarrow> string \<Rightarrow> bool \<times> 'b) \<Rightarrow> 'b \<Rightarrow> 's sync_proxy \<Rightarrow> fuse_request \<Rightarrow>
     adbfs \<times> 's \<Rightarrow> ('b fuse_reply \<times> adbfs \<times> 's) option" where
  "handle add b P (Lookup parent name) st = Some (fs_lookup P parent name st)"
| "handle add b P (Forget ino) st = Some (ROk, fs_forget ino st)"
| "handle add b P (Getattr ino fh) st = Some (fs_getattr P ino fh st)"
| "handle add b P (Readdir ino offset) st = fs_readdir add P ino offset b st"
| "handle add b P (MakeSymlink parent name target) st = Some (fs_symlink P parent name target st)"
| "handle add b P (ReadLink ino) st = Some (fs_readlink P ino st)"
| "handle add b P (OpenFile ino flags) st = Some (fs_open P ino flags st)"
| "handle add b P (ReadFile fh offset n) st = Some (fs_read P fh offset n st)"
| "handle add b P (WriteFile ino fh offset data) st = Some (fs_write P ino fh offset data st)"
| "handle add b P (Release ino fh) st = Some (fs_release P ino fh st)"
| "handle add b P (Create parent name mode flags) st = Some (fs_create P parent name mode flags st)"
| "handle add b P (Mkdir parent name mode) st = Some (fs_mkdir P parent name mode st)"
| "handle add b P (Unlink parent name) st = Some (fs_unlink P parent name st)"
| "handle add b P (Rmdir parent name) st = Some (fs_rmdir P parent name st)"
| "handle add b P (Rename parent name newparent newname flags) st =
     Some (fs_rename P parent name newparent newname flags st)"
| "handle add b P (Setattr ino others n fh) st = Some (fs_setattr P ino others n fh st)"
| "handle add b P Statfs st = Some (fs_statfs st)"

end
