(* ===== verification/Fuse_Inodes.thy ===== *)
theory Fuse_Inodes
  imports Fuse_Fs
begin

text \<open>
  The inode table of the filesystem. \<open>table_ok\<close> says that \<open>path_to_ino\<close> and \<open>ino_to_path\<close> are
  inverse to each other; the lemmas show what entering, forgetting and renaming do to it,
  and that every handler keeps it. The abstract view of the table is the map from inode
  numbers to component lists, and a rename acts on it by \<open>moved_components\<close>.
\<close>

section \<open>The table\<close>

definition table_ok :: "u64 pmap \<Rightarrow> (u64 \<rightharpoonup> string) \<Rightarrow> bool" where
  "table_ok p2i i2p \<longleftrightarrow> pm_ok p2i \<and>
     (\<forall>k i. pm_get p2i k = Some i \<longrightarrow> (\<exists>q. i2p i = Some q \<and> same_path q k)) \<and>
     (\<forall>i p. i2p i = Some p \<longrightarrow> is_absolute p \<and> pm_get p2i p = Some i)"

lemma same_path_sym: "same_path p q \<longleftrightarrow> same_path q p"
  by (auto simp: same_path_def)

lemma same_path_trans: "same_path p q \<Longrightarrow> same_path q r \<Longrightarrow> same_path p r"
  by (simp add: same_path_def)

lemma absolute_components: "is_absolute p \<longleftrightarrow> (\<exists>cs. components p = RootDir # cs)"
proof
  show "\<exists>cs. components p = RootDir # cs \<Longrightarrow> is_absolute p"
    by (auto simp: components_def body_components_def component_of_def split: if_splits)
qed (simp add: components_absolute)

lemma same_path_absolute: "same_path p q \<Longrightarrow> is_absolute p \<longleftrightarrow> is_absolute q"
  by (simp add: same_path_def absolute_components)

lemma table_okD:
  assumes "table_ok p2i i2p"
  shows "pm_ok p2i"
    and "pm_get p2i k = Some i \<Longrightarrow> \<exists>q. i2p i = Some q \<and> same_path q k"
    and "i2p i = Some p \<Longrightarrow> is_absolute p"
    and "i2p i = Some p \<Longrightarrow> pm_get p2i p = Some i"
  using assms by (auto simp: table_ok_def)

lemma table_insert:
  assumes ok: "table_ok p2i i2p" and new: "pm_get p2i p = None" "i2p i = None" "is_absolute p"
  shows "table_ok (pm_insert p i p2i) (i2p(i \<mapsto> p))"
proof -
  have "\<not> same_path p q" if "pm_get p2i q = Some j" for q j
    using that new(1) pm_get_cong [of p q p2i] by auto
  moreover have "j \<noteq> i" if "pm_get p2i q = Some j" for q j
    using table_okD(2) [OF ok that] new(2) by auto
  ultimately show ?thesis
    using ok new unfolding table_ok_def by (auto split: if_splits)
qed

lemma table_remove:
  fixes ks :: "string list"
  assumes ok: "table_ok p2i i2p"
  defines "gone \<equiv> \<lambda>i. \<exists>k \<in> set ks. pm_get p2i k = Some i"
  shows "table_ok (fold pm_remove ks p2i) (\<lambda>i. if gone i then None else i2p i)"
  unfolding table_ok_def
proof (intro conjI allI impI)
  show "pm_ok (fold pm_remove ks p2i)"
    using table_okD(1) [OF ok] by (rule pm_fold_remove)
next
  fix k i assume "pm_get (fold pm_remove ks p2i) k = Some i"
  then have k: "pm_get p2i k = Some i" and out: "\<And>o'. o' \<in> set ks \<Longrightarrow> \<not> same_path o' k"
    by (auto simp: pm_fold_remove split: if_splits)
  from table_okD(2) [OF ok k] obtain q where q: "i2p i = Some q" "same_path q k" by blast
  have "\<not> gone i"
  proof
    assume "gone i"
    then obtain o' where o: "o' \<in> set ks" "pm_get p2i o' = Some i" by (auto simp: gone_def)
    from table_okD(2) [OF ok o(2)] q have "same_path q o'" by auto
    with q out [OF o(1)] show False by (auto simp: same_path_def)
  qed
  with q show "\<exists>q. (if gone i then None else i2p i) = Some q \<and> same_path q k" by auto
next
  fix i p assume "(if gone i then None else i2p i) = Some p"
  then have i: "\<not> gone i" "i2p i = Some p" by (auto split: if_splits)
  then show "is_absolute p" using table_okD(3) [OF ok] by blast
  have p: "pm_get p2i p = Some i" using table_okD(4) [OF ok i(2)] .
  have "\<not> same_path o' p" if "o' \<in> set ks" for o'
    using that i(1) p pm_get_cong [of o' p p2i] by (auto simp: gone_def)
  with p show "pm_get (fold pm_remove ks p2i) p = Some i" by (auto simp: pm_fold_remove)
qed

lemma table_remove1:
  assumes "table_ok p2i i2p" and "pm_get p2i p = Some i"
  shows "table_ok (pm_remove p p2i) (i2p(i := None))"
proof -
  have "(\<lambda>j. if \<exists>k \<in> set [p]. pm_get p2i k = Some j then None else i2p j) = i2p(i := None)"
    using assms(2) by auto
  then show ?thesis using table_remove [OF assms(1), of "[p]"] by simp
qed

lemma place_moved_eq:
  "place_moved moved p2i i2p =
     (fold (\<lambda>(i, p). pm_insert p i) moved p2i, i2p ++ map_of (rev moved))"
proof (induction moved arbitrary: p2i i2p)
  case (Cons m moved)
  then show ?case
    by (cases m) (auto simp: map_add_def fun_eq_iff map_of_append split: option.splits)
qed simp

lemma place_moved_forget:
  "place_moved moved p2i (\<lambda>i. if i \<in> fst ` set moved then None else i2p i) = place_moved moved p2i i2p"
  by (auto simp: place_moved_eq map_add_def fun_eq_iff map_of_eq_None_iff split: option.splits)

lemma table_place:
  assumes "table_ok p2i i2p" and "distinct (map fst moved)" and "distinct (map (components \<circ> snd) moved)"
    and "\<And>i p. (i, p) \<in> set moved \<Longrightarrow> is_absolute p \<and> pm_get p2i p = None \<and> i2p i = None"
  shows "case place_moved moved p2i i2p of (p2i', i2p') \<Rightarrow> table_ok p2i' i2p'"
  using assms
proof (induction moved arbitrary: p2i i2p)
  case (Cons m moved)
  obtain i p where m: "m = (i, p)" by force
  have ok: "table_ok (pm_insert p i p2i) (i2p(i \<mapsto> p))"
    using Cons.prems m by (intro table_insert) auto
  have new: "is_absolute q \<and> pm_get (pm_insert p i p2i) q = None \<and> (i2p(i \<mapsto> p)) j = None"
    if "(j, q) \<in> set moved" for j q
    using that Cons.prems(2,3) Cons.prems(4) [of j q] m by (force simp: same_path_def)
  show ?case
    using Cons.prems(2,3) m Cons.IH [OF ok _ _ new] by (simp add: fun_upd_def)
qed simp

section \<open>Renaming\<close>

definition under :: "string \<Rightarrow> bool \<Rightarrow> string \<Rightarrow> bool" where
  "under src is_dir p \<longleftrightarrow> (if is_dir then path_starts_with p src else same_path p src)"

definition moved_components :: "string \<Rightarrow> string \<Rightarrow> component list \<Rightarrow> component list" where
  "moved_components src dst c = components dst @ drop (length (components src)) c"

text \<open>
  What the phone promises about a rename that succeeded, and what the table must not hold:
  source and destination differ, the destination is not inside the source, and no
  descendant of the destination is known.
\<close>

definition rename_fresh :: "string \<Rightarrow> string \<Rightarrow> bool \<Rightarrow> adbfs \<Rightarrow> bool" where
  "rename_fresh src dst is_dir fs \<longleftrightarrow>
     is_absolute src \<and> is_absolute dst \<and> \<not> under src is_dir dst \<and>
     (is_dir \<longrightarrow> (\<forall>k. path_starts_with k dst \<longrightarrow> pm_get (path_to_ino fs) k \<noteq> None \<longrightarrow> same_path k dst))"

lemma under_cong: "same_path p q \<Longrightarrow> under src d p \<longleftrightarrow> under src d q"
  by (simp add: under_def path_starts_with_def same_path_def)

lemma under_split: "under src d p \<Longrightarrow> components p = components src @ drop (length (components src)) (components p)"
  by (auto simp: under_def path_starts_with_def same_path_def split: if_splits)
    (metis append_take_drop_id)

lemma under_starts: "under src d p \<Longrightarrow> path_starts_with p src"
  by (auto simp: under_def path_starts_with_def same_path_def split: if_splits)

lemma take_stale_eq:
  assumes "distinct (map components stale)" and "\<And>k. k \<in> set stale \<Longrightarrow> pm_get p2i k \<noteq> None"
  shows "take_stale src dst stale moved p2i =
    (moved @ map (\<lambda>k. (the (pm_get p2i k),
        path_join dst (case strip_prefix k src of Some rel \<Rightarrow> rel | None \<Rightarrow> ''''))) stale,
     fold pm_remove stale p2i)"
  using assms
proof (induction stale arbitrary: moved p2i)
  case (Cons k stale)
  obtain ino where k: "pm_get p2i k = Some ino" using Cons.prems(2) [of k] by auto
  have same: "pm_get (pm_remove k p2i) k' = pm_get p2i k'" if "k' \<in> set stale" for k'
    using that Cons.prems(1) by (auto simp: same_path_def)
  then have "\<And>k'. k' \<in> set stale \<Longrightarrow> pm_get (pm_remove k p2i) k' \<noteq> None"
    using Cons.prems(2) by auto
  with Cons.IH [of "pm_remove k p2i"] Cons.prems(1) k same show ?case
    by (simp add: Let_def cong: map_cong)
qed simp

text \<open>The moves of a rename: the keys it takes out, with the inode and the new path of each.\<close>

definition movers :: "string \<Rightarrow> bool \<Rightarrow> u64 pmap \<Rightarrow> string list" where
  "movers src is_dir p2i =
     (if pm_get p2i src = None then [] else [src])
     @ (if is_dir then filter (\<lambda>k. path_starts_with k src) (map fst (pm_remove src p2i)) else [])"

lemma pm_keys_get: "pm_ok m \<Longrightarrow> k \<in> fst ` set m \<Longrightarrow> pm_get m k \<noteq> None"
  using pm_get_mem by fastforce

lemma pm_remove_absent: "pm_get m p = None \<Longrightarrow> pm_remove p m = m"
  by (auto simp: pm_get_None pm_remove_def list_ex_iff filter_id_conv)

lemma movers_props:
  assumes ok: "pm_ok p2i"
  shows "distinct (map components (movers src d p2i))"
    and "k \<in> set (movers src d p2i) \<Longrightarrow> under src d k \<and> pm_get p2i k \<noteq> None"
    and "under src d k \<Longrightarrow> pm_get p2i k \<noteq> None \<Longrightarrow> \<exists>k' \<in> set (movers src d p2i). same_path k' k"
proof -
  have keys: "distinct (map components (map fst (pm_remove src p2i)))"
    using pm_ok_remove [OF ok, of src] by (simp add: pm_ok_def comp_def)
  have out: "\<not> same_path k src" if "k \<in> fst ` set (pm_remove src p2i)" for k
    using that by (auto simp: pm_remove_def)
  show "distinct (map components (movers src d p2i))"
    using distinct_map_filter [OF keys] out by (force simp: movers_def same_path_def)
  show "under src d k \<and> pm_get p2i k \<noteq> None" if k: "k \<in> set (movers src d p2i)"
  proof -
    consider "k = src" "pm_get p2i src \<noteq> None" | "d" "path_starts_with k src" "k \<in> fst ` set p2i"
      using k by (auto simp: movers_def pm_remove_def split: if_splits)
    then show ?thesis
      by cases (auto simp: under_def path_starts_with_def dest: pm_get_mem [OF ok])
  qed
  show "\<exists>k' \<in> set (movers src d p2i). same_path k' k" if u: "under src d k" "pm_get p2i k \<noteq> None"
  proof (cases "same_path src k")
    case True
    then have "src \<in> set (movers src d p2i)"
      using u(2) pm_get_cong [of src k p2i] by (auto simp: movers_def)
    with True show ?thesis by blast
  next
    case False
    then obtain v where v: "pm_get (pm_remove src p2i) k = Some v" using u(2) by auto
    obtain k' where k': "(k', v) \<in> set (pm_remove src p2i)" "same_path k' k"
      using pm_get_SomeD [OF v] by blast
    have "d" "path_starts_with k' src"
      using u(1) False k'(2) by (auto simp: under_def same_path_def path_starts_with_def split: if_splits)
    with k' show ?thesis by (force simp: movers_def)
  qed
qed

definition new_path :: "string \<Rightarrow> string \<Rightarrow> string \<Rightarrow> string" where
  "new_path src dst k =
     (if k = src then dst else path_join dst (case strip_prefix k src of Some rel \<Rightarrow> rel | None \<Rightarrow> ''''))"

lemma new_path_components:
  assumes "is_absolute src" "is_absolute dst" "is_absolute k" "under src d k"
  shows "components (new_path src dst k) = moved_components src dst (components k)"
    and "is_absolute (new_path src dst k)"
proof -
  show "is_absolute (new_path src dst k)" using assms by (simp add: new_path_def)
  show "components (new_path src dst k) = moved_components src dst (components k)"
    using assms strip_prefix_components [of dst src k] under_starts [of src d k]
    by (auto simp: new_path_def moved_components_def)
qed

lemma rename_inodes_eq:
  assumes ok: "table_ok (path_to_ino fs) (ino_to_path fs)" and dst: "\<not> under src d dst"
  defines "p1 \<equiv> pm_remove dst (path_to_ino fs)"
  defines "i1 \<equiv> (\<lambda>i. if pm_get (path_to_ino fs) dst = Some i then None else ino_to_path fs i)"
  defines "ks \<equiv> movers src d p1"
  shows "rename_inodes src dst d fs =
    (case place_moved (map (\<lambda>k. (the (pm_get p1 k), new_path src dst k)) ks) (fold pm_remove ks p1) i1 of
       (p2i, i2p) \<Rightarrow> fs\<lparr>path_to_ino := p2i, ino_to_path := i2p\<rparr>)"
proof -
  have p1ok: "pm_ok p1" using table_okD(1) [OF ok] by (simp add: p1_def)
  have step1: "(case pm_get (path_to_ino fs) dst of
        Some dst_ino \<Rightarrow> (pm_remove dst (path_to_ino fs), (ino_to_path fs)(dst_ino := None))
      | None \<Rightarrow> (path_to_ino fs, ino_to_path fs)) = (p1, i1)"
    by (auto simp: p1_def i1_def fun_eq_iff pm_remove_absent split: option.split)
  define p2 where "p2 = pm_remove src p1"
  let ?move = "\<lambda>k. (the (pm_get p1 k), new_path src dst k)"
  define top where "top = (if pm_get p1 src = None then [] else [src])"
  have step2: "(case pm_get p1 src of
        Some ino \<Rightarrow> ([(ino, dst)], pm_remove src p1)
      | None \<Rightarrow> ([], p1)) = (map ?move top, p2)"
    by (auto simp: p2_def top_def new_path_def pm_remove_absent split: option.split)
  define stale where "stale = filter (\<lambda>k. path_starts_with k src) (map fst p2)"
  have p2ok: "pm_ok p2" using p1ok by (simp add: p2_def)
  have stale1: "distinct (map components stale)"
    using p2ok by (simp add: stale_def pm_ok_def comp_def distinct_map_filter)
  have stale2: "pm_get p2 k \<noteq> None" if "k \<in> set stale" for k
    using that by (intro pm_keys_get [OF p2ok]) (simp add: stale_def)
  have old: "pm_get p2 k = pm_get p1 k \<and> k \<noteq> src" if "k \<in> set stale" for k
  proof -
    have "\<not> same_path src k" using that by (auto simp: stale_def p2_def pm_remove_def same_path_def)
    then show ?thesis by (auto simp: p2_def)
  qed
  have "take_stale src dst stale (map ?move top) p2 =
      (map ?move top @ map ?move stale, fold pm_remove stale p2)"
  proof -
    have "map (\<lambda>k. (the (pm_get p2 k), path_join dst (case strip_prefix k src of Some rel \<Rightarrow> rel | None \<Rightarrow> ''''))) stale
        = map ?move stale"
      using old by (intro map_cong) (simp_all add: new_path_def)
    then show ?thesis using take_stale_eq [OF stale1 stale2, of src dst "map ?move top"] by simp
  qed
  moreover have "ks = top @ (if d then stale else [])"
    by (simp add: ks_def movers_def top_def stale_def p2_def)
  moreover have "fold pm_remove top p1 = p2"
    by (auto simp: top_def p2_def pm_remove_absent)
  ultimately show ?thesis
    unfolding rename_inodes_def Let_def step1 prod.case step2 stale_def [symmetric]
    by (cases d) simp_all
qed

definition moves :: "string \<Rightarrow> string \<Rightarrow> bool \<Rightarrow> u64 pmap \<Rightarrow> (u64 \<times> string) list" where
  "moves src dst d p1 = map (\<lambda>k. (the (pm_get p1 k), new_path src dst k)) (movers src d p1)"

lemma movers_table:
  assumes ok: "table_ok p1 i1" and k: "k \<in> set (movers src d p1)"
  obtains i q where "under src d k" "is_absolute k" "pm_get p1 k = Some i" "i1 i = Some q" "same_path q k"
proof -
  from movers_props(2) [OF table_okD(1) [OF ok] k]
  obtain i where i: "under src d k" "pm_get p1 k = Some i" by auto
  with table_okD(2) [OF ok i(2)] obtain q where q: "i1 i = Some q" "same_path q k" by blast
  from table_okD(3) [OF ok q(1)] have "is_absolute k" using same_path_absolute [OF q(2)] by simp
  with i q show thesis by (intro that)
qed

lemma moves_distinct:
  assumes ok: "table_ok p1 i1" and abs: "is_absolute src" "is_absolute dst"
  shows "distinct (map fst (moves src dst d p1))"
    and "distinct (map (components \<circ> snd) (moves src dst d p1))"
proof -
  let ?ks = "movers src d p1"
  have dist: "distinct ?ks" "inj_on components (set ?ks)"
    using movers_props(1) [OF table_okD(1) [OF ok], of src d] by (auto simp: distinct_map)
  have "inj_on (\<lambda>k. the (pm_get p1 k)) (set ?ks)"
  proof (rule inj_onI)
    fix k k' assume k: "k \<in> set ?ks" "k' \<in> set ?ks" "the (pm_get p1 k) = the (pm_get p1 k')"
    obtain i q where 1: "under src d k" "is_absolute k" "pm_get p1 k = Some i" "i1 i = Some q" "same_path q k"
      by (rule movers_table [OF ok k(1)])
    obtain i' q' where 2: "under src d k'" "is_absolute k'" "pm_get p1 k' = Some i'" "i1 i' = Some q'" "same_path q' k'"
      by (rule movers_table [OF ok k(2)])
    from 1 2 k(3) have "components k = components k'" by (simp add: same_path_def)
    with dist(2) k show "k = k'" by (auto dest: inj_onD)
  qed
  with dist(1) show "distinct (map fst (moves src dst d p1))"
    by (simp add: moves_def distinct_map comp_def)
  have "inj_on (\<lambda>k. components (new_path src dst k)) (set ?ks)"
  proof (rule inj_onI)
    fix k k' assume k: "k \<in> set ?ks" "k' \<in> set ?ks"
      and eq: "components (new_path src dst k) = components (new_path src dst k')"
    have 1: "under src d k" "is_absolute k" by (rule movers_table [OF ok k(1)], assumption)+
    have 2: "under src d k'" "is_absolute k'" by (rule movers_table [OF ok k(2)], assumption)+
    from eq have "drop (length (components src)) (components k) = drop (length (components src)) (components k')"
      by (simp add: new_path_components(1) [OF abs 1(2,1)] new_path_components(1) [OF abs 2(2,1)]
          moved_components_def)
    then have "components k = components k'"
      using under_split [OF 1(1)] under_split [OF 2(1)] by metis
    with dist(2) k show "k = k'" by (auto dest: inj_onD)
  qed
  with dist(1) show "distinct (map (components \<circ> snd) (moves src dst d p1))"
    by (simp add: moves_def distinct_map comp_def)
qed

lemma moves_free:
  assumes fresh: "rename_fresh src dst d fs"
    and ok: "table_ok (pm_remove dst (path_to_ino fs)) i1"
    and k: "k \<in> set (movers src d (pm_remove dst (path_to_ino fs)))"
  shows "pm_get (pm_remove dst (path_to_ino fs)) (new_path src dst k) = None"
proof (rule ccontr)
  assume "\<not> ?thesis"
  then have known: "pm_get (path_to_ino fs) (new_path src dst k) \<noteq> None" "\<not> same_path dst (new_path src dst k)"
    by (auto split: if_splits)
  have u: "under src d k" "is_absolute k" by (rule movers_table [OF ok k], assumption)+
  have new: "components (new_path src dst k) = moved_components src dst (components k)"
    using fresh u by (intro new_path_components) (auto simp: rename_fresh_def)
  show False
  proof (cases d)
    case True
    have "path_starts_with (new_path src dst k) dst"
      using new by (simp add: path_starts_with_def moved_components_def)
    then have "same_path (new_path src dst k) dst" using known(1) fresh True by (auto simp: rename_fresh_def)
    then show False using known(2) same_path_sym by blast
  next
    case False
    then have "components k = components src" using u(1) by (simp add: under_def same_path_def)
    then show False using known(2) new by (simp add: same_path_def moved_components_def)
  qed
qed

lemma moves_view:
  fixes i :: u64
  assumes ok: "table_ok (path_to_ino fs) (ino_to_path fs)" and fresh: "rename_fresh src dst d fs"
  defines "p1 \<equiv> pm_remove dst (path_to_ino fs)"
  defines "i1 \<equiv> (\<lambda>i. if pm_get (path_to_ino fs) dst = Some i then None else ino_to_path fs i)"
  defines "gone \<equiv> \<exists>k \<in> set (movers src d p1). pm_get p1 k = Some i"
  shows "map_option components
      (case map_of (rev (moves src dst d p1)) i of Some p \<Rightarrow> Some p | None \<Rightarrow> if gone then None else i1 i) =
      (case ino_to_path fs i of
         None \<Rightarrow> None
       | Some p \<Rightarrow> if same_path p dst then None
                 else if under src d p then Some (moved_components src dst (components p))
                 else Some (components p))"
proof -
  have abs: "is_absolute src" "is_absolute dst" using fresh by (auto simp: rename_fresh_def)
  have ok1: "table_ok p1 i1"
    using table_remove [OF ok, of "[dst]"] by (simp add: p1_def i1_def)
  have dist: "distinct (map fst (rev (moves src dst d p1)))"
    using moves_distinct(1) [OF ok1 abs] by (simp add: rev_map [symmetric])
  show ?thesis
  proof (cases gone)
    case True
    then obtain k where k: "k \<in> set (movers src d p1)" "pm_get p1 k = Some i" by (auto simp: gone_def)
    obtain j q where q: "under src d k" "is_absolute k" "pm_get p1 k = Some j" "i1 j = Some q" "same_path q k"
      by (rule movers_table [OF ok1 k(1)])
    have "(i, new_path src dst k) \<in> set (rev (moves src dst d p1))"
      using k by (force simp: moves_def)
    with dist have "map_of (rev (moves src dst d p1)) i = Some (new_path src dst k)" by simp
    moreover have "ino_to_path fs i = Some q" "\<not> same_path q dst" "under src d q"
      using q k under_cong [OF q(5)] by (auto simp: i1_def p1_def same_path_def split: if_splits)
    ultimately show ?thesis
      using new_path_components(1) [OF abs q(2,1)] q(5) by (simp add: same_path_def)
  next
    case False
    then have "map_of (rev (moves src dst d p1)) i = None"
      unfolding map_of_eq_None_iff
      using movers_props(2) [OF table_okD(1) [OF ok1]] by (force simp: moves_def gone_def)
    moreover have "\<not> under src d p" if "i1 i = Some p" for p
    proof
      assume "under src d p"
      moreover have "pm_get p1 p = Some i" using table_okD(4) [OF ok1 that] .
      ultimately obtain k where "k \<in> set (movers src d p1)" "same_path k p"
        using movers_props(3) [OF table_okD(1) [OF ok1]] by blast
      with \<open>pm_get p1 p = Some i\<close> False show False
        using pm_get_cong [of k p p1] by (auto simp: gone_def)
    qed
    moreover have "same_path p dst \<longleftrightarrow> pm_get (path_to_ino fs) dst = Some i" if "ino_to_path fs i = Some p" for p
      using table_okD(2) [OF ok, of dst i] table_okD(4) [OF ok that] that
        pm_get_cong [of p dst "path_to_ino fs"] by auto
    ultimately show ?thesis
      using False by (auto simp: i1_def split: option.splits if_splits)
  qed
qed

lemma rename_inodes_refines:
  assumes ok: "table_ok (path_to_ino fs) (ino_to_path fs)" and fresh: "rename_fresh src dst d fs"
  shows "table_ok (path_to_ino (rename_inodes src dst d fs)) (ino_to_path (rename_inodes src dst d fs)) \<and>
    map_option components (ino_to_path (rename_inodes src dst d fs) i) =
      (case ino_to_path fs i of
         None \<Rightarrow> None
       | Some p \<Rightarrow> if same_path p dst then None
                 else if under src d p then Some (moved_components src dst (components p))
                 else Some (components p))"
proof -
  define p1 where "p1 = pm_remove dst (path_to_ino fs)"
  define i1 where "i1 = (\<lambda>i. if pm_get (path_to_ino fs) dst = Some i then None else ino_to_path fs i)"
  define ks where "ks = movers src d p1"
  define moved where "moved = moves src dst d p1"
  define i2 where "i2 = (\<lambda>i. if \<exists>k \<in> set ks. pm_get p1 k = Some i then None else i1 i)"
  have abs: "is_absolute src" "is_absolute dst" and dst: "\<not> under src d dst"
    using fresh by (auto simp: rename_fresh_def)
  have ok1: "table_ok p1 i1"
    using table_remove [OF ok, of "[dst]"] by (simp add: p1_def i1_def)
  have dist: "distinct (map fst moved)" "distinct (map (components \<circ> snd) moved)"
    unfolding moved_def by (rule moves_distinct [OF ok1 abs])+
  have key: "\<exists>i q. pm_get p1 k = Some i \<and> i1 i = Some q \<and> same_path q k \<and> (i, new_path src dst k) \<in> set moved"
    if k: "k \<in> set ks" for k
    by (rule movers_table [OF ok1 k [unfolded ks_def]])
      (use k in \<open>force simp: moved_def moves_def ks_def\<close>)
  have new: "is_absolute p \<and> pm_get (fold pm_remove ks p1) p = None \<and> i2 i = None"
    if m: "(i, p) \<in> set moved" for i p
  proof -
    obtain k where k: "k \<in> set ks" "i = the (pm_get p1 k)" "p = new_path src dst k"
      using m by (auto simp: moved_def moves_def ks_def)
    then show ?thesis
      using key [OF k(1)] moves_free [OF fresh, folded p1_def, OF ok1 k(1) [unfolded ks_def]] abs
      by (auto simp: i2_def pm_fold_remove new_path_def)
  qed
  have "i \<in> fst ` set moved \<longleftrightarrow> (\<exists>k \<in> set ks. pm_get p1 k = Some i)" for i
    using key by (force simp: moved_def moves_def ks_def)
  then have forget: "place_moved moved (fold pm_remove ks p1) i2 = place_moved moved (fold pm_remove ks p1) i1"
    using place_moved_forget [of moved "fold pm_remove ks p1" i1] by (simp add: i2_def)
  obtain p2i i2p where place: "place_moved moved (fold pm_remove ks p1) i2 = (p2i, i2p)" by force
  have "table_ok (fold pm_remove ks p1) i2"
    using table_remove [OF ok1, of ks] by (simp add: i2_def)
  from table_place [OF this dist new] have t: "table_ok p2i i2p" by (simp add: place)
  have fs': "rename_inodes src dst d fs = fs\<lparr>path_to_ino := p2i, ino_to_path := i2p\<rparr>"
    using rename_inodes_eq [OF ok dst, folded p1_def i1_def moves_def] forget place
    by (simp add: moved_def ks_def)
  have i2p: "i2p = i2 ++ map_of (rev moved)" using place by (simp add: place_moved_eq)
  have eq: "i2p i = (case map_of (rev (moves src dst d p1)) i of
      Some p \<Rightarrow> Some p
    | None \<Rightarrow> if \<exists>k \<in> set (movers src d p1). pm_get p1 k = Some i then None
             else if pm_get (path_to_ino fs) dst = Some i then None else ino_to_path fs i)"
    by (auto simp: i2p i2_def map_add_def moved_def ks_def i1_def split: option.split)
  show ?thesis
    using t moves_view [OF ok fresh, of i, folded p1_def, folded eq] by (simp add: fs')
qed

section \<open>Every handler keeps the table\<close>

definition ino_inv :: "adbfs \<Rightarrow> bool" where
  "ino_inv fs \<longleftrightarrow>
     table_ok (path_to_ino fs) (ino_to_path fs) \<and> 100 \<le> next_ino fs \<and>
     (\<forall>i p. ino_to_path fs i = Some p \<longrightarrow> unat i < next_ino fs) \<and>
     (\<exists>q. ino_to_path fs ROOT_INO = Some q \<and> components q = [RootDir])"

text \<open>What only touches the caches and the handles leaves the table alone.\<close>

lemma table_fields [simp]:
  "ino_to_path (cache_put now path st fs) = ino_to_path fs"
  "path_to_ino (cache_put now path st fs) = path_to_ino fs"
  "next_ino (cache_put now path st fs) = next_ino fs"
  "ino_to_path (cache_invalidate path fs) = ino_to_path fs"
  "path_to_ino (cache_invalidate path fs) = path_to_ino fs"
  "next_ino (cache_invalidate path fs) = next_ino fs"
  "ino_to_path (snd (add_handle f fs)) = ino_to_path fs"
  "path_to_ino (snd (add_handle f fs)) = path_to_ino fs"
  "next_ino (snd (add_handle f fs)) = next_ino fs"
  by (simp_all add: cache_put_def cache_invalidate_def add_handle_def Let_def)

lemma table_fields_parent [simp]:
  "ino_to_path (invalidate_parent_listing path fs) = ino_to_path fs"
  "path_to_ino (invalidate_parent_listing path fs) = path_to_ino fs"
  "next_ino (invalidate_parent_listing path fs) = next_ino fs"
  by (simp_all add: invalidate_parent_listing_def split: option.split)

lemma table_fields_rename [simp]:
  "ino_to_path (invalidate_after_rename src dst d fs) = ino_to_path fs"
  "path_to_ino (invalidate_after_rename src dst d fs) = path_to_ino fs"
  "next_ino (invalidate_after_rename src dst d fs) = next_ino fs"
  by (simp_all add: invalidate_after_rename_def Let_def)

lemma ino_inv_fields [simp]:
  "ino_inv (fs\<lparr>fs_cache := c\<rparr>) = ino_inv fs"
  "ino_inv (fs\<lparr>fs_dir_cache := dc\<rparr>) = ino_inv fs"
  "ino_inv (fs\<lparr>open_files := h\<rparr>) = ino_inv fs"
  "ino_inv (cache_put now path st fs) = ino_inv fs"
  "ino_inv (cache_invalidate path fs) = ino_inv fs"
  "ino_inv (invalidate_parent_listing path fs) = ino_inv fs"
  "ino_inv (invalidate_after_rename src dst d fs) = ino_inv fs"
  "ino_inv (snd (add_handle f fs)) = ino_inv fs"
  by (simp_all add: ino_inv_def)

lemma ino_inv_start: "ino_inv with_proxy"
proof -
  have "components ''/'' = [RootDir]" by (simp add: components_absolute body_components_Cons)
  then show ?thesis
    by (auto simp: ino_inv_def with_proxy_def table_ok_def pm_insert_def pm_get_Cons pm_ok_def
        is_absolute_def split: if_splits)
qed

lemma ino_for_next: "next_ino fs \<le> next_ino (snd (ino_for path fs))"
  by (simp add: ino_for_def Let_def split: option.split)

lemma ino_for_inv:
  assumes inv: "ino_inv fs" and abs: "is_absolute path" and r: "ino_for path fs = (i, fs')"
    and room: "next_ino fs' \<le> 2 ^ 64"
  shows "ino_inv fs'" and "\<exists>q. ino_to_path fs' i = Some q \<and> same_path q path"
proof -
  have ok: "table_ok (path_to_ino fs) (ino_to_path fs)" using inv by (simp add: ino_inv_def)
  have "ino_inv fs' \<and> (\<exists>q. ino_to_path fs' i = Some q \<and> same_path q path)"
  proof (cases "pm_get (path_to_ino fs) path")
    case None
    let ?i = "word_of_nat (next_ino fs) :: u64"
    have fs': "i = ?i" "fs' = fs\<lparr>next_ino := next_ino fs + 1,
        path_to_ino := pm_insert path ?i (path_to_ino fs), ino_to_path := (ino_to_path fs)(?i \<mapsto> path)\<rparr>"
      using r None by (auto simp: ino_for_def Let_def)
    with room have n: "unat ?i = next_ino fs" by (simp add: unat_of_nat)
    then have new: "ino_to_path fs ?i = None"
      using inv by (cases "ino_to_path fs ?i") (auto simp: ino_inv_def)
    have "ROOT_INO \<noteq> ?i"
      using n inv by (auto simp: ino_inv_def)
    with table_insert [OF ok None new abs] inv n fs' show ?thesis
      by (auto simp: ino_inv_def less_Suc_eq)
  next
    case (Some j)
    then show ?thesis using r inv table_okD(2) [OF ok Some] by (simp add: ino_for_def)
  qed
  then show "ino_inv fs'" and "\<exists>q. ino_to_path fs' i = Some q \<and> same_path q path" by blast+
qed

lemma resolve_child_absolute: "ino_inv fs \<Longrightarrow> resolve_child ino name fs = Some p \<Longrightarrow> is_absolute p"
  by (auto simp: resolve_child_def ino_inv_def dest: table_okD(3) split: option.splits)

lemma ino_inv_absolute: "ino_inv fs \<Longrightarrow> ino_to_path fs ino = Some p \<Longrightarrow> is_absolute p"
  by (auto simp: ino_inv_def dest: table_okD(3))

lemma forget_inv: "ino_inv fs \<Longrightarrow> ino_inv (forget_ino ino fs)"
  using table_remove1 [of "path_to_ino fs" "ino_to_path fs" _ ino] table_okD(4) [of "path_to_ino fs" "ino_to_path fs" ino]
  by (simp add: forget_ino_def ino_inv_def split: option.split)

lemma adopt_inv:
  assumes "ino_inv fs" "is_absolute parent" "next_ino (snd (adopt_listing_entry now parent entry fresh fs)) \<le> 2 ^ 64"
  shows "ino_inv (snd (adopt_listing_entry now parent entry fresh fs))"
proof -
  obtain i fs' where r: "ino_for (path_join parent (de_name entry)) fs = (i, fs')" by force
  with ino_for_inv [OF assms(1) _ r] assms(2,3) show ?thesis
    by (cases fresh) (simp_all add: adopt_listing_entry_def Let_def)
qed

lemma adopt_next: "next_ino fs \<le> next_ino (snd (adopt_listing_entry now parent entry fresh fs))"
  using ino_for_next [of fs "path_join parent (de_name entry)"]
  by (auto simp: adopt_listing_entry_def Let_def split: prod.splits)

lemma readdir_loop_next: "next_ino fs \<le> next_ino (snd (readdir_loop add now path fresh n entries b fs))"
proof (induction entries arbitrary: n b fs)
  case (Cons entry entries)
  obtain i fs1 where a: "adopt_listing_entry now path entry fresh fs = (i, fs1)" by force
  obtain full b1 where f: "add b i (word_of_nat n + 3) (kind_from_mode (s_mode (de_stat entry))) (de_name entry) = (full, b1)"
    by force
  show ?case
    using Cons.IH [of fs1 "Suc n" b1] adopt_next [of fs now path entry fresh] by (simp add: a f)
qed simp

lemma readdir_loop_inv:
  assumes "ino_inv fs" "is_absolute path" "next_ino (snd (readdir_loop add now path fresh n entries b fs)) \<le> 2 ^ 64"
  shows "ino_inv (snd (readdir_loop add now path fresh n entries b fs))"
  using assms
proof (induction entries arbitrary: n b fs)
  case (Cons entry entries)
  obtain i fs1 where a: "adopt_listing_entry now path entry fresh fs = (i, fs1)" by force
  obtain full b1 where f: "add b i (word_of_nat n + 3) (kind_from_mode (s_mode (de_stat entry))) (de_name entry) = (full, b1)"
    by force
  have "next_ino fs1 \<le> 2 ^ 64"
    using Cons.prems(3) readdir_loop_next [of fs1 add now path fresh "Suc n" entries b1] by (simp add: a f)
  then have "ino_inv fs1"
    using adopt_inv [OF Cons.prems(1,2), of now entry fresh] by (simp add: a)
  with Cons show ?case by (simp add: a f)
qed simp

text \<open>
  A state is sound from a count on when the counter has not gone below that count and the
  table is good, unless the counter has gone around; a handler is good when the state it
  leaves is sound from the count it started with.
\<close>

definition sound :: "nat \<Rightarrow> adbfs \<Rightarrow> bool" where
  "sound n fs \<longleftrightarrow> n \<le> next_ino fs \<and> (next_ino fs \<le> 2 ^ 64 \<longrightarrow> ino_inv fs)"

definition good :: "nat \<Rightarrow> 'b fuse_reply \<times> adbfs \<times> 's \<Rightarrow> bool" where
  "good n r \<longleftrightarrow> sound n (fst (snd r))"

lemma good_simps [simp]: "good n (r, fs, s) = sound n fs" "good n (r, st) = sound n (fst st)"
  by (simp_all add: good_def)

lemma sound_inv: "ino_inv fs \<Longrightarrow> sound (next_ino fs) fs"
  by (simp add: sound_def)

lemma sound_fields [simp]:
  "sound n (fs\<lparr>fs_cache := c\<rparr>) = sound n fs"
  "sound n (fs\<lparr>fs_dir_cache := dc\<rparr>) = sound n fs"
  "sound n (fs\<lparr>open_files := h\<rparr>) = sound n fs"
  "sound n (cache_put now path st fs) = sound n fs"
  "sound n (cache_invalidate path fs) = sound n fs"
  "sound n (invalidate_parent_listing path fs) = sound n fs"
  "sound n (invalidate_after_rename src dst d fs) = sound n fs"
  "sound n (snd (add_handle f fs)) = sound n fs"
  by (simp_all add: sound_def)

lemma sound_ino_for [simp]:
  assumes "sound n fs" "is_absolute path" shows "sound n (snd (ino_for path fs))"
  using assms ino_for_next [of fs path] ino_for_inv(1) [of fs path "fst (ino_for path fs)"]
  by (simp add: sound_def)

lemma sound_loop [simp]:
  assumes "sound n fs" "is_absolute path" shows "sound n (snd (readdir_loop add now path fresh m entries b fs))"
  using assms readdir_loop_next [of fs add now path fresh m entries b] readdir_loop_inv [of fs path add now fresh m entries b]
  by (simp add: sound_def)

lemma good_child:
  assumes "ino_inv fs" "\<And>path. resolve_child ino name fs = Some path \<Longrightarrow> is_absolute path \<Longrightarrow> good (next_ino fs) (k path)"
  shows "good (next_ino fs) (or_einval (resolve_child ino name fs) (fs, s) k)"
  using assms resolve_child_absolute [OF assms(1)]
  by (auto simp: or_einval_def sound_inv split: option.split)

lemma good_known:
  assumes "ino_inv fs" "\<And>path. is_absolute path \<Longrightarrow> good (next_ino fs) (k path)"
  shows "good (next_ino fs) (or_einval (ino_to_path fs ino) (fs, s) k)"
  using assms ino_inv_absolute [OF assms(1)]
  by (auto simp: or_einval_def sound_inv split: option.split)

lemma good_str:
  assumes "sound n fs" "\<And>x. good n (k x)" shows "good n (or_einval (path_to_string p) (fs, s) k)"
  using assms by (auto simp: or_einval_def split: option.split)

lemmas good_intros = good_child good_known good_str sound_inv

lemma good_lookup: "ino_inv fs \<Longrightarrow> good (next_ino fs) (fs_lookup P parent name (fs, s))"
  unfolding fs_lookup_def prod.case
  by (intro good_intros, assumption) (auto simp: case_prod_beta Let_def sound_inv split: sum.split)

lemma good_getattr: "ino_inv fs \<Longrightarrow> good (next_ino fs) (fs_getattr P ino fh (fs, s))"
  unfolding fs_getattr_def prod.case
  by (intro good_known, assumption)
    (auto simp: case_prod_beta Let_def sound_inv split: sum.split option.split intro!: good_str)

lemma good_known_handlers:
  assumes "ino_inv fs"
  shows "good (next_ino fs) (fs_readlink P ino (fs, s))" "good (next_ino fs) (fs_open P ino flags (fs, s))"
    "good (next_ino fs) (fs_setattr P ino others n fh (fs, s))"
  unfolding fs_readlink_def fs_open_def fs_setattr_def prod.case
  using assms
  by (auto simp: case_prod_beta Let_def sound_inv intro!: good_known good_str split: sum.split option.split)

lemma good_handle_handlers:
  assumes "ino_inv fs"
  shows "good (next_ino fs) (fs_read P h off n (fs, s))" "good (next_ino fs) (fs_write P ino h off data (fs, s))"
    "good (next_ino fs) (fs_release P ino h (fs, s))" "good (next_ino fs) (fs_statfs (fs, s))"
  unfolding fs_read_def fs_write_def fs_release_def fs_statfs_def prod.case
  using assms by (auto simp: case_prod_beta Let_def sound_inv split: sum.split option.split)

lemma good_child_handlers:
  assumes "ino_inv fs"
  shows "good (next_ino fs) (fs_unlink P ino name (fs, s))" "good (next_ino fs) (fs_rmdir P ino name (fs, s))"
    "good (next_ino fs) (fs_mkdir P ino name mode (fs, s))" "good (next_ino fs) (fs_create P ino name mode flags (fs, s))"
    "good (next_ino fs) (fs_symlink P ino name target (fs, s))"
  unfolding fs_unlink_def fs_rmdir_def fs_mkdir_def fs_create_def fs_symlink_def prod.case
  using assms
  by (auto simp: case_prod_beta Let_def sound_inv intro!: good_child good_str split: sum.split)

lemma good_readdir:
  assumes "ino_inv fs" "fs_readdir add P ino offset b (fs, s) = Some r"
  shows "good (next_ino fs) r"
  using assms ino_inv_absolute [OF assms(1), of ino]
  by (auto simp: fs_readdir_def readdir_reply_def case_prod_beta Let_def sound_inv
      split: option.splits sum.splits)

text \<open>
  What a rename may be asked to do: neither side is the root, and the state is fresh for
  it. The kernel never asks for the first; the second is what a rename of a directory over
  an emptied one may break.
\<close>

definition rename_sane :: "u64 \<Rightarrow> string \<Rightarrow> u64 \<Rightarrow> string \<Rightarrow> adbfs \<Rightarrow> bool" where
  "rename_sane parent name newparent newname fs \<longleftrightarrow>
     (\<forall>src dst. resolve_child parent name fs = Some src \<longrightarrow> resolve_child newparent newname fs = Some dst \<longrightarrow>
        components src \<noteq> [RootDir] \<and> components dst \<noteq> [RootDir] \<and> rename_fresh src dst True fs)"

lemma rename_fresh_file: "rename_fresh src dst True fs \<Longrightarrow> rename_fresh src dst d fs"
  using under_starts [of src d dst] by (cases d) (auto simp: rename_fresh_def under_def)

lemma next_rename: "next_ino (rename_inodes src dst d fs) = next_ino fs"
  by (simp add: rename_inodes_def Let_def case_prod_beta)

lemma rename_inv:
  assumes inv: "ino_inv fs" and fresh: "rename_fresh src dst d fs"
    and root: "components src \<noteq> [RootDir]" "components dst \<noteq> [RootDir]"
  shows "ino_inv (rename_inodes src dst d fs)"
proof -
  have ok: "table_ok (path_to_ino fs) (ino_to_path fs)" using inv by (simp add: ino_inv_def)
  note view = rename_inodes_refines [OF ok fresh]
  have "\<exists>p. ino_to_path fs i = Some p" if "ino_to_path (rename_inodes src dst d fs) i = Some q" for i q
    using view [of i] that by (auto split: option.splits)
  moreover have "\<exists>q. ino_to_path (rename_inodes src dst d fs) ROOT_INO = Some q \<and> components q = [RootDir]"
  proof -
    obtain q where q: "ino_to_path fs ROOT_INO = Some q" "components q = [RootDir]"
      using inv by (auto simp: ino_inv_def)
    obtain cs where "components src = RootDir # cs"
      using fresh by (auto simp: rename_fresh_def absolute_components)
    with q root have "\<not> same_path q dst" "\<not> under src d q"
      by (auto simp: same_path_def under_def path_starts_with_def)
    with view [of ROOT_INO] q show ?thesis by auto
  qed
  ultimately show ?thesis using view inv unfolding ino_inv_def next_rename by metis
qed

lemma good_rename:
  assumes inv: "ino_inv fs" and sane: "rename_sane parent name newparent newname fs"
  shows "good (next_ino fs) (fs_rename P parent name newparent newname flags (fs, s))"
proof -
  have go: "good (next_ino fs) (rename_go P src dst src_str dst_str (fs, s'))"
    if "resolve_child parent name fs = Some src" "resolve_child newparent newname fs = Some dst"
    for src dst src_str dst_str s'
  proof -
    have fresh: "components src \<noteq> [RootDir]" "components dst \<noteq> [RootDir]" "rename_fresh src dst True fs"
      using sane that by (auto simp: rename_sane_def)
    obtain d fs1 s1 where r: "rename_is_dir P src src_str (fs, s') = (d, fs1, s1)" by (metis prod_cases3)
    then have same: "ino_inv fs1" "path_to_ino fs1 = path_to_ino fs" "next_ino fs1 = next_ino fs"
      using inv by (auto simp: rename_is_dir_def case_prod_beta Let_def split: option.splits sum.splits)
    then have "rename_fresh src dst d fs1"
      using rename_fresh_file [OF fresh(3), of d] by (simp add: rename_fresh_def)
    from rename_inv [OF same(1) this fresh(1,2)] same show ?thesis
      by (auto simp: rename_go_def r case_prod_beta Let_def sound_def next_rename split: sum.split)
  qed
  show ?thesis
    unfolding fs_rename_def prod.case
    using inv by (auto simp: case_prod_beta Let_def sound_inv intro!: good_child good_str go
        split: sum.split proxy_error.split status.split)
qed

section \<open>Reachable states\<close>

text \<open>
  The states of the filesystem under any sequence of kernel requests that hands out fewer
  than \<open>2 ^ 64 - 100\<close> inodes; between two requests the phone does what it likes.
\<close>

inductive fs_reach ::
  "('b \<Rightarrow> u64 \<Rightarrow> u64 \<Rightarrow> file_type \<Rightarrow> string \<Rightarrow> bool \<times> 'b) \<Rightarrow> 's sync_proxy \<Rightarrow> adbfs \<times> 's \<Rightarrow> bool"
  for add P where
  start: "fs_reach add P (with_proxy, s)"
| phone: "fs_reach add P (fs, s) \<Longrightarrow> fs_reach add P (fs, s')"
| request: "fs_reach add P (fs, s) \<Longrightarrow> handle add b P r (fs, s) = Some (reply, fs', s') \<Longrightarrow>
    (\<forall>parent name newparent newname flags. r = Rename parent name newparent newname flags \<longrightarrow>
       rename_sane parent name newparent newname fs) \<Longrightarrow> next_ino fs' \<le> 2 ^ 64 \<Longrightarrow>
    fs_reach add P (fs', s')"

lemma handle_good:
  assumes inv: "ino_inv fs" and h: "handle add b P r (fs, s) = Some x"
    and sane: "\<forall>parent name newparent newname flags. r = Rename parent name newparent newname flags \<longrightarrow>
       rename_sane parent name newparent newname fs"
  shows "good (next_ino fs) x"
proof (cases r)
  case (Readdir ino offset)
  then show ?thesis using h good_readdir [OF inv, of add P ino offset b s x] by simp
next
  case (Forget ino)
  then show ?thesis using inv h forget_inv sound_inv [of "forget_ino ino fs"]
    by (auto simp: fs_forget_def forget_ino_def split: option.splits if_splits)
next
  case (Rename parent name newparent newname flags)
  then show ?thesis using h good_rename [OF inv] sane by auto
qed (use inv h good_lookup good_getattr good_known_handlers good_handle_handlers good_child_handlers in auto)

lemma fs_reach_inv: "fs_reach add P st \<Longrightarrow> ino_inv (fst st)"
proof (induction rule: fs_reach.induct)
  case (request fs s b r reply fs' s')
  then have "good (next_ino fs) (reply, fs', s')" by (intro handle_good) simp_all
  with request show ?case by (simp add: sound_def)
qed (simp_all add: ino_inv_start)

end
