(* ===== verification/Fuse_Readdir.thy ===== *)
theory Fuse_Readdir
  imports Fuse_Inodes
begin

text \<open>
  Reading a directory through the mount. The kernel reads a directory with as many
  \<open>readdir\<close> requests as it needs, each from the offset of the last entry it has got;
  \<open>walk\<close> is that loop. What \<open>fuser\<close> documents of its buffer is \<open>dir_buffer\<close>: \<open>add\<close> appends the
  entry, or says that the buffer is full and leaves it alone. A buffer that
  \<open>stops_when_full\<close> rejects everything after the first entry it rejected; a buffer that counts
  bytes does not, and there the loop, which goes on after a rejection, loses an entry.
\<close>

section \<open>The buffer and the walk\<close>

type_synonym dirent = "u64 \<times> u64 \<times> file_type \<times> string"
type_synonym 'b adder = "'b \<Rightarrow> u64 \<Rightarrow> u64 \<Rightarrow> file_type \<Rightarrow> string \<Rightarrow> bool \<times> 'b"

definition dir_buffer :: "'b adder \<Rightarrow> ('b \<Rightarrow> dirent list) \<Rightarrow> bool" where
  "dir_buffer add contents \<longleftrightarrow>
     (\<forall>b i off k n b'. add b i off k n = (False, b') \<longrightarrow> contents b' = contents b @ [(i, off, k, n)]) \<and>
     (\<forall>b i off k n b'. add b i off k n = (True, b') \<longrightarrow> b' = b)"

definition stops_when_full :: "'b adder \<Rightarrow> bool" where
  "stops_when_full add \<longleftrightarrow>
     (\<forall>b i off k n i' off' k' n'. fst (add b i off k n) \<longrightarrow> fst (add b i' off' k' n'))"

definition has_room :: "'b adder \<Rightarrow> 'b \<Rightarrow> bool" where
  "has_room add b \<longleftrightarrow> (\<forall>i off k n. \<not> fst (add b i off k n))"

text \<open>Offset and name of an entry, and all entries of a directory with their offsets.\<close>

fun off_name :: "dirent \<Rightarrow> u64 \<times> string" where
  "off_name (i, off, k, n) = (off, n)"

fun numbered :: "nat \<Rightarrow> dir_entry list \<Rightarrow> (u64 \<times> string) list" where
  "numbered n [] = []"
| "numbered n (e # es) = (word_of_nat n + 3, de_name e) # numbered (Suc n) es"

definition dir_listing :: "dir_entry list \<Rightarrow> (u64 \<times> string) list" where
  "dir_listing entries = (1, ''.'') # (2, ''..'') # numbered 0 entries"

fun walk ::
  "nat \<Rightarrow> 'b adder \<Rightarrow> ('b \<Rightarrow> dirent list) \<Rightarrow> 'b \<Rightarrow> 's sync_proxy \<Rightarrow> u64 \<Rightarrow> u64 \<Rightarrow> adbfs \<times> 's \<Rightarrow>
     ((u64 \<times> string) list \<times> adbfs \<times> 's) option" where
  "walk 0 add contents b P ino offset st = None"
| "walk (Suc fuel) add contents b P ino offset st =
     (case fs_readdir add P ino offset b st of
        Some (RDirectory b', st') \<Rightarrow>
          (let page = map off_name (contents b')
           in if page = [] then Some ([], st')
              else case walk fuel add contents b P ino (fst (last page)) st' of
                     Some (rest, st'') \<Rightarrow> Some (page @ rest, st'')
                   | None \<Rightarrow> None)
      | _ \<Rightarrow> None)"

section \<open>What one request returns\<close>

lemma length_numbered [simp]: "length (numbered n es) = length es"
  by (induction n es rule: numbered.induct) simp_all

lemma drop_numbered: "drop k (numbered n es) = numbered (n + k) (drop k es)"
proof (induction n es arbitrary: k rule: numbered.induct)
  case (2 n e es)
  then show ?case by (cases k) simp_all
qed simp

lemma dir_bufferD:
  assumes "dir_buffer add contents"
  shows "\<not> fst (add b i off k n) \<Longrightarrow> contents (snd (add b i off k n)) = contents b @ [(i, off, k, n)]"
    and "fst (add b i off k n) \<Longrightarrow> snd (add b i off k n) = b"
  using assms unfolding dir_buffer_def by (metis (full_types) prod.collapse)+

definition is_full :: "'b adder \<Rightarrow> 'b \<Rightarrow> bool" where
  "is_full add b \<longleftrightarrow> (\<forall>i off k n. fst (add b i off k n))"

text \<open>Handing the entries \<open>xs\<close> to a buffer that stops when it is full: it takes the first of them.\<close>

definition takes :: "'b adder \<Rightarrow> ('b \<Rightarrow> dirent list) \<Rightarrow> 'b \<Rightarrow> (u64 \<times> string) list \<Rightarrow> 'b \<Rightarrow> bool" where
  "takes add contents b xs b' \<longleftrightarrow>
     (\<exists>k. map off_name (contents b') = map off_name (contents b) @ take k xs \<and>
        (has_room add b \<longrightarrow> xs \<noteq> [] \<longrightarrow> 0 < k) \<and> (k < length xs \<longrightarrow> is_full add b')) \<and>
     (is_full add b \<longrightarrow> b' = b)"

lemma takes_nil [simp]: "takes add contents b [] b"
  by (simp add: takes_def)

lemma takes_append:
  assumes 1: "takes add contents b xs b1" and 2: "takes add contents b1 ys b2" and "xs \<noteq> []"
  shows "takes add contents b (xs @ ys) b2"
proof -
  obtain k where k: "map off_name (contents b1) = map off_name (contents b) @ take k xs"
      "has_room add b \<longrightarrow> 0 < k" "k < length xs \<longrightarrow> is_full add b1"
    using 1 \<open>xs \<noteq> []\<close> by (auto simp: takes_def)
  obtain j where j: "map off_name (contents b2) = map off_name (contents b1) @ take j ys"
      "j < length ys \<longrightarrow> is_full add b2"
    using 2 by (auto simp: takes_def)
  have full: "is_full add b \<longrightarrow> b2 = b" using 1 2 by (auto simp: takes_def)
  show ?thesis
  proof (cases "k < length xs")
    case True
    then have "b2 = b1" using k 2 by (simp add: takes_def)
    with True k full show ?thesis by (auto simp: takes_def intro!: exI [of _ k])
  next
    case False
    with k j full \<open>xs \<noteq> []\<close> show ?thesis
      by (auto simp: takes_def intro!: exI [of _ "length xs + j"])
  qed
qed

lemma takes_add:
  assumes buf: "dir_buffer add contents" and stop: "stops_when_full add"
  shows "takes add contents b [(off, n)] (snd (add b i off k n))"
proof (cases "fst (add b i off k n)")
  case True
  then have "is_full add b" using stop unfolding stops_when_full_def is_full_def by blast
  moreover have "\<not> has_room add b" using True by (auto simp: has_room_def)
  ultimately show ?thesis
    using dir_bufferD(2) [OF buf True]
    by (auto simp: takes_def intro!: exI [of _ 0])
next
  case False
  then show ?thesis
    using dir_bufferD(1) [OF buf False]
    by (auto simp: takes_def is_full_def intro!: exI [of _ "Suc 0"])
qed

lemma takes_loop:
  assumes "dir_buffer add contents" and "stops_when_full add"
  shows "takes add contents b (numbered n entries) (fst (readdir_loop add now path fresh n entries b fs))"
proof (induction entries arbitrary: n b fs)
  case (Cons e entries)
  obtain i fs1 where a: "adopt_listing_entry now path e fresh fs = (i, fs1)" by force
  let ?b = "snd (add b i (word_of_nat n + 3) (kind_from_mode (s_mode (de_stat e))) (de_name e))"
  have "takes add contents b ([(word_of_nat n + 3, de_name e)] @ numbered (Suc n) entries)
      (fst (readdir_loop add now path fresh (Suc n) entries ?b fs1))"
    by (rule takes_append [OF takes_add [OF assms] Cons.IH]) simp
  then show ?case by (simp add: a case_prod_beta Let_def)
qed simp

lemma takes_reply:
  assumes buf: "dir_buffer add contents" "stops_when_full add"
  shows "takes add contents b (drop (unat offset) (dir_listing entries))
    (fst (readdir_reply add now ino path offset entries fresh b fs))"
proof -
  let ?l = "\<lambda>b. fst (readdir_loop add now path fresh 0 entries b fs)"
  have loop: "takes add contents b (numbered 0 entries) (?l b)" for b
    by (rule takes_loop [OF buf])
  have one: "takes add contents b ((2, ''..'') # numbered 0 entries)
      (?l (snd (add b ROOT_INO 2 Directory ''..'')))" for b
    using takes_append [OF takes_add [OF buf] loop] by simp
  consider "unat offset = 0" | "unat offset = 1" | k where "unat offset = Suc (Suc k)"
    by (metis One_nat_def not0_implies_Suc)
  then show ?thesis
  proof cases
    case 1
    then show ?thesis
      using takes_append [OF takes_add [OF buf] one]
      by (simp add: readdir_reply_def dir_listing_def Let_def)
  next
    case 2
    then show ?thesis using one by (simp add: readdir_reply_def dir_listing_def Let_def)
  next
    case (3 k)
    then show ?thesis
      using takes_loop [OF buf, of b k "drop k entries"]
      by (simp add: readdir_reply_def dir_listing_def Let_def drop_numbered)
  qed
qed

section \<open>What a request does to the state\<close>

lemma ino_for_keeps:
  assumes "ino_inv fs" "next_ino fs < 2 ^ 64" "ino_to_path fs ino = Some path"
  shows "ino_to_path (snd (ino_for p fs)) ino = Some path"
proof -
  have "unat ino < next_ino fs" using assms by (auto simp: ino_inv_def)
  then have "ino \<noteq> word_of_nat (next_ino fs)"
    using assms(2) by (auto simp: unat_of_nat)
  then show ?thesis using assms(3) by (simp add: ino_for_def Let_def split: option.split)
qed

lemma ino_for_other:
  "fs_dir_cache (snd (ino_for p fs)) = fs_dir_cache fs"
  "next_ino (snd (ino_for p fs)) \<le> Suc (next_ino fs)"
  by (simp_all add: ino_for_def Let_def split: option.split)

lemma adopt_other:
  "fs_dir_cache (snd (adopt_listing_entry now path e fresh fs)) = fs_dir_cache fs"
  "next_ino (snd (adopt_listing_entry now path e fresh fs)) \<le> Suc (next_ino fs)"
  "ino_to_path (snd (adopt_listing_entry now path e fresh fs)) =
     ino_to_path (snd (ino_for (path_join path (de_name e)) fs))"
  by (simp_all add: adopt_listing_entry_def Let_def case_prod_beta ino_for_other)

lemma readdir_loop_state:
  assumes "ino_inv fs" "is_absolute path" "next_ino fs + length entries \<le> 2 ^ 64"
    "ino_to_path fs ino = Some q"
  shows "ino_inv (snd (readdir_loop add now path fresh n entries b fs)) \<and>
    ino_to_path (snd (readdir_loop add now path fresh n entries b fs)) ino = Some q \<and>
    fs_dir_cache (snd (readdir_loop add now path fresh n entries b fs)) = fs_dir_cache fs \<and>
    next_ino (snd (readdir_loop add now path fresh n entries b fs)) \<le> next_ino fs + length entries"
  using assms
proof (induction entries arbitrary: n b fs)
  case (Cons e entries)
  obtain i fs1 where a: "adopt_listing_entry now path e fresh fs = (i, fs1)" by force
  note other = adopt_other [of now path e fresh fs, unfolded a snd_conv]
  have inv: "ino_inv fs1"
    using adopt_inv [OF Cons.prems(1,2), of now e fresh] other(2) Cons.prems(3) by (simp add: a)
  have keep: "ino_to_path fs1 ino = Some q"
    using ino_for_keeps [OF Cons.prems(1) _ Cons.prems(4)] Cons.prems(3) by (simp add: other(3))
  have room: "next_ino fs1 + length entries \<le> 2 ^ 64" using other(2) Cons.prems(3) by simp
  let ?b = "snd (add b i (word_of_nat n + 3) (kind_from_mode (s_mode (de_stat e))) (de_name e))"
  show ?case
    using Cons.IH [OF inv Cons.prems(2) room keep, of "Suc n" ?b] other(1,2)
    by (simp add: a case_prod_beta Let_def)
qed simp

section \<open>The walk\<close>

definition reading :: "u64 \<Rightarrow> string \<Rightarrow> dir_entry list \<Rightarrow> adbfs \<Rightarrow> bool" where
  "reading ino path entries fs \<longleftrightarrow>
     ino_inv fs \<and> ino_to_path fs ino = Some path \<and> dc_inv (fs_dir_cache fs) \<and>
     coherent dc_lookup (\<lambda>q v. same_path q path \<longrightarrow> v = entries) (fs_dir_cache fs)"

definition lists :: "'s sync_proxy \<Rightarrow> string \<Rightarrow> dir_entry list \<Rightarrow> bool" where
  "lists P p entries \<longleftrightarrow> (\<forall>s. \<exists>s'. sp_listdir P p s = Some (Ok entries, s'))"

lemma readdir_reply_state:
  assumes "ino_inv fs" "is_absolute path" "next_ino fs + length entries \<le> 2 ^ 64" "ino_to_path fs ino = Some q"
  shows "ino_inv (snd (readdir_reply add now i path offset entries fresh b fs)) \<and>
    ino_to_path (snd (readdir_reply add now i path offset entries fresh b fs)) ino = Some q \<and>
    fs_dir_cache (snd (readdir_reply add now i path offset entries fresh b fs)) = fs_dir_cache fs \<and>
    next_ino (snd (readdir_reply add now i path offset entries fresh b fs)) \<le> next_ino fs + length entries"
proof -
  obtain k b' where r: "readdir_reply add now i path offset entries fresh b fs =
      readdir_loop add now path fresh k (drop k entries) b' fs"
    by (simp add: readdir_reply_def Let_def case_prod_beta)
  have "next_ino fs + length (drop k entries) \<le> 2 ^ 64" using assms(3) by simp
  from readdir_loop_state [OF assms(1,2) this assms(4), of add now fresh k b'] show ?thesis
    by (auto simp: r)
qed

lemma readdir_page:
  assumes inv: "reading ino path entries fs" and str: "path_to_string path = Some p" and lists: "lists P p entries"
    and room: "next_ino fs + length entries \<le> 2 ^ 64"
  shows "\<exists>now fresh fs1 fs' s'. fs_readdir add P ino offset b (fs, s) =
      Some (RDirectory (fst (readdir_reply add now ino path offset entries fresh b fs1)), fs', s') \<and>
    reading ino path entries fs' \<and> next_ino fs' \<le> next_ino fs + length entries"
proof -
  have R: "ino_inv fs" "ino_to_path fs ino = Some path" "dc_inv (fs_dir_cache fs)"
      "coherent dc_lookup (\<lambda>q v. same_path q path \<longrightarrow> v = entries) (fs_dir_cache fs)"
    using inv by (simp_all add: reading_def)
  have abs: "is_absolute path" using ino_inv_absolute [OF R(1,2)] .
  obtain r dc where g: "dc_get (sp_now P s) path (fs_dir_cache fs) = (r, dc)" by force
  have dc: "dc_inv dc" "coherent dc_lookup (\<lambda>q v. same_path q path \<longrightarrow> v = entries) dc"
    using dc.inv_get [OF R(3), of "sp_now P s" path] dc.coherent_get(1) [OF R(3,4) g] by (simp_all add: g)
  have reply: "reading ino path entries (snd (readdir_reply add now ino path offset entries fresh b fs')) \<and>
      next_ino (snd (readdir_reply add now ino path offset entries fresh b fs')) \<le> next_ino fs + length entries"
    if "fs' = fs\<lparr>fs_dir_cache := c\<rparr>" "dc_inv c" "coherent dc_lookup (\<lambda>q v. same_path q path \<longrightarrow> v = entries) c"
    for now fresh fs' c
    using readdir_reply_state [of fs' path entries ino path add now ino offset fresh b] R abs room that
    by (auto simp: reading_def)
  show ?thesis
  proof (cases r)
    case (Some cached)
    then have "cached = entries" using dc.coherent_get(2) [OF R(3,4) g] by simp
    then show ?thesis
      using Some R str g reply [OF refl dc, of "sp_now P s" False]
      by (simp add: fs_readdir_def case_prod_beta Let_def) blast
  next
    case None
    obtain s' where l: "sp_listdir P p s = Some (Ok entries, s')" using lists by (auto simp: lists_def)
    let ?dc = "dc_put (sp_now P s') path entries (dc_epoch dc) dc"
    have "dc_inv ?dc" "coherent dc_lookup (\<lambda>q v. same_path q path \<longrightarrow> v = entries) ?dc"
      using dc dc.coherent_put [OF dc(1,2), where p = path and v = entries] by simp_all
    from reply [OF refl this, of "sp_now P s'" True] None R str g l show ?thesis
      by (simp add: fs_readdir_def case_prod_beta Let_def) blast
  qed
qed

lemma numbered_nth: "j < length es \<Longrightarrow> fst (numbered n es ! j) = word_of_nat (n + j) + 3"
proof (induction n es arbitrary: j rule: numbered.induct)
  case (2 n e es)
  then show ?case by (cases j) simp_all
qed simp

lemma listing_nth:
  assumes "j < length (dir_listing entries)"
  shows "fst (dir_listing entries ! j) = word_of_nat (Suc j)"
proof -
  consider "j = 0" | "j = 1" | k where "j = Suc (Suc k)" by (metis One_nat_def not0_implies_Suc)
  then show ?thesis
    using assms by cases (auto simp: dir_listing_def numbered_nth)
qed

lemma last_take_drop:
  assumes "0 < k" "n < length xs"
  shows "last (take k (drop n xs)) = xs ! (n + min k (length xs - n) - 1)"
  using assms by (simp add: last_conv_nth min_def)

lemma walk_from:
  assumes buf: "dir_buffer add contents" "stops_when_full add" "has_room add b" "contents b = []"
    and str: "path_to_string path = Some p" and lists: "lists P p entries"
    and small: "length entries + 2 < 2 ^ 64"
  shows "reading ino path entries fs \<Longrightarrow> next_ino fs + fuel * length entries \<le> 2 ^ 64 \<Longrightarrow>
    length entries + 2 - unat offset < fuel \<Longrightarrow>
    \<exists>st. walk fuel add contents b P ino offset (fs, s) = Some (drop (unat offset) (dir_listing entries), st)"
proof (induction fuel arbitrary: offset fs s)
  case (Suc fuel)
  let ?L = "dir_listing entries" and ?n = "unat offset"
  have len: "length ?L = length entries + 2" by (simp add: dir_listing_def)
  obtain b' fs' s' where r: "fs_readdir add P ino offset b (fs, s) = Some (RDirectory b', fs', s')"
      "takes add contents b (drop ?n ?L) b'" "reading ino path entries fs'" "next_ino fs' \<le> next_ino fs + length entries"
  proof -
    have "next_ino fs + length entries \<le> 2 ^ 64" using Suc.prems(2) by simp
    from readdir_page [OF Suc.prems(1) str lists this, of add offset b s] show thesis
      using that takes_reply [OF buf(1,2)] by blast
  qed
  from r(2) buf(3,4) obtain k where k: "map off_name (contents b') = take k (drop ?n ?L)" "drop ?n ?L \<noteq> [] \<longrightarrow> 0 < k"
    by (auto simp: takes_def)
  show ?case
  proof (cases "?n < length ?L")
    case False
    then show ?thesis using r k by simp
  next
    case True
    then have k0: "0 < k" using k(2) by simp
    define m where "m = ?n + min k (length ?L - ?n)"
    have m: "?n < m" "m \<le> length ?L" using k0 True by (auto simp: m_def)
    have "fst (last (take k (drop ?n ?L))) = word_of_nat m"
    proof -
      have "m - 1 < length ?L" "Suc (m - 1) = m" using m by simp_all
      with listing_nth [of "m - 1" entries] show ?thesis
        by (simp only: last_take_drop [OF k0 True, folded m_def])
    qed
    moreover have um: "unat (word_of_nat m :: u64) = m" using m len small by (simp add: unat_of_nat)
    moreover have "\<exists>st. walk fuel add contents b P ino (word_of_nat m) (fs', s') = Some (drop m ?L, st)"
      using Suc.IH [OF r(3), of "word_of_nat m" s'] r(4) Suc.prems m len um by (simp add: algebra_simps)
    moreover have "take k (drop ?n ?L) @ drop m ?L = drop ?n ?L"
      by (cases "k \<le> length ?L - ?n") (simp_all add: m_def min_def flip: drop_drop add: add.commute)
    ultimately show ?thesis using r k k0 True by auto
  qed
qed simp

end
