(* ===== verification/Fuse_Properties.thy ===== *)
theory Fuse_Properties
  imports Fuse_Readdir
begin

text \<open>
  The properties of the FUSE filesystem: the inode table, renames, directory reading, the
  caches, and three behaviours that go against what the code says.
\<close>

section \<open>The caches stay bounded\<close>

definition caches_ok :: "adbfs \<Rightarrow> bool" where
  "caches_ok fs \<longleftrightarrow> sc_inv (fs_cache fs) \<and> dc_inv (fs_dir_cache fs) \<and>
     dc_capacity (fs_dir_cache fs) = DIR_CACHE_CAPACITY"

lemma caches_ok_start: "caches_ok with_proxy"
  by (simp add: caches_ok_def with_proxy_def sc_inv_new dc_inv_new) (simp add: dc_new_def DIR_CACHE_CAPACITY_def)

lemma caches_ok_fields [simp]:
  assumes "caches_ok fs"
  shows "caches_ok (fs\<lparr>fs_cache := snd (sc_get now path (fs_cache fs))\<rparr>)"
    "caches_ok (fs\<lparr>fs_dir_cache := snd (dc_get now path (fs_dir_cache fs))\<rparr>)"
    "caches_ok (fs\<lparr>open_files := h\<rparr>)"
    "caches_ok (cache_put now path st fs)"
    "caches_ok (cache_invalidate path fs)"
    "caches_ok (fs\<lparr>fs_dir_cache := dc_invalidate path (fs_dir_cache fs)\<rparr>)"
    "caches_ok (snd (add_handle f fs))"
    "caches_ok (snd (ino_for path fs))"
    "caches_ok (forget_ino ino fs)"
    "caches_ok (rename_inodes src dst d fs)"
  using assms sc.inv_get dc.inv_get sc.inv_invalidate dc.inv_invalidate
  by (simp_all add: caches_ok_def cache_put_def cache_invalidate_def add_handle_def ino_for_def
      forget_ino_def rename_inodes_def Let_def case_prod_beta split: option.split)

lemma caches_ok_parent [simp]: "caches_ok fs \<Longrightarrow> caches_ok (invalidate_parent_listing path fs)"
  using sc.inv_invalidate dc.inv_invalidate
  by (simp add: caches_ok_def invalidate_parent_listing_def split: option.split)

lemma caches_ok_rename [simp]:
  assumes "caches_ok fs" shows "caches_ok (invalidate_after_rename src dst d fs)"
proof -
  have "caches_ok (invalidate_parent_listing dst (invalidate_parent_listing src fs))" using assms by simp
  then show ?thesis
    using sc.inv_invalidate dc.inv_invalidate sc.inv_invalidate_prefix dc.inv_invalidate_prefix
    by (simp add: caches_ok_def invalidate_after_rename_def Let_def)
qed

lemma caches_ok_put: "caches_ok fs \<Longrightarrow> caches_ok (fs\<lparr>fs_cache := sc_put now path st (fs_cache fs)\<rparr>)"
  by (simp add: caches_ok_def)

lemma caches_ok_loop [simp]:
  "caches_ok fs \<Longrightarrow> caches_ok (snd (readdir_loop add now path fresh n entries b fs))"
  by (induction entries arbitrary: n b fs)
    (simp_all add: adopt_listing_entry_def Let_def case_prod_beta caches_ok_put)

definition leaves_ok :: "'b fuse_reply \<times> adbfs \<times> 's \<Rightarrow> bool" where
  "leaves_ok r \<longleftrightarrow> caches_ok (fst (snd r))"

lemma leaves_ok_simps [simp]: "leaves_ok (r, st) = caches_ok (fst st)"
  by (simp add: leaves_ok_def)

lemma leaves_einval:
  "caches_ok fs \<Longrightarrow> (\<And>a. leaves_ok (k a)) \<Longrightarrow> leaves_ok (or_einval x (fs, s) k)"
  by (simp add: or_einval_def split: option.split)

lemma leaves_handlers:
  assumes "caches_ok fs"
  shows "leaves_ok (fs_lookup P ino name (fs, s))" "leaves_ok (fs_getattr P ino fh (fs, s))"
    "leaves_ok (fs_readlink P ino (fs, s))" "leaves_ok (fs_open P ino flags (fs, s))"
    "leaves_ok (fs_setattr P ino others n fh (fs, s))" "leaves_ok (fs_read P h off m (fs, s))"
    "leaves_ok (fs_write P ino h off data (fs, s))" "leaves_ok (fs_release P ino h (fs, s))"
    "leaves_ok (fs_statfs (fs, s))"
  unfolding fs_lookup_def fs_getattr_def fs_readlink_def fs_open_def fs_setattr_def fs_read_def
    fs_write_def fs_release_def fs_statfs_def prod.case
  using assms
  by (auto simp: case_prod_beta Let_def intro!: leaves_einval split: sum.split option.split)

lemma leaves_child_handlers:
  assumes "caches_ok fs"
  shows "leaves_ok (fs_unlink P ino name (fs, s))" "leaves_ok (fs_rmdir P ino name (fs, s))"
    "leaves_ok (fs_mkdir P ino name mode (fs, s))" "leaves_ok (fs_create P ino name mode flags (fs, s))"
    "leaves_ok (fs_symlink P ino name target (fs, s))"
  unfolding fs_unlink_def fs_rmdir_def fs_mkdir_def fs_create_def fs_symlink_def prod.case
  using assms by (auto simp: case_prod_beta Let_def intro!: leaves_einval split: sum.split)

lemma leaves_rename:
  assumes "caches_ok fs" shows "leaves_ok (fs_rename P ino name ino' name' flags (fs, s))"
proof -
  have "caches_ok (fst (snd (rename_is_dir P src src_str (fs, s'))))" for src src_str s'
    using assms by (simp add: rename_is_dir_def case_prod_beta Let_def split: option.split sum.split)
  then have "leaves_ok (rename_go P src dst src_str dst_str (fs, s'))" for src dst src_str dst_str s'
    by (simp add: rename_go_def case_prod_beta Let_def split: sum.split)
  then show ?thesis
    unfolding fs_rename_def prod.case using assms
    by (auto simp: case_prod_beta intro!: leaves_einval split: sum.split proxy_error.split status.split)
qed

lemma leaves_readdir:
  assumes "caches_ok fs" "fs_readdir add P ino offset b (fs, s) = Some r"
  shows "leaves_ok r"
proof -
  have dir: "caches_ok (fs\<lparr>fs_dir_cache := dc_put now path v e (snd (dc_get now' path' (fs_dir_cache fs)))\<rparr>)"
    for now path v e now' path'
    using assms(1) dc.inv_get [of "fs_dir_cache fs"] by (simp add: caches_ok_def)
  show ?thesis
    using assms
    by (auto simp: fs_readdir_def readdir_reply_def case_prod_beta Let_def dir
        split: option.splits sum.splits)
qed

lemma handle_caches_ok:
  assumes "caches_ok fs" and "handle add b P r (fs, s) = Some x"
  shows "leaves_ok x"
proof (cases r)
  case (Readdir ino offset)
  then show ?thesis using leaves_readdir [OF assms(1), of add P ino offset b s x] assms(2) by simp
qed (use assms leaves_handlers leaves_child_handlers leaves_rename in \<open>auto simp: fs_forget_def\<close>)

lemma fs_reach_caches: "fs_reach add P st \<Longrightarrow> caches_ok (fst st)"
proof (induction rule: fs_reach.induct)
  case (request fs s b r reply fs' s')
  then show ?case using handle_caches_ok [of fs add b P r s] by simp
qed (simp_all add: caches_ok_start)

section \<open>A small phone\<close>

text \<open>
  A phone on which every call succeeds, for the concrete runs below: its state is the size
  of its one file, everything is reported as a directory of that size, and every directory
  lists \<open>es\<close>.
\<close>

definition sized_stat :: "nat \<Rightarrow> stat" where
  "sized_stat n =
     \<lparr>s_mode = mode_dir, s_size = word_of_nat n, s_mtime = 0, s_atime = 0, s_ctime = 0, s_uid = 0,
      s_gid = 0, s_nlink = 1, s_blksize = 0, s_blocks = 0\<rparr>"

definition small_phone :: "dir_entry list \<Rightarrow> nat sync_proxy" where
  "small_phone es =
     \<lparr>sp_now = (\<lambda>_. 0), sp_stat = (\<lambda>_ s. (Ok (sized_stat s), s)), sp_lstat = (\<lambda>_ s. (Ok (sized_stat s), s)),
      sp_readlink = (\<lambda>_ s. (Ok [], s)), sp_symlink = (\<lambda>_ _ s. (Ok (), s)),
      sp_listdir = (\<lambda>_ s. Some (Ok es, s)),
      sp_open = (\<lambda>p _ _ s. (Ok \<lparr>pf_fd = Some 3, pf_path = p\<rparr>, s)),
      sp_read_at = (\<lambda>_ _ _ s. (Ok [], s)), sp_write_at = (\<lambda>_ _ _ s. (Ok (), s)),
      sp_close = (\<lambda>_ s. (Ok (), s)), sp_mkdir = (\<lambda>_ _ s. (Ok (), s)), sp_unlink = (\<lambda>_ s. (Ok (), s)),
      sp_rmdir = (\<lambda>_ s. (Ok (), s)), sp_rename = (\<lambda>_ _ s. (Ok (), s)),
      sp_truncate = (\<lambda>_ n _. (Ok (), unat n)), sp_fstat = (\<lambda>_ s. (Ok (sized_stat s), s))\<rparr>"

text \<open>A buffer without a limit, and one for \<open>n\<close> entries.\<close>

definition roomy :: "dirent list adder" where
  "roomy b i off k n = (False, b @ [(i, off, k, n)])"



lemma small_strings:
  "path_to_string ''/a'' = Some ''/a''" "path_to_string ''/b'' = Some ''/b''"
  "path_to_string ''/a/x'' = Some ''/a/x''" "path_to_string ''/b/x'' = Some ''/b/x''"
  by code_simp+

lemma small_components:
  "components ''/'' = [RootDir]"
  "components ''/a'' = [RootDir, Normal ''a'']" "components ''/b'' = [RootDir, Normal ''b'']"
  "components ''/a/x'' = [RootDir, Normal ''a'', Normal ''x'']"
  "components ''/b/x'' = [RootDir, Normal ''b'', Normal ''x'']"
  by code_simp+

lemma small_joins:
  "path_join ''/'' ''a'' = ''/a''" "path_join ''/'' ''b'' = ''/b''" "path_join ''/a'' ''x'' = ''/a/x''"
  "path_join ''/b'' ''x'' = ''/b/x''" "strip_prefix ''/a/x'' ''/a'' = Some ''x''"
  "path_parent_str ''/a'' = Some ''/''" "path_parent_str ''/b'' = Some ''/''"
  "path_parent_str ''/a/x'' = Some ''/a''" "path_parent_str ''/b/x'' = Some ''/b''"
  by code_simp+

lemmas small_run =
  small_phone_def with_proxy_def resolve_child_def or_einval_def cache_put_def ino_for_def pm_insert_def
  pm_get_Cons same_path_def Let_def sc_put_def sc_get_def MAX_ENTRIES_def sc_new_def dc_new_def
  cache_invalidate_def invalidate_parent_listing_def sc_invalidate_def dc_invalidate_def remove_entry_def
  pm_remove_def small_joins small_strings small_components

definition table_of :: "(u64 \<rightharpoonup> string) \<Rightarrow> u64 pmap \<Rightarrow> nat \<Rightarrow> (stat \<times> nat) pmap \<Rightarrow> u64 \<Rightarrow> adbfs" where
  "table_of i2p p2i n sc e =
     \<lparr>fs_cache = \<lparr>sc_inner = sc, sc_ttl = 2000\<rparr>,
      fs_dir_cache = \<lparr>dc_map = [], dc_order = [], dc_epoch = e, dc_ttl = 2000, dc_capacity = 8\<rparr>,
      ino_to_path = i2p, path_to_ino = p2i, next_ino = n, open_files = Map.empty, next_fh = 1\<rparr>"

lemma start_table: "with_proxy = table_of [1 \<mapsto> ''/''] [(''/'', 1)] 100 [] 0"
  by (simp add: table_of_def with_proxy_def sc_new_def dc_new_def TTL_def DIR_TTL_def DIR_CACHE_CAPACITY_def
      pm_insert_def)

lemma lookup_new:
  assumes "i2p parent = Some p" "path_join p name = q" "path_to_string q = Some q"
    "pm_get p2i q = None" "length sc < 8192"
  shows "fs_lookup (small_phone es) parent name (table_of i2p p2i n sc e, s) =
    (REntry TTL (attr_from_stat (word_of_nat n) (sized_stat s)) 0,
      table_of (i2p(word_of_nat n \<mapsto> q)) (p2i @ [(q, word_of_nat n)]) (n + 1)
        (pm_insert q (sized_stat s, 0) sc) e, s)"
proof -
  have "pm_insert q v p2i = p2i @ [(q, v)]" for v
    using assms(4) by (simp add: pm_insert_def pm_get_None)
  then show ?thesis
    using assms
    by (simp add: table_of_def fs_lookup_def small_phone_def resolve_child_def or_einval_def cache_put_def
        sc_put_def MAX_ENTRIES_def ino_for_def Let_def)
qed

lemma unlink_known:
  assumes "i2p parent = Some p" "path_join p name = q" "path_to_string q = Some q" "path_parent_str q = Some d"
  shows "fs_unlink (small_phone es) parent name (table_of i2p p2i n sc e, s) =
    (ROk, table_of i2p p2i n (pm_remove q (pm_remove d sc)) (e + 1), s)"
  using assms
  by (simp add: table_of_def fs_unlink_def small_phone_def resolve_child_def or_einval_def
      cache_invalidate_def invalidate_parent_listing_def sc_invalidate_def dc_invalidate_def
      remove_entry_def pm_remove_def)






section \<open>The inode table\<close>


lemma small_reach:
  "fs_reach roomy (small_phone [])
     (table_of [1 \<mapsto> ''/'', 100 \<mapsto> ''/a''] [(''/'', 1), (''/a'', 100)] 101 [(''/a'', sized_stat 0, 0)] 0, 0)"
proof -
  have "handle roomy [] (small_phone []) (Lookup 1 ''a'') (with_proxy, 0) =
      Some (REntry TTL (attr_from_stat 100 (sized_stat 0)) 0,
        table_of [1 \<mapsto> ''/'', 100 \<mapsto> ''/a''] [(''/'', 1), (''/a'', 100)] 101 [(''/a'', sized_stat 0, 0)] 0, 0)"
    unfolding start_table
    by (simp add: lookup_new small_joins small_strings pm_get_Cons same_path_def small_components pm_insert_def)
  then show ?thesis
    by (rule fs_reach.request [OF fs_reach.start]) (simp_all add: table_of_def)
qed






section \<open>Reading directories\<close>



definition named :: "string \<Rightarrow> dir_entry" where
  "named n = \<lparr>de_name = n, de_stat = sized_stat 0\<rparr>"


text \<open>
  A buffer of \<open>cap\<close> bytes as \<open>fuser\<close> has it: an entry takes 24 bytes and its name, rounded up
  to a multiple of eight.
\<close>

definition dirent_size :: "string \<Rightarrow> nat" where
  "dirent_size n = 8 * ((24 + length n + 7) div 8)"

definition byte_buffer :: "nat \<Rightarrow> dirent list adder" where
  "byte_buffer cap b i off k n =
     (if sum_list (map (\<lambda>(i, off, k, n). dirent_size n) b) + dirent_size n > cap then (True, b)
      else (False, b @ [(i, off, k, n)]))"

lemma byte_buffer_ok: "dir_buffer (byte_buffer cap) id"
  by (auto simp: dir_buffer_def byte_buffer_def split: if_splits)







section \<open>Renames that must not replace\<close>

text \<open>
  C23. A rename with \<open>RENAME_NOREPLACE\<close> never replaces a file: unless the phone says that the
  destination does not exist, whatever else it answers and whatever error occurs, the
  request fails, the phone gets no rename and the filesystem is unchanged.
\<close>

theorem noreplace_never_replaces:
  assumes "resolve_child parent name fs = Some src" "resolve_child newparent newname fs = Some dst"
    and "path_to_string src = Some src_str" "path_to_string dst = Some dst_str"
    and "flags AND RENAME_NOREPLACE = RENAME_NOREPLACE" "flags AND RENAME_EXCHANGE \<noteq> RENAME_EXCHANGE"
    and "sp_lstat P dst_str s = (r, s1)" and "\<And>m. r \<noteq> Err (PStatus NotFound m)"
  shows "\<exists>e. fs_rename P parent name newparent newname flags (fs, s) = (RError e, fs, s1)"
  using assms by (auto simp: fs_rename_def or_einval_def split: sum.split proxy_error.split status.split)

theorem noreplace_never_replaces_witness:
  "\<exists>e. fs_rename (small_phone []) 1 ''a'' 1 ''b'' 1 (with_proxy, 7) = (RError e, with_proxy, 7)"
  by (rule noreplace_never_replaces [where src = "''/a''" and dst = "''/b''" and r = "Ok (sized_stat 7)"])
    (simp_all add: resolve_child_def with_proxy_def small_joins small_strings RENAME_NOREPLACE_def
      RENAME_EXCHANGE_def small_phone_def)

section \<open>The caches\<close>

text \<open>
  C22. A listing that was requested before an invalidation is not stored after it: whatever
  other threads do to the cache meanwhile, one to \<open>2 ^ 64 - 1\<close> invalidations between reading the
  epoch and storing the listing make the store do nothing.
\<close>

theorem stale_listing_not_stored:
  assumes "0 < length (filter is_invalidation xs)" "length (filter is_invalidation xs) < 2 ^ 64"
  shows "dc_put now path entries (dc_epoch c) (fold dc_apply xs c) = fold dc_apply xs c"
  using epoch_moves [OF assms, of "dc_epoch c"] by (simp add: dc_put_def dc_fold_epoch)

theorem stale_listing_not_stored_witness:
  "dc_put 1 ''/'' [named ''a''] (dc_epoch (dc_new 2000 8))
     (fold dc_apply [DGet 0 ''/'', DInvalidate ''/''] (dc_new 2000 8)) =
   fold dc_apply [DGet 0 ''/'', DInvalidate ''/''] (dc_new 2000 8)"
  by (rule stale_listing_not_stored) simp_all

text \<open>
  C29. The caches stay bounded and consistent in every reachable state: at most 8192 stats, at
  most 8 listings, and the eviction order names exactly the cached directories, each once.
\<close>

theorem caches_bounded:
  assumes "fs_reach add P (fs, s)"
  shows "length (sc_inner (fs_cache fs)) \<le> MAX_ENTRIES \<and>
    length (dc_map (fs_dir_cache fs)) \<le> DIR_CACHE_CAPACITY \<and>
    distinct (map components (dc_order (fs_dir_cache fs))) \<and>
    components ` set (dc_order (fs_dir_cache fs)) = components ` fst ` set (dc_map (fs_dir_cache fs))"
  using fs_reach_caches [OF assms] dc_inv_length [of "fs_dir_cache fs"]
  by (auto simp: caches_ok_def sc_inv_def dc_inv_def)

theorem caches_bounded_witness:
  "length (sc_inner (fs_cache (table_of [1 \<mapsto> ''/'', 100 \<mapsto> ''/a''] [(''/'', 1), (''/a'', 100)] 101
     [(''/a'', sized_stat 0, 0)] 0))) \<le> MAX_ENTRIES"
  using caches_bounded [OF small_reach] by simp

section \<open>Fresh parents\<close>

text \<open>The requests that add or remove the entry \<open>name\<close> of a directory.\<close>

definition changes_child :: "u64 \<Rightarrow> string \<Rightarrow> fuse_request \<Rightarrow> bool" where
  "changes_child parent name r \<longleftrightarrow>
     (case r of
        Unlink i n \<Rightarrow> i = parent \<and> n = name
      | Rmdir i n \<Rightarrow> i = parent \<and> n = name
      | Mkdir i n mode \<Rightarrow> i = parent \<and> n = name
      | Create i n mode flags \<Rightarrow> i = parent \<and> n = name
      | MakeSymlink i n target \<Rightarrow> i = parent \<and> n = name
      | _ \<Rightarrow> False)"

definition parent_uncached :: "string \<Rightarrow> adbfs \<Rightarrow> bool" where
  "parent_uncached p fs \<longleftrightarrow> dc_lookup (fs_dir_cache fs) p = None \<and> sc_lookup (fs_cache fs) p = None"

lemma parent_uncached_ops:
  assumes "caches_ok fs"
  shows "parent_uncached p fs \<Longrightarrow> parent_uncached p (cache_invalidate path fs)"
    and "parent_uncached p fs \<Longrightarrow> \<not> same_path path p \<Longrightarrow> parent_uncached p (cache_put now path st fs)"
    and "path_parent_str path = Some d \<Longrightarrow> same_path d p \<Longrightarrow> parent_uncached p (invalidate_parent_listing path fs)"
proof -
  have inv: "sc_inv (fs_cache fs)" "dc_inv (fs_dir_cache fs)" using assms by (simp_all add: caches_ok_def)
  then show "parent_uncached p fs \<Longrightarrow> parent_uncached p (cache_invalidate path fs)"
    by (simp add: parent_uncached_def cache_invalidate_def sc.lookup_invalidate)
  show "parent_uncached p fs \<Longrightarrow> \<not> same_path path p \<Longrightarrow> parent_uncached p (cache_put now path st fs)"
    using sc.put_adds [OF inv(1), of now path st p]
    by (cases "sc_lookup (sc_put now path st (fs_cache fs)) p") (auto simp: parent_uncached_def cache_put_def)
  show "path_parent_str path = Some d \<Longrightarrow> same_path d p \<Longrightarrow> parent_uncached p (invalidate_parent_listing path fs)"
    using inv by (simp add: parent_uncached_def invalidate_parent_listing_def sc.lookup_invalidate dc.lookup_invalidate)
qed

lemma child_parent:
  assumes "is_absolute p" and "CHR ''/'' \<notin> set name" and "\<not> skipped_segment name"
  obtains d where "path_parent_str (path_join p name) = Some d" "same_path d p"
proof -
  have q: "is_absolute (path_join p name)" using assms(1) by simp
  have comps: "components (path_join p name) = components p @ [component_of name]"
    by (rule components_join_name [OF assms])
  have "components p \<noteq> []" using components_absolute [OF assms(1)] by simp
  then have "path_parent_str (path_join p name) \<noteq> None"
    using path_parent_components(1) [OF q] comps by simp
  then obtain d where d: "path_parent_str (path_join p name) = Some d" by (elim not_None_eq [THEN iffD1, THEN exE])
  then have "same_path d p" using path_parent_components(2) [OF q d] comps by (simp add: same_path_def)
  with d show thesis by (rule that)
qed

definition uncaches :: "string \<Rightarrow> 'b fuse_reply \<times> adbfs \<times> 's \<Rightarrow> bool" where
  "uncaches p x \<longleftrightarrow> (\<exists>e. fst x = RError e) \<or> parent_uncached p (fst (snd x))"

lemma uncaches_simps [simp]:
  "uncaches p (RError e, st)" "reply \<noteq> RError e \<Longrightarrow> parent_uncached p (fst st) \<Longrightarrow> uncaches p (reply, st)"
  by (simp_all add: uncaches_def)

lemma uncaches_einval: "(\<And>a. x = Some a \<Longrightarrow> uncaches p (k a)) \<Longrightarrow> uncaches p (or_einval x st k)"
  by (simp add: or_einval_def split: option.split)

lemma or_einval_Some: "or_einval (Some a) st k = k a"
  by (simp add: or_einval_def)

lemma handlers_uncache_parent:
  assumes c: "caches_ok fs" and q: "resolve_child parent name fs = Some q"
    and d: "path_parent_str q = Some d" "same_path d p" and other: "\<not> same_path q p"
  shows "uncaches p (fs_unlink P parent name (fs, s))"
    and "uncaches p (fs_rmdir P parent name (fs, s))"
    and "uncaches p (fs_mkdir P parent name mode (fs, s))"
    and "uncaches p (fs_create P parent name mode flags (fs, s))"
    and "uncaches p (fs_symlink P parent name target (fs, s))"
proof -
  have 1: "parent_uncached p (cache_put now q st (invalidate_parent_listing q fs1))" if "caches_ok fs1" for fs1 now st
    by (rule parent_uncached_ops(2) [OF _ parent_uncached_ops(3) [OF that d] other]) (simp add: that)
  have 2: "parent_uncached p (cache_invalidate q (invalidate_parent_listing q fs1))" if "caches_ok fs1" for fs1
    by (rule parent_uncached_ops(1) [OF _ parent_uncached_ops(3) [OF that d]]) (simp add: that)
  note step = uncaches_def case_prod_beta Let_def c
  show "uncaches p (fs_unlink P parent name (fs, s))"
    unfolding fs_unlink_def prod.case q or_einval_Some
    by (intro uncaches_einval) (simp add: step 2 split: sum.split)
  show "uncaches p (fs_rmdir P parent name (fs, s))"
    unfolding fs_rmdir_def prod.case q or_einval_Some
    by (intro uncaches_einval) (simp add: step 2 split: sum.split)
  show "uncaches p (fs_mkdir P parent name mode (fs, s))"
    unfolding fs_mkdir_def prod.case q or_einval_Some
    by (intro uncaches_einval) (simp add: step 1 split: sum.split)
  show "uncaches p (fs_create P parent name mode flags (fs, s))"
    unfolding fs_create_def prod.case q or_einval_Some
    by (intro uncaches_einval) (simp add: step 1 split: sum.split)
  show "uncaches p (fs_symlink P parent name target (fs, s))"
    unfolding fs_symlink_def prod.case q or_einval_Some
    by (simp add: step 1 split: sum.split)
qed

lemma change_uncaches:
  assumes "caches_ok fs" and "resolve_child parent name fs = Some q"
    and "path_parent_str q = Some d" "same_path d p" and "\<not> same_path q p"
    and "changes_child parent name r" and "handle add b P r (fs, s) = Some x"
  shows "uncaches p x"
  using assms(6,7) handlers_uncache_parent [OF assms(1-5)]
  by (cases r) (auto simp: changes_child_def)

text \<open>
  C30. After a change through the mount the parent directory is read afresh: when a file,
  directory or link is created or removed, neither the listing nor the attributes of its
  parent are cached afterwards, so that the next \<open>readdir\<close> and \<open>getattr\<close> of the parent ask the
  phone.
\<close>

theorem change_uncaches_parent:
  assumes reach: "fs_reach add P (fs, s)" and p: "ino_to_path fs parent = Some p"
    and name: "CHR ''/'' \<notin> set name" "\<not> skipped_segment name"
    and r: "changes_child parent name r" "handle add b P r (fs, s) = Some (reply, fs', s')"
    and ok: "\<And>e. reply \<noteq> RError e"
  shows "dc_lookup (fs_dir_cache fs') p = None \<and> sc_lookup (fs_cache fs') p = None"
proof -
  have inv: "ino_inv fs" and c: "caches_ok fs"
    using fs_reach_inv [OF reach] fs_reach_caches [OF reach] by simp_all
  have abs: "is_absolute p" using ino_inv_absolute [OF inv p] .
  obtain d where d: "path_parent_str (path_join p name) = Some d" "same_path d p"
    by (rule child_parent [OF abs name])
  have other: "\<not> same_path (path_join p name) p"
    using components_join_name [OF abs name] by (simp add: same_path_def)
  have child: "resolve_child parent name fs = Some (path_join p name)" using p by (simp add: resolve_child_def)
  have "uncaches p (reply, fs', s')" by (rule change_uncaches [OF c child d other r])
  with ok show ?thesis by (simp add: uncaches_def parent_uncached_def)
qed

theorem change_uncaches_parent_witness:
  "dc_lookup (fs_dir_cache (table_of [1 \<mapsto> ''/'', 100 \<mapsto> ''/a''] [(''/'', 1), (''/a'', 100)] 101 [] 1)) ''/'' = None \<and>
   sc_lookup (fs_cache (table_of [1 \<mapsto> ''/'', 100 \<mapsto> ''/a''] [(''/'', 1), (''/a'', 100)] 101 [] 1)) ''/'' = None"
proof (rule change_uncaches_parent [OF small_reach])
  show "ino_to_path (table_of [1 \<mapsto> ''/'', 100 \<mapsto> ''/a''] [(''/'', 1), (''/a'', 100)] 101
      [(''/a'', sized_stat 0, 0)] 0) 1 = Some ''/''"
    by (simp add: table_of_def)
  show "CHR ''/'' \<notin> set ''a''" "\<not> skipped_segment ''a''" by (simp_all add: skipped_segment_def)
  show "changes_child 1 ''a'' (Unlink 1 ''a'')" by (simp add: changes_child_def)
  show "handle roomy [] (small_phone []) (Unlink 1 ''a'')
      (table_of [1 \<mapsto> ''/'', 100 \<mapsto> ''/a''] [(''/'', 1), (''/a'', 100)] 101 [(''/a'', sized_stat 0, 0)] 0, 0) =
    Some (ROk, table_of [1 \<mapsto> ''/'', 100 \<mapsto> ''/a''] [(''/'', 1), (''/a'', 100)] 101 [] 1, 0)"
    by (simp add: unlink_known small_joins small_strings pm_remove_def same_path_def small_components)
qed simp

end
