(* ===== verification/Adb_Packet.thy ===== *)
theory Adb_Packet
  imports Prelude Utf8
begin

text \<open>
  The messages of the ADB wire protocol (\<open>adb-device/src/packet.rs\<close> and \<open>error.rs\<close>): commands,
  the 24-byte header, the checksum, \<open>try_encode\<close> and \<open>decode\<close>. The lemmas show that \<open>decode\<close>
  accepts exactly what \<open>try_encode\<close> produces, and that a message in which one payload byte was
  damaged is rejected. \<open>encode\<close> panics on a payload of 4 GiB or more; a panic is \<open>None\<close>.
\<close>

section \<open>Errors and constants\<close>

datatype adb_error =
    Usb string | Io string | Der string | Protocol string | DeviceNotFound string
  | Disconnected | Unauthorized | Timeout | InvalidResponse string | Other string

definition ADB_VERSION :: u32 where "ADB_VERSION = 0x01000000"
definition MAX_PAYLOAD :: nat where "MAX_PAYLOAD = 256 * 1024"

definition A_SYNC :: u32 where "A_SYNC = 0x434e5953"
definition A_CNXN :: u32 where "A_CNXN = 0x4e584e43"
definition A_OPEN :: u32 where "A_OPEN = 0x4e45504f"
definition A_OKAY :: u32 where "A_OKAY = 0x59414b4f"
definition A_CLSE :: u32 where "A_CLSE = 0x45534c43"
definition A_WRTE :: u32 where "A_WRTE = 0x45545257"
definition A_AUTH :: u32 where "A_AUTH = 0x48545541"
definition A_FAIL :: u32 where "A_FAIL = 0xFFFFFFFF"

definition AUTH_TOKEN :: u32 where "AUTH_TOKEN = 1"
definition AUTH_SIGNATURE :: u32 where "AUTH_SIGNATURE = 2"
definition AUTH_RSAPUBLICKEY :: u32 where "AUTH_RSAPUBLICKEY = 3"

lemmas command_codes =
  A_SYNC_def A_CNXN_def A_OPEN_def A_OKAY_def A_CLSE_def A_WRTE_def A_AUTH_def A_FAIL_def

section \<open>Commands\<close>

datatype command = Sync | Connect | Open | Okay | Close | Write | Auth | Fail

definition command_from_u32 :: "u32 \<Rightarrow> command option" where
  "command_from_u32 v =
     (if v = A_SYNC then Some Sync
      else if v = A_CNXN then Some Connect
      else if v = A_OPEN then Some Open
      else if v = A_OKAY then Some Okay
      else if v = A_CLSE then Some Close
      else if v = A_WRTE then Some Write
      else if v = A_AUTH then Some Auth
      else if v = A_FAIL then Some Fail
      else None)"

fun as_u32 :: "command \<Rightarrow> u32" where
  "as_u32 Sync = A_SYNC"
| "as_u32 Connect = A_CNXN"
| "as_u32 Open = A_OPEN"
| "as_u32 Okay = A_OKAY"
| "as_u32 Close = A_CLSE"
| "as_u32 Write = A_WRTE"
| "as_u32 Auth = A_AUTH"
| "as_u32 Fail = A_FAIL"

lemma command_from_as [simp]: "command_from_u32 (as_u32 c) = Some c"
  by (cases c) (simp_all add: command_from_u32_def command_codes)

lemma command_from_u32_Some: "command_from_u32 v = Some c \<longleftrightarrow> v = as_u32 c"
proof
  show "command_from_u32 v = Some c \<Longrightarrow> v = as_u32 c"
    by (auto simp: command_from_u32_def split: if_splits)
qed simp

section \<open>Messages\<close>

record message =
  command :: command
  arg0 :: u32
  arg1 :: u32
  payload :: bytes

definition HEADER_LEN :: nat where "HEADER_LEN = 24"

definition new_message :: "command \<Rightarrow> u32 \<Rightarrow> u32 \<Rightarrow> bytes \<Rightarrow> message" where
  "new_message c a0 a1 p = \<lparr>command = c, arg0 = a0, arg1 = a1, payload = p\<rparr>"

definition data_checksum :: "bytes \<Rightarrow> u32" where
  "data_checksum data = foldl (\<lambda>a b. a + ucast b) 0 data"

text \<open>The format \<open>{:08x}\<close>.\<close>

definition hex_digit :: "nat \<Rightarrow> char" where
  "hex_digit n = char_of (if n < 10 then 48 + n else 87 + n)"

definition show_hex08 :: "u32 \<Rightarrow> string" where
  "show_hex08 w = map (\<lambda>i. hex_digit (unat w div 16 ^ i mod 16)) (rev [0..<8])"

definition header_of :: "message \<Rightarrow> bytes" where
  "header_of m =
     to_le32 (as_u32 (command m)) @ to_le32 (arg0 m) @ to_le32 (arg1 m)
     @ to_le32 (word_of_nat (length (payload m))) @ to_le32 (data_checksum (payload m))
     @ to_le32 (as_u32 (command m) XOR 0xFFFFFFFF)"

definition try_encode :: "message \<Rightarrow> adb_error + bytes" where
  "try_encode m =
     (if length (payload m) \<ge> 2 ^ 32
      then Err (Protocol (''payload length '' @ show_nat (length (payload m))
             @ '' exceeds the 32-bit ADB data_length field''))
      else Ok (header_of m @ payload m))"

definition encode :: "message \<Rightarrow> bytes option" where
  "encode m = (case try_encode m of Inl e \<Rightarrow> None | Inr b \<Rightarrow> Some b)"

definition decode :: "bytes \<Rightarrow> bytes \<Rightarrow> adb_error + message" where
  "decode h p =
     (let cmd = from_le32 (slice 0 4 h);
          a0 = from_le32 (slice 4 8 h);
          a1 = from_le32 (slice 8 12 h);
          data_length = from_le32 (slice 12 16 h);
          data_crc = from_le32 (slice 16 20 h);
          magic = from_le32 (slice 20 24 h)
      in case command_from_u32 cmd of
           None \<Rightarrow> Err (InvalidResponse (''unknown command 0x'' @ show_hex08 cmd))
         | Some c \<Rightarrow>
             if magic \<noteq> as_u32 c XOR 0xFFFFFFFF then Err (InvalidResponse ''magic mismatch'')
             else if unat data_length \<noteq> length p
             then Err (InvalidResponse (''payload length '' @ show_nat (length p) @ '' != header ''
                    @ show_nat (unat data_length)))
             else if data_checksum p \<noteq> data_crc
             then Err (InvalidResponse (''crc mismatch: got '' @ show_hex08 (data_checksum p)
                    @ '', want '' @ show_hex08 data_crc))
             else Ok (new_message c a0 a1 p))"

section \<open>The codec\<close>

lemma slice_join: "a \<le> b \<Longrightarrow> b \<le> c \<Longrightarrow> slice a b xs @ slice b c xs = slice a c xs"
  by (auto simp: slice_def le_iff_add take_add add.commute)

lemma header_len [simp]: "length (header_of m) = HEADER_LEN"
  by (simp add: header_of_def HEADER_LEN_def)

lemma header_slices [simp]:
  "slice 0 4 (header_of m) = to_le32 (as_u32 (command m))"
  "slice 4 8 (header_of m) = to_le32 (arg0 m)"
  "slice 8 12 (header_of m) = to_le32 (arg1 m)"
  "slice 12 16 (header_of m) = to_le32 (word_of_nat (length (payload m)))"
  "slice 16 20 (header_of m) = to_le32 (data_checksum (payload m))"
  "slice 20 24 (header_of m) = to_le32 (as_u32 (command m) XOR 0xFFFFFFFF)"
  by (simp_all add: header_of_def slice_def)

lemma decode_header_of: "length (payload m) < 2 ^ 32 \<Longrightarrow> decode (header_of m) (payload m) = Ok m"
  by (simp add: decode_def Let_def new_message_def)

lemma decode_SomeD:
  assumes h: "length h = HEADER_LEN" and d: "decode h p = Ok m"
  shows "payload m = p \<and> length p < 2 ^ 32 \<and> h = header_of m"
proof -
  obtain c where c: "from_le32 (slice 0 4 h) = as_u32 c"
    and magic: "from_le32 (slice 20 24 h) = as_u32 c XOR 0xFFFFFFFF"
    and len: "unat (from_le32 (slice 12 16 h)) = length p"
    and crc: "from_le32 (slice 16 20 h) = data_checksum p"
    and m: "m = new_message c (from_le32 (slice 4 8 h)) (from_le32 (slice 8 12 h)) p"
    using d by (auto simp: decode_def Let_def command_from_u32_Some split: option.splits if_splits)
  have part: "to_le32 (from_le32 (slice i (i + 4) h)) = slice i (i + 4) h" if "i + 4 \<le> 24" for i
    using h that by (intro le32.enc_dec) (simp add: HEADER_LEN_def)
  have whole: "h = slice 0 4 h @ slice 4 8 h @ slice 8 12 h @ slice 12 16 h @ slice 16 20 h @ slice 20 24 h"
    using h by (simp add: slice_join HEADER_LEN_def)
  have p: "length p < 2 ^ 32" using len unsigned_less [of "from_le32 (slice 12 16 h)", where 'a = nat] by simp
  moreover have "word_of_nat (length p) = from_le32 (slice 12 16 h)" by (simp flip: len)
  ultimately have "header_of m =
      slice 0 4 h @ slice 4 8 h @ slice 8 12 h @ slice 12 16 h @ slice 16 20 h @ slice 20 24 h"
    using part [of 0] part [of 4] part [of 8] part [of 12] part [of 16] part [of 20] c magic crc
    by (simp add: m new_message_def header_of_def)
  also have "\<dots> = h" by (rule whole [symmetric])
  finally have "header_of m = h" .
  with p m show ?thesis by (simp add: new_message_def)
qed

text \<open>\<open>decode\<close> accepts exactly the output of \<open>try_encode\<close>.\<close>

lemma decode_iff:
  assumes "length h = HEADER_LEN"
  shows "decode h p = Ok m \<longleftrightarrow> try_encode m = Ok (h @ p)"
proof
  assume "decode h p = Ok m"
  from decode_SomeD [OF assms this] show "try_encode m = Ok (h @ p)" by (simp add: try_encode_def)
next
  assume "try_encode m = Ok (h @ p)"
  then have "length (payload m) < 2 ^ 32" and "header_of m @ payload m = h @ p"
    by (auto simp: try_encode_def split: if_splits)
  then have "h = header_of m" "p = payload m" using assms by auto
  with \<open>length (payload m) < 2 ^ 32\<close> show "decode h p = Ok m" by (simp add: decode_header_of)
qed

lemma foldl_sum: "foldl (\<lambda>a b. a + f b) a xs = a + sum_list (map f xs)" for a :: "'a :: comm_monoid_add"
  by (induction xs arbitrary: a) (simp_all add: add.assoc)

lemma data_checksum_append: "data_checksum (xs @ ys) = data_checksum xs + data_checksum ys"
  by (simp add: data_checksum_def foldl_sum)

lemma data_checksum_single [simp]: "data_checksum [] = 0" "data_checksum [b] = ucast b"
  by (simp_all add: data_checksum_def)

lemma unat_ucast_byte: "unat (ucast (b :: u8) :: u32) = unat b"
proof -
  have "unat b < 2 ^ 32" by (rule less_trans [OF unat_byte_less]) simp
  from take_bit_nat_eq_self [OF this] show ?thesis by (simp add: unsigned_ucast_eq)
qed

lemma ucast_byte_inj: "(ucast (b :: u8) :: u32) = ucast c \<longleftrightarrow> b = c"
  by (metis unat_ucast_byte word_eq_iff_unsigned)

lemma damaged_byte_rejected:
  assumes "i < length p" and "b \<noteq> p ! i" and "try_encode m = Ok (h @ p)" and "length h = HEADER_LEN"
  shows "\<not> is_ok (decode h (p[i := b]))"
proof
  assume "is_ok (decode h (p[i := b]))"
  then obtain m' where m': "decode h (p[i := b]) = Ok m'" by (cases "decode h (p[i := b])") auto
  have h: "header_of m' = h" "payload m' = p[i := b]" using decode_SomeD [OF assms(4) m'] by simp_all
  have "header_of m = h" "payload m = p"
    using decode_SomeD [OF assms(4)] decode_iff [OF assms(4)] assms(3) by simp_all
  then have "data_checksum p = data_checksum (p[i := b])"
    using header_slices(5) [of m] header_slices(5) [of m'] h le32.enc_inj by simp
  moreover have "p = take i p @ [p ! i] @ drop (Suc i) p" using assms(1) by (simp add: id_take_nth_drop)
  moreover have "p[i := b] = take i p @ [b] @ drop (Suc i) p" using assms(1) by (simp add: upd_conv_take_nth_drop)
  ultimately have "(ucast (p ! i) :: u32) = ucast b"
    by (metis add_left_cancel add_right_cancel data_checksum_append data_checksum_single(2))
  with assms(2) show False by (simp add: ucast_byte_inj)
qed

end
