(* ===== verification/Rust_Str.thy ===== *)
theory Rust_Str
  imports Utf8 "HOL-Library.Sublist"
begin

text \<open>
  What the sources use of Rust's \<open>str\<close> beyond validity: \<open>trim\<close>, which removes Unicode white
  space, \<open>lines\<close>, \<open>split_once\<close>, \<open>rsplit_once\<close>, \<open>strip_prefix\<close> and \<open>contains\<close>. A \<open>str\<close> is its UTF-8
  bytes, a \<open>char list\<close> here.
\<close>

section \<open>White space\<close>

text \<open>The number of bytes of a white space character at the front of the bytes, or 0.\<close>

definition ws_front :: "bytes \<Rightarrow> nat" where
  "ws_front b =
     (if b = [] then 0
      else if b ! 0 \<in> {0x09, 0x0A, 0x0B, 0x0C, 0x0D, 0x20} then 1
      else if b ! 0 = 0xC2 \<and> safe_get b 1 \<in> {0x85, 0xA0} then 2
      else if b ! 0 = 0xE1 \<and> safe_get b 1 = 0x9A \<and> safe_get b 2 = 0x80 then 3
      else if b ! 0 = 0xE2 \<and> safe_get b 1 = 0x80
              \<and> (0x80 \<le> safe_get b 2 \<and> safe_get b 2 \<le> 0x8A \<or> safe_get b 2 \<in> {0xA8, 0xA9, 0xAF}) then 3
      else if b ! 0 = 0xE2 \<and> safe_get b 1 = 0x81 \<and> safe_get b 2 = 0x9F then 3
      else if b ! 0 = 0xE3 \<and> safe_get b 1 = 0x80 \<and> safe_get b 2 = 0x80 then 3
      else 0)"

text \<open>The same at the back, on the reversed bytes.\<close>

definition ws_back :: "bytes \<Rightarrow> nat" where
  "ws_back r =
     (if r = [] then 0
      else if r ! 0 \<in> {0x09, 0x0A, 0x0B, 0x0C, 0x0D, 0x20} then 1
      else if r ! 0 \<in> {0x85, 0xA0} \<and> safe_get r 1 = 0xC2 then 2
      else if ws_front (rev (take 3 r)) = 3 then 3
      else 0)"

function trim_front :: "bytes \<Rightarrow> bytes" where
  "trim_front b = (if b = [] \<or> ws_front b = 0 then b else trim_front (drop (ws_front b) b))"
  by pat_completeness auto
termination by (relation "measure length") auto

function trim_back_rev :: "bytes \<Rightarrow> bytes" where
  "trim_back_rev r = (if r = [] \<or> ws_back r = 0 then r else trim_back_rev (drop (ws_back r) r))"
  by pat_completeness auto
termination by (relation "measure length") auto

declare trim_front.simps [simp del] trim_back_rev.simps [simp del]

definition str_trim :: "string \<Rightarrow> string" where
  "str_trim s = from_bytes (rev (trim_back_rev (rev (trim_front (as_bytes s)))))"

text \<open>Characters that neither are nor end a white space character.\<close>

definition solid :: "char \<Rightarrow> bool" where
  "solid c \<longleftrightarrow> of_char c > (0x20 :: nat) \<and> of_char c < (0x80 :: nat)"

lemma solid_byte:
  assumes "solid c"
  shows "byte_of_char c \<notin> {0x09, 0x0A, 0x0B, 0x0C, 0x0D, 0x20}" "byte_of_char c < 0x80"
proof -
  have u: "unat (byte_of_char c) = of_char c" by (simp add: byte_of_char_def unat_of_nat of_char_def)
  then show "byte_of_char c < 0x80" using assms by (simp add: word_less_nat_alt solid_def)
  show "byte_of_char c \<notin> {0x09, 0x0A, 0x0B, 0x0C, 0x0D, 0x20}"
  proof
    assume "byte_of_char c \<in> {0x09, 0x0A, 0x0B, 0x0C, 0x0D, 0x20}"
    then have "unat (byte_of_char c) \<le> 0x20" by auto
    with u assms show False by (simp add: solid_def)
  qed
qed

lemma ws_front_solid: "solid c \<Longrightarrow> ws_front (byte_of_char c # b) = 0"
  using solid_byte [of c] by (auto simp: ws_front_def)

lemma ws_back_solid:
  assumes "solid c" shows "ws_back (byte_of_char c # r) = 0"
proof -
  have c: "byte_of_char c < 0x80" "byte_of_char c \<notin> {0x09, 0x0A, 0x0B, 0x0C, 0x0D, 0x20}"
    using solid_byte [OF assms] by simp_all
  have "ws_front (rev (take 3 (byte_of_char c # r))) \<noteq> 3"
  proof
    assume 3: "ws_front (rev (take 3 (byte_of_char c # r))) = 3"
    have "\<not> (0x80 \<le> byte_of_char c)" using c(1) by (simp add: not_le)
    moreover from 3 obtain x y where "rev (take 3 (byte_of_char c # r)) = [x, y, byte_of_char c]"
      by (cases r; cases "tl r") (auto simp: ws_front_def safe_get_def numeral_3_eq_3 split: if_splits)
    ultimately show False using 3 c(1) by (auto simp: ws_front_def safe_get_def split: if_splits)
  qed
  moreover have "byte_of_char c \<noteq> 0x85" "byte_of_char c \<noteq> 0xA0" using c(1) by auto
  ultimately show ?thesis using c(2) by (simp add: ws_back_def)
qed

lemma trim_solid:
  assumes "s \<noteq> []" "solid (hd s)" "solid (last s)"
  shows "str_trim s = s"
proof -
  have "trim_front (as_bytes s) = as_bytes s"
    using assms ws_front_solid by (cases s) (simp_all add: trim_front.simps as_bytes_def)
  moreover have "trim_back_rev (rev (as_bytes s)) = rev (as_bytes s)"
  proof (cases s rule: rev_cases)
    case (snoc t c)
    with assms ws_back_solid show ?thesis by (simp add: trim_back_rev.simps as_bytes_def)
  qed (use assms in simp)
  ultimately show ?thesis by (simp add: str_trim_def)
qed

lemma trim_Nil [simp]: "str_trim [] = []"
  by (simp add: str_trim_def trim_front.simps trim_back_rev.simps as_bytes_def from_bytes_def)

section \<open>Lines and pieces\<close>

fun split_inclusive :: "char \<Rightarrow> string \<Rightarrow> string list" where
  "split_inclusive c [] = []"
| "split_inclusive c (x # xs) =
     (if x = c then [x] # split_inclusive c xs
      else case split_inclusive c xs of [] \<Rightarrow> [[x]] | y # ys \<Rightarrow> (x # y) # ys)"

definition str_strip_suffix :: "string \<Rightarrow> string \<Rightarrow> string option" where
  "str_strip_suffix p s = (if suffix p s then Some (take (length s - length p) s) else None)"

definition chomp :: "string \<Rightarrow> string" where
  "chomp line =
     (case str_strip_suffix [CHR 0x0A] line of
        None \<Rightarrow> line
      | Some line \<Rightarrow> (case str_strip_suffix [CHR 0x0D] line of None \<Rightarrow> line | Some line \<Rightarrow> line))"

definition str_lines :: "string \<Rightarrow> string list" where
  "str_lines s = map chomp (split_inclusive (CHR 0x0A) s)"

definition str_strip_prefix :: "string \<Rightarrow> string \<Rightarrow> string option" where
  "str_strip_prefix p s = (if prefix p s then Some (drop (length p) s) else None)"

definition split_once :: "char \<Rightarrow> string \<Rightarrow> (string \<times> string) option" where
  "split_once c s = map_option (\<lambda>i. (take i s, drop (Suc i) s)) (position (\<lambda>x. x = c) s)"

definition rsplit_once :: "char \<Rightarrow> string \<Rightarrow> (string \<times> string) option" where
  "rsplit_once c s =
     map_option (\<lambda>i. (rev (drop (Suc i) (rev s)), rev (take i (rev s)))) (position (\<lambda>x. x = c) (rev s))"

fun str_contains :: "string \<Rightarrow> string \<Rightarrow> bool" where
  "str_contains pat [] = (pat = [])"
| "str_contains pat (x # xs) = (prefix pat (x # xs) \<or> str_contains pat xs)"

lemma str_contains_iff: "str_contains pat s \<longleftrightarrow> sublist pat s"
  by (induction s) (auto simp: sublist_Cons_right)

lemma position_append_hit: "c \<notin> set a \<Longrightarrow> position (\<lambda>x. x = c) (a @ c # b) = Some (length a)"
  by (induction a) auto

lemma split_once_hit: "c \<notin> set a \<Longrightarrow> split_once c (a @ c # b) = Some (a, b)"
  by (simp add: split_once_def position_append_hit)

lemma rsplit_once_hit: "c \<notin> set b \<Longrightarrow> rsplit_once c (a @ c # b) = Some (a, b)"
  using position_append_hit [of c "rev b" "rev a"] by (simp add: rsplit_once_def)

lemma rsplit_once_None: "c \<notin> set s \<Longrightarrow> rsplit_once c s = None"
  using position_None [of "\<lambda>x. x = c" "rev s"] by (auto simp: rsplit_once_def)

lemma split_inclusive_line: "c \<notin> set l \<Longrightarrow> split_inclusive c (l @ c # s) = (l @ [c]) # split_inclusive c s"
  by (induction l) auto

lemma strip_suffix_char:
  "str_strip_suffix [c] (l @ [c]) = Some l"
  "l = [] \<or> last l \<noteq> c \<Longrightarrow> str_strip_suffix [c] l = None"
  by (simp_all add: str_strip_suffix_def suffix_def) auto

lemma chomp_line: "l = [] \<or> last l \<noteq> CHR 0x0D \<Longrightarrow> chomp (l @ [CHR 0x0A]) = l"
  using strip_suffix_char by (simp add: chomp_def)

text \<open>Terminated lines are found again.\<close>

lemma str_lines_join:
  assumes "\<And>l. l \<in> set ls \<Longrightarrow> CHR 0x0A \<notin> set l \<and> (l = [] \<or> last l \<noteq> CHR 0x0D)"
  shows "str_lines (concat (map (\<lambda>l. l @ [CHR 0x0A]) ls)) = ls"
  using assms by (induction ls) (simp_all add: str_lines_def split_inclusive_line chomp_line)

end
