(* ===== verification/Adb_Auth.thy ===== *)
theory Adb_Auth
  imports Adb_Packet Paths Rust_Str
begin

text \<open>
  The host key of ADB authentication (\<open>adb-device/src/auth.rs\<close>): the base64 encoder, the
  SSH wire format of the public key, and loading, importing and creating the key. RSA, the
  PEM and OpenSSH parsers, the disk and the environment are parameters. The lemmas show that
  the text sent to the phone decodes to the exponent and modulus of the key, and which key
  \<open>load_or_create_key\<close> settles on.
\<close>

section \<open>Base64\<close>

definition TABLE :: string where
  "TABLE = ''ABCDEFGHIJKLMNOPQRSTUVWXYZabcdefghijklmnopqrstuvwxyz0123456789+/''"

definition chunk_word :: "bytes \<Rightarrow> u32" where
  "chunk_word chunk =
     (let b0 = ucast (chunk ! 0);
          b1 = (if 1 < length chunk then ucast (chunk ! 1) else 0);
          b2 = (if 2 < length chunk then ucast (chunk ! 2) else 0)
      in (push_bit 16 b0 OR push_bit 8 b1) OR b2)"

definition sextet :: "nat \<Rightarrow> u32 \<Rightarrow> nat" where
  "sextet k n = unat (drop_bit k n AND 63)"

definition base64_chunk :: "bytes \<Rightarrow> string" where
  "base64_chunk chunk =
     (let n = chunk_word chunk
      in [TABLE ! sextet 18 n,
          TABLE ! sextet 12 n,
          if length chunk > 1 then TABLE ! sextet 6 n else CHR ''='',
          if length chunk > 2 then TABLE ! sextet 0 n else CHR ''=''])"

function base64_encode :: "bytes \<Rightarrow> string" where
  "base64_encode data =
     (if data = [] then [] else base64_chunk (take 3 data) @ base64_encode (drop 3 data))"
  by pat_completeness auto
termination by (relation "measure length") auto

declare base64_encode.simps [simp del]

text \<open>A reference decoder (RFC 4648): the value of a character, a group of four, a text.\<close>

definition b64_value :: "char \<Rightarrow> u32 option" where
  "b64_value c = map_option word_of_nat (position (\<lambda>x. x = c) TABLE)"

definition b64_join :: "u32 \<Rightarrow> u32 \<Rightarrow> u32 \<Rightarrow> u32 \<Rightarrow> u32" where
  "b64_join s0 s1 s2 s3 = push_bit 18 s0 OR push_bit 12 s1 OR push_bit 6 s2 OR s3"

definition b64_bytes :: "u32 \<Rightarrow> bytes" where
  "b64_bytes v = [ucast (drop_bit 16 v), ucast (drop_bit 8 v), ucast v]"

fun b64_group :: "string \<Rightarrow> bytes option" where
  "b64_group [c0, c1, c2, c3] =
     (case (b64_value c0, b64_value c1) of
        (Some s0, Some s1) \<Rightarrow>
          if c2 = CHR ''='' then Some (take 1 (b64_bytes (b64_join s0 s1 0 0)))
          else (case b64_value c2 of
                  None \<Rightarrow> None
                | Some s2 \<Rightarrow>
                    if c3 = CHR ''='' then Some (take 2 (b64_bytes (b64_join s0 s1 s2 0)))
                    else map_option (\<lambda>s3. b64_bytes (b64_join s0 s1 s2 s3)) (b64_value c3))
      | _ \<Rightarrow> None)"
| "b64_group _ = None"

function base64_decode :: "string \<Rightarrow> bytes option" where
  "base64_decode t =
     (if t = [] then Some []
      else case (b64_group (take 4 t), base64_decode (drop 4 t)) of
             (Some a, Some b) \<Rightarrow> Some (a @ b)
           | _ \<Rightarrow> None)"
  by pat_completeness auto
termination by (relation "measure length") auto

declare base64_decode.simps [simp del]

lemma TABLE_length: "length TABLE = 64"
  by (simp add: TABLE_def)

lemma TABLE_distinct: "distinct TABLE"
  by (simp add: TABLE_def)

lemma TABLE_pad: "CHR ''='' \<notin> set TABLE"
  by (simp add: TABLE_def)

lemma position_nth: "distinct xs \<Longrightarrow> i < length xs \<Longrightarrow> position (\<lambda>x. x = xs ! i) xs = Some i"
proof (induction xs arbitrary: i)
  case (Cons x xs)
  show ?case
  proof (cases i)
    case (Suc j)
    with Cons have "x \<noteq> xs ! j" by auto
    with Suc Cons show ?thesis by simp
  qed simp
qed simp

lemma sextet_less: "sextet k n < 64"
proof -
  have "drop_bit k n AND 63 = take_bit 6 (drop_bit k n)" by (simp add: take_bit_eq_mask mask_eq_exp_minus_1)
  then show ?thesis unfolding sextet_def
    using take_bit_nat_less_exp [of 6 "unat (drop_bit k n)"] by (simp add: unsigned_take_bit_eq)
qed

lemma b64_value_sextet: "b64_value (TABLE ! sextet k n) = Some (drop_bit k n AND 63)"
  using position_nth [OF TABLE_distinct, of "sextet k n"] sextet_less [of k n]
  by (simp add: b64_value_def TABLE_length) (simp add: sextet_def)

lemma not_pad: "TABLE ! sextet k n \<noteq> CHR ''=''"
  using TABLE_pad nth_mem [of "sextet k n" TABLE] sextet_less [of k n] unfolding TABLE_length by metis

lemma and_63: "w AND 63 = take_bit 6 w" for w :: u32
  by (simp add: take_bit_eq_mask mask_eq_exp_minus_1)

lemma join_bit_iff:
  "bit (b64_join (drop_bit 18 n AND 63) (drop_bit 12 n AND 63) s t) i \<longleftrightarrow>
     i < 32 \<and> (12 \<le> i \<and> i < 24 \<and> bit n i \<or> 6 \<le> i \<and> bit s (i - 6) \<or> bit t i)" if "i < 24"
  using that unfolding b64_join_def and_63
  by (cases "18 \<le> i") (simp_all only: bit_or_iff bit_push_bit_iff bit_take_bit_iff bit_drop_bit_eq, auto)

lemma sextet_bit:
  "6 \<le> i \<Longrightarrow> bit (drop_bit 6 n AND 63) (i - 6) \<longleftrightarrow> i < 12 \<and> bit n i"
  "bit (drop_bit 0 n AND 63) i \<longleftrightarrow> i < 6 \<and> bit n i" for n :: u32
  unfolding and_63 by (auto simp only: bit_take_bit_iff bit_drop_bit_eq) auto

lemma b64_bytes_join:
  "b64_bytes (b64_join (drop_bit 18 n AND 63) (drop_bit 12 n AND 63) (drop_bit 6 n AND 63) (drop_bit 0 n AND 63))
     = b64_bytes n"
  "take 2 (b64_bytes (b64_join (drop_bit 18 n AND 63) (drop_bit 12 n AND 63) (drop_bit 6 n AND 63) 0))
     = take 2 (b64_bytes n)"
  "take 1 (b64_bytes (b64_join (drop_bit 18 n AND 63) (drop_bit 12 n AND 63) 0 0)) = take 1 (b64_bytes n)"
proof -
  let ?j = "b64_join (drop_bit 18 n AND 63) (drop_bit 12 n AND 63)"
  have eq: "ucast (drop_bit k v) = (ucast (drop_bit k n) :: u8)"
    if "\<And>i. k \<le> i \<Longrightarrow> i < k + 8 \<Longrightarrow> bit v i \<longleftrightarrow> bit n i" for v k
    by (rule bit_word_eqI) (simp add: bit_unsigned_iff bit_drop_bit_eq that)
  have eq0: "ucast v = (ucast n :: u8)" if "\<And>i. i < 8 \<Longrightarrow> bit v i \<longleftrightarrow> bit n i" for v
    using eq [of 0 v] that by simp
  have all: "bit (?j (drop_bit 6 n AND 63) (drop_bit 0 n AND 63)) i \<longleftrightarrow> bit n i" if "i < 24" for i
    using that by (simp only: join_bit_iff) (auto simp only: sextet_bit)
  have two: "bit (?j (drop_bit 6 n AND 63) 0) i \<longleftrightarrow> bit n i" if "8 \<le> i" "i < 24" for i
    using that by (simp only: join_bit_iff) (auto simp only: sextet_bit bit_0_eq)
  have one: "bit (?j 0 0) i \<longleftrightarrow> bit n i" if "16 \<le> i" "i < 24" for i
    using that by (auto simp only: join_bit_iff bit_0_eq)
  show "b64_bytes (?j (drop_bit 6 n AND 63) (drop_bit 0 n AND 63)) = b64_bytes n"
    using eq [of 16, OF all] eq [of 8, OF all] eq0 [OF all] by (simp only: b64_bytes_def)
  show "take 2 (b64_bytes (?j (drop_bit 6 n AND 63) 0)) = take 2 (b64_bytes n)"
    using eq [of 16, OF two] eq [of 8, OF two] by (simp only: b64_bytes_def) simp
  show "take 1 (b64_bytes (?j 0 0)) = take 1 (b64_bytes n)"
    using eq [of 16, OF one] by (simp only: b64_bytes_def) simp
qed

lemma chunk_word_bytes:
  "b64_bytes (chunk_word [a, b, c]) = [a, b, c]"
  "take 2 (b64_bytes (chunk_word [a, b])) = [a, b]"
  "take 1 (b64_bytes (chunk_word [a])) = [a]"
proof -
  let ?w = "\<lambda>(a :: u8) (b :: u8) (c :: u8). (push_bit 16 (ucast a) OR push_bit 8 (ucast b)) OR ucast c :: u32"
  have 1: "ucast (drop_bit 16 (?w a b c)) = a" for a b c
    by (rule bit_word_eqI)
      (auto simp: bit_unsigned_iff bit_drop_bit_eq bit_or_iff bit_push_bit_iff dest: bit_imp_le_length)
  have 2: "ucast (drop_bit 8 (?w a b c)) = b" for a b c
    by (rule bit_word_eqI)
      (auto simp: bit_unsigned_iff bit_drop_bit_eq bit_or_iff bit_push_bit_iff dest: bit_imp_le_length)
  have 3: "ucast (?w a b c) = c" for a b c
    by (rule bit_word_eqI)
      (auto simp: bit_unsigned_iff bit_or_iff bit_push_bit_iff dest: bit_imp_le_length)
  from 1 2 3 have w: "b64_bytes (?w a b c) = [a, b, c]" for a b c by (simp only: b64_bytes_def)
  show "b64_bytes (chunk_word [a, b, c]) = [a, b, c]" using w [of a b c] by (simp add: chunk_word_def)
  show "take 2 (b64_bytes (chunk_word [a, b])) = [a, b]" using w [of a b 0] by (simp add: chunk_word_def)
  show "take 1 (b64_bytes (chunk_word [a])) = [a]" using w [of a 0 0] by (simp add: chunk_word_def)
qed

lemma b64_group_chunk:
  assumes "chunk \<noteq> []" "length chunk \<le> 3"
  shows "b64_group (base64_chunk chunk) = Some chunk"
proof -
  consider a where "chunk = [a]" | a b where "chunk = [a, b]" | a b c where "chunk = [a, b, c]"
    using assms by (cases chunk; cases "tl chunk"; cases "tl (tl chunk)") auto
  then show ?thesis
  proof cases
    case 1
    then show ?thesis
      using b64_bytes_join(3) chunk_word_bytes(3) by (simp add: base64_chunk_def Let_def b64_value_sextet)
  next
    case 2
    then show ?thesis
      using b64_bytes_join(2) chunk_word_bytes(2) by (simp add: base64_chunk_def Let_def b64_value_sextet not_pad)
  next
    case 3
    then show ?thesis
      using b64_bytes_join(1) chunk_word_bytes(1) by (simp add: base64_chunk_def Let_def b64_value_sextet not_pad)
  qed
qed

lemma base64_chunk_length [simp]: "length (base64_chunk chunk) = 4"
  by (simp add: base64_chunk_def Let_def)

lemma base64_decode_group:
  "length g = 4 \<Longrightarrow> b64_group g = Some a \<Longrightarrow> base64_decode t = Some b \<Longrightarrow> base64_decode (g @ t) = Some (a @ b)"
  by (subst base64_decode.simps) auto

lemma base64_decode_encode: "base64_decode (base64_encode data) = Some data"
proof (induction data rule: base64_encode.induct)
  case (1 data)
  show ?case
  proof (cases "data = []")
    case False
    then have "b64_group (base64_chunk (take 3 data)) = Some (take 3 data)"
      by (intro b64_group_chunk) simp_all
    from base64_decode_group [OF base64_chunk_length this 1 [OF False]] False show ?thesis
      by (simp add: base64_encode.simps [of data])
  qed (simp add: base64_encode.simps base64_decode.simps)
qed

section \<open>The public key on the wire\<close>

definition push_ssh_string :: "bytes \<Rightarrow> bytes \<Rightarrow> bytes" where
  "push_ssh_string out s = out @ to_be32 (word_of_nat (length s)) @ s"

fun strip_zeros :: "bytes \<Rightarrow> bytes" where
  "strip_zeros (b # c # v) = (if b = 0 then strip_zeros (c # v) else b # c # v)"
| "strip_zeros v = v"

definition push_ssh_mpint :: "bytes \<Rightarrow> bytes \<Rightarrow> bytes" where
  "push_ssh_mpint out bs =
     (let v = strip_zeros bs
      in case v of
           b # _ \<Rightarrow> if b AND 0x80 \<noteq> 0 then out @ to_be32 (word_of_nat (length v + 1)) @ 0 # v
                    else push_ssh_string out v
         | [] \<Rightarrow> push_ssh_string out v)"

definition ssh_blob :: "bytes \<Rightarrow> bytes \<Rightarrow> bytes" where
  "ssh_blob e n = push_ssh_mpint (push_ssh_mpint (push_ssh_string [] (as_bytes ''ssh-rsa'')) e) n"

text \<open>A reference reader of the format (RFC 4251), and the number big-endian bytes stand for.\<close>

definition read_ssh_string :: "bytes \<Rightarrow> (bytes \<times> bytes) option" where
  "read_ssh_string b =
     (let n = unat (from_be32 (take 4 b))
      in if length b < 4 \<or> length b < 4 + n then None else Some (slice 4 (4 + n) b, drop (4 + n) b))"

definition be_nat :: "bytes \<Rightarrow> nat" where
  "be_nat b = le_nat (rev b)"

lemma be_nat_Cons: "be_nat (b # v) = unat b * 256 ^ length v + be_nat v"
  by (simp add: be_nat_def le_nat_append)

lemma be_nat_strip: "be_nat (strip_zeros v) = be_nat v"
  by (induction v rule: strip_zeros.induct) (simp_all add: be_nat_Cons)

lemma length_strip: "length (strip_zeros v) \<le> length v"
  by (induction v rule: strip_zeros.induct) auto

lemma read_push_string:
  "length s < 2 ^ 32 \<Longrightarrow> read_ssh_string (to_be32 (word_of_nat (length s)) @ s @ rest) = Some (s, rest)"
  by (simp add: read_ssh_string_def slice_def)

text \<open>The bytes \<open>push_ssh_mpint\<close> stores: the same number, with the sign bit clear.\<close>

lemma push_ssh_mpint_reads:
  assumes "length bs < 2 ^ 32 - 1"
  shows "\<exists>w v. push_ssh_mpint out bs = out @ w \<and> (\<forall>rest. read_ssh_string (w @ rest) = Some (v, rest))
      \<and> be_nat v = be_nat bs \<and> (v = [] \<or> hd v AND 0x80 = 0)"
proof -
  let ?v = "strip_zeros bs"
  have len: "length ?v < 2 ^ 32 - 1" using length_strip [of bs] assms by simp
  have plain: "\<exists>w v. push_ssh_string out ?v = out @ w \<and> (\<forall>rest. read_ssh_string (w @ rest) = Some (v, rest))
      \<and> be_nat v = be_nat bs \<and> (v = [] \<or> hd v AND 0x80 = 0)" if "?v = [] \<or> hd ?v AND 0x80 = 0"
    using that len read_push_string [of ?v] by (intro exI conjI) (auto simp: push_ssh_string_def be_nat_strip)
  show ?thesis
  proof (cases ?v)
    case Nil
    with plain show ?thesis by (simp add: push_ssh_mpint_def)
  next
    case (Cons b t)
    show ?thesis
    proof (cases "b AND 0x80 = 0")
      case True
      with plain Cons show ?thesis by (simp add: push_ssh_mpint_def)
    next
      case False
      with Cons have push: "push_ssh_mpint out bs = out @ (to_be32 (word_of_nat (length (0 # ?v))) @ 0 # ?v)"
        by (simp add: push_ssh_mpint_def)
      have "read_ssh_string ((to_be32 (word_of_nat (length (0 # ?v))) @ 0 # ?v) @ rest) = Some (0 # ?v, rest)" for rest
        using read_push_string [of "0 # ?v" rest] len by simp
      moreover have "be_nat (0 # ?v) = be_nat bs" by (simp add: be_nat_Cons be_nat_strip)
      ultimately show ?thesis using push
        by (intro exI [of _ "to_be32 (word_of_nat (length (0 # ?v))) @ 0 # ?v"] exI [of _ "0 # ?v"]) simp
    qed
  qed
qed

lemma ssh_blob_reads:
  assumes "length e < 2 ^ 32 - 1" "length n < 2 ^ 32 - 1"
  shows "\<exists>r e' r' n'. read_ssh_string (ssh_blob e n) = Some (as_bytes ''ssh-rsa'', r)
      \<and> read_ssh_string r = Some (e', r') \<and> read_ssh_string r' = Some (n', [])
      \<and> be_nat e' = be_nat e \<and> be_nat n' = be_nat n"
proof -
  let ?s = "push_ssh_string [] (as_bytes ''ssh-rsa'')"
  obtain we e' where e: "push_ssh_mpint ?s e = ?s @ we" "\<And>rest. read_ssh_string (we @ rest) = Some (e', rest)"
      "be_nat e' = be_nat e"
    using push_ssh_mpint_reads [OF assms(1), of ?s] by blast
  obtain wn n' where n: "push_ssh_mpint (?s @ we) n = (?s @ we) @ wn"
      "\<And>rest. read_ssh_string (wn @ rest) = Some (n', rest)" "be_nat n' = be_nat n"
    using push_ssh_mpint_reads [OF assms(2), of "?s @ we"] by blast
  have "read_ssh_string (ssh_blob e n) = Some (as_bytes ''ssh-rsa'', we @ wn)"
    using read_push_string [of "as_bytes ''ssh-rsa''" "we @ wn"] e(1) n(1)
    by (simp add: ssh_blob_def push_ssh_string_def)
  moreover have "read_ssh_string wn = Some (n', [])" using n(2) [of "[]"] by simp
  ultimately show ?thesis using e(2,3) n(3) by blast
qed

section \<open>Loading and creating the key\<close>

text \<open>
  The libraries: RSA keys \<open>'k\<close> with their PKCS#8, PKCS#1 and OpenSSH forms. An error of a
  library is its text. \<open>rsa_from_openssh\<close> gives \<open>None\<close> for a key that is not RSA.
\<close>

record 'k rsa_lib =
  rsa_from_pkcs8_der :: "bytes \<Rightarrow> string + 'k"
  rsa_from_pkcs8_pem :: "string \<Rightarrow> string + 'k"
  rsa_from_pkcs1_pem :: "string \<Rightarrow> string + 'k"
  rsa_from_openssh :: "bytes \<Rightarrow> string + (string + 'k) option"
  rsa_to_pkcs8_pem :: "'k \<Rightarrow> string + string"
  rsa_to_pkcs8_der :: "'k \<Rightarrow> string + bytes"
  rsa_der_to_pem :: "bytes \<Rightarrow> string + string"
  rsa_n :: "'k \<Rightarrow> bytes"
  rsa_e :: "'k \<Rightarrow> bytes"
  rsa_new :: "string + 'k"
  rsa_sign_sha1 :: "'k \<Rightarrow> bytes \<Rightarrow> bytes"

text \<open>The disk, with the state \<open>'s\<close>, and the environment of the process.\<close>

record 's key_disk =
  kd_exists :: "string \<Rightarrow> 's \<Rightarrow> bool"
  kd_read :: "string \<Rightarrow> 's \<Rightarrow> string + bytes"
  kd_mkdirs :: "string \<Rightarrow> 's \<Rightarrow> (string + unit) \<times> 's"
  kd_create :: "string \<Rightarrow> nat \<Rightarrow> 's \<Rightarrow> (string + unit) \<times> 's"
  kd_write_all :: "string \<Rightarrow> bytes \<Rightarrow> 's \<Rightarrow> (string + unit) \<times> 's"

record key_env =
  env_xdg_data_home :: "string option"
  env_data_dir :: "string option"
  env_home_dir :: "string option"
  env_user :: "string option"
  env_logname :: "string option"
  env_hostname :: "string option"
  file_hostname :: "string option"
  file_etc_hostname :: "string option"

record adb_key =
  pkcs8_der :: bytes
  ssh_pub :: bytes
  key_path :: string

definition default_key_path :: "key_env \<Rightarrow> string" where
  "default_key_path env =
     (let base = (case env_xdg_data_home env of
            Some b \<Rightarrow> b
          | None \<Rightarrow> (case env_data_dir env of Some b \<Rightarrow> b | None \<Rightarrow> ''.''))
      in path_join (path_join base ''adbshare'') ''adb_key.pkcs8'')"

definition android_adb_key_path :: "key_env \<Rightarrow> string option" where
  "android_adb_key_path env =
     map_option (\<lambda>h. path_join (path_join h ''.android'') ''adbkey'') (env_home_dir env)"

definition current_hostname :: "key_env \<Rightarrow> string" where
  "current_hostname env =
     (case env_hostname env of
        Some h \<Rightarrow> h
      | None \<Rightarrow>
          (case (case file_hostname env of Some h \<Rightarrow> Some h | None \<Rightarrow> file_etc_hostname env) of
             None \<Rightarrow> ''localhost''
           | Some h \<Rightarrow> let h = str_trim h in if h = [] then ''localhost'' else h))"

definition ssh_pub_from_pkcs8 :: "'k rsa_lib \<Rightarrow> key_env \<Rightarrow> bytes \<Rightarrow> adb_error + bytes" where
  "ssh_pub_from_pkcs8 R env der =
     (case rsa_from_pkcs8_der R der of
        Inl e \<Rightarrow> Err (Other (''parse pkcs8: '' @ e))
      | Inr key \<Rightarrow>
          (let wire = ssh_blob (rsa_e R key) (rsa_n R key);
               user = (case env_user env of
                   Some u \<Rightarrow> u
                 | None \<Rightarrow> (case env_logname env of Some u \<Rightarrow> u | None \<Rightarrow> ''unknown''));
               host = current_hostname env
           in Ok (as_bytes (base64_encode wire)
                  @ as_bytes ('' '' @ user @ ''@'' @ host @ [CHR 0x00]))))"

definition from_pkcs8_der :: "'k rsa_lib \<Rightarrow> key_env \<Rightarrow> bytes \<Rightarrow> string \<Rightarrow> adb_error + adb_key" where
  "from_pkcs8_der R env der path =
     bind_result (ssh_pub_from_pkcs8 R env der) (\<lambda>pub.
       Ok \<lparr>pkcs8_der = der, ssh_pub = pub, key_path = path\<rparr>)"

definition sign :: "'k rsa_lib \<Rightarrow> adb_key \<Rightarrow> bytes \<Rightarrow> adb_error + bytes" where
  "sign R k token =
     (case rsa_from_pkcs8_der R (pkcs8_der k) of
        Inl e \<Rightarrow> Err (Other (''parse pkcs8: '' @ e))
      | Inr key \<Rightarrow> Ok (rsa_sign_sha1 R key token))"

definition write_private_file :: "'s key_disk \<Rightarrow> string \<Rightarrow> bytes \<Rightarrow> 's \<Rightarrow> (adb_error + unit) \<times> 's" where
  "write_private_file D path contents s =
     (let (r, s) = (case path_parent_str path of
            Some parent \<Rightarrow> kd_mkdirs D parent s
          | None \<Rightarrow> (Ok (), s))
      in case r of
           Inl e \<Rightarrow> (Err (Io e), s)
         | Inr _ \<Rightarrow>
             (case kd_create D path 0x180 s of
                (Inl e, s) \<Rightarrow> (Err (Io e), s)
              | (Inr _, s) \<Rightarrow>
                  (case kd_write_all D path contents s of
                     (Inl e, s) \<Rightarrow> (Err (Io e), s)
                   | (Inr _, s) \<Rightarrow> (Ok (), s))))"

definition store_key ::
  "'k rsa_lib \<Rightarrow> key_env \<Rightarrow> 's key_disk \<Rightarrow> 'k \<Rightarrow> string \<Rightarrow> 's \<Rightarrow> (adb_error + adb_key) \<times> 's" where
  "store_key R env D key store_path s =
     (case rsa_to_pkcs8_pem R key of
        Inl e \<Rightarrow> (Err (Other (''encode pkcs8 pem: '' @ e)), s)
      | Inr pem \<Rightarrow>
          (case write_private_file D store_path (as_bytes pem) s of
             (Inl e, s) \<Rightarrow> (Err e, s)
           | (Inr _, s) \<Rightarrow>
               (case rsa_to_pkcs8_der R key of
                  Inl e \<Rightarrow> (Err (Other (''re-encode pkcs8: '' @ e)), s)
                | Inr der \<Rightarrow> (from_pkcs8_der R env der store_path, s))))"

definition generate_key ::
  "'k rsa_lib \<Rightarrow> key_env \<Rightarrow> 's key_disk \<Rightarrow> string \<Rightarrow> 's \<Rightarrow> (adb_error + adb_key) \<times> 's" where
  "generate_key R env D path s =
     (case rsa_new R of
        Inl e \<Rightarrow> (Err (Other (''rsa keygen: '' @ e)), s)
      | Inr key \<Rightarrow>
          (case rsa_to_pkcs8_der R key of
             Inl e \<Rightarrow> (Err (Other (''encode pkcs8: '' @ e)), s)
           | Inr der \<Rightarrow>
               (case rsa_der_to_pem R der of
                  Inl e \<Rightarrow> (Err (Der e), s)
                | Inr pem \<Rightarrow>
                    (case write_private_file D path (as_bytes pem) s of
                       (Inl e, s) \<Rightarrow> (Err e, s)
                     | (Inr _, s) \<Rightarrow> (from_pkcs8_der R env der path, s)))))"

type_synonym ('k, 's) importer = "string \<Rightarrow> string \<Rightarrow> 's \<Rightarrow> (adb_error + adb_key) \<times> 's"

definition load_pkcs8_pem :: "'k rsa_lib \<Rightarrow> key_env \<Rightarrow> 's key_disk \<Rightarrow> ('k, 's) importer" where
  "load_pkcs8_pem R env D pem_path store_path s =
     (case kd_read D pem_path s of
        Inl e \<Rightarrow> (Err (Io e), s)
      | Inr pem \<Rightarrow>
          (let pem_str = from_utf8_lossy pem
           in case rsa_from_pkcs8_pem R pem_str of
                Inr k \<Rightarrow> store_key R env D k store_path s
              | Inl e \<Rightarrow>
                  (case rsa_from_pkcs1_pem R pem_str of
                     Inr k \<Rightarrow> store_key R env D k store_path s
                   | Inl e1 \<Rightarrow>
                       (Err (Other (''parse pkcs8 pem: '' @ e @ ''; parse pkcs1 pem: '' @ e1)), s))))"

definition import_pkcs8_pem :: "'k rsa_lib \<Rightarrow> key_env \<Rightarrow> 's key_disk \<Rightarrow> ('k, 's) importer" where
  "import_pkcs8_pem R env D pem_path store_path s =
     (case kd_read D pem_path s of
        Inl e \<Rightarrow> (Err (Io e), s)
      | Inr pem \<Rightarrow>
          (case rsa_from_pkcs8_pem R (from_utf8_lossy pem) of
             Inl e \<Rightarrow> (Err (Other (''parse pkcs8 pem: '' @ e)), s)
           | Inr k \<Rightarrow> store_key R env D k store_path s))"

definition import_pkcs1_pem :: "'k rsa_lib \<Rightarrow> key_env \<Rightarrow> 's key_disk \<Rightarrow> ('k, 's) importer" where
  "import_pkcs1_pem R env D pem_path store_path s =
     (case kd_read D pem_path s of
        Inl e \<Rightarrow> (Err (Io e), s)
      | Inr pem \<Rightarrow>
          (case rsa_from_pkcs1_pem R (from_utf8_lossy pem) of
             Inl e \<Rightarrow> (Err (Other (''parse pkcs1 pem: '' @ e)), s)
           | Inr k \<Rightarrow> store_key R env D k store_path s))"

definition import_openssh :: "'k rsa_lib \<Rightarrow> key_env \<Rightarrow> 's key_disk \<Rightarrow> ('k, 's) importer" where
  "import_openssh R env D openssh_path store_path s =
     (case kd_read D openssh_path s of
        Inl e \<Rightarrow> (Err (Io e), s)
      | Inr pem \<Rightarrow>
          (case rsa_from_openssh R pem of
             Inl e \<Rightarrow> (Err (Other (''parse openssh: '' @ e)), s)
           | Inr None \<Rightarrow> (Err (Other ''not an RSA key''), s)
           | Inr (Some (Inl e)) \<Rightarrow> (Err (Other (''openssh -> rsa: '' @ e)), s)
           | Inr (Some (Inr k)) \<Rightarrow> store_key R env D k store_path s))"

fun first_import :: "('k, 's) importer list \<Rightarrow> string \<Rightarrow> string \<Rightarrow> 's \<Rightarrow> adb_key option \<times> 's" where
  "first_import [] android our s = (None, s)"
| "first_import (import # rest) android our s =
     (case import android our s of
        (Inr k, s) \<Rightarrow> (Some k, s)
      | (Inl e, s) \<Rightarrow> first_import rest android our s)"

definition load_or_create_key ::
  "'k rsa_lib \<Rightarrow> key_env \<Rightarrow> 's key_disk \<Rightarrow> 's \<Rightarrow> (adb_error + adb_key) \<times> 's" where
  "load_or_create_key R env D s =
     (let our_path = default_key_path env;
          (r, s) = (if kd_exists D our_path s then load_pkcs8_pem R env D our_path our_path s
                    else (Err (Other ''''), s))
      in case r of
           Inr k \<Rightarrow> (Ok k, s)
         | Inl _ \<Rightarrow>
             (let (r, s) = (case android_adb_key_path env of
                    None \<Rightarrow> (None, s)
                  | Some android_path \<Rightarrow>
                      if kd_exists D android_path s
                      then first_import
                             [import_openssh R env D, import_pkcs8_pem R env D, import_pkcs1_pem R env D]
                             android_path our_path s
                      else (None, s))
              in case r of
                   Some k \<Rightarrow> (Ok k, s)
                 | None \<Rightarrow> generate_key R env D our_path s))"

section \<open>What the key functions do\<close>

lemma base64_encode_Nil [simp]: "base64_encode [] = []"
  by (simp add: base64_encode.simps)

lemma base64_encode_chars: "set (base64_encode data) \<subseteq> set TABLE \<union> {CHR ''=''}"
proof (induction data rule: base64_encode.induct)
  case (1 data)
  have t: "TABLE ! sextet k n \<in> set TABLE" for k n
    by (rule nth_mem) (simp only: TABLE_length sextet_less)
  have "set (base64_chunk (take 3 data)) \<subseteq> set TABLE \<union> {CHR ''=''}"
    using t by (simp add: base64_chunk_def Let_def)
  then show ?case using 1 by (subst base64_encode.simps) simp
qed

lemma base64_no_space: "CHR '' '' \<notin> set (base64_encode data)"
proof
  assume "CHR '' '' \<in> set (base64_encode data)"
  then have "CHR '' '' \<in> set TABLE \<union> {CHR ''=''}" using base64_encode_chars by blast
  then show False by (simp add: TABLE_def)
qed

text \<open>The text sent to the phone, read back: up to the space it decodes to exponent and modulus.\<close>

lemma ssh_pub_reads:
  assumes "ssh_pub_from_pkcs8 R env der = Ok pub"
    and len: "\<And>k. rsa_from_pkcs8_der R der = Ok k \<Longrightarrow> length (rsa_e R k) < 2 ^ 32 - 1 \<and> length (rsa_n R k) < 2 ^ 32 - 1"
  shows "\<exists>k wire r e r' n. rsa_from_pkcs8_der R der = Ok k
      \<and> base64_decode (takeWhile (\<lambda>c. c \<noteq> CHR '' '') (from_bytes pub)) = Some wire
      \<and> read_ssh_string wire = Some (as_bytes ''ssh-rsa'', r)
      \<and> read_ssh_string r = Some (e, r') \<and> read_ssh_string r' = Some (n, [])
      \<and> be_nat e = be_nat (rsa_e R k) \<and> be_nat n = be_nat (rsa_n R k) \<and> last pub = 0"
proof -
  obtain k user host where k: "rsa_from_pkcs8_der R der = Ok k"
    and pub: "pub = as_bytes (base64_encode (ssh_blob (rsa_e R k) (rsa_n R k)))
        @ as_bytes ('' '' @ user @ ''@'' @ host @ [CHR 0x00])"
    using assms(1) by (auto simp: ssh_pub_from_pkcs8_def Let_def split: sum.splits)
  have shown: "from_bytes pub = base64_encode (ssh_blob (rsa_e R k) (rsa_n R k)) @ CHR '' '' # user @ ''@'' @ host @ [CHR 0x00]"
    by (simp add: pub from_bytes_def as_bytes_def o_def)
  have "takeWhile (\<lambda>c. c \<noteq> CHR '' '') (from_bytes pub) = base64_encode (ssh_blob (rsa_e R k) (rsa_n R k))"
    unfolding shown by (subst takeWhile_append2) (use base64_no_space in auto)
  moreover have "last pub = 0" by (simp add: pub as_bytes_def byte_of_char_def)
  moreover obtain r e r' n where "read_ssh_string (ssh_blob (rsa_e R k) (rsa_n R k)) = Some (as_bytes ''ssh-rsa'', r)"
      "read_ssh_string r = Some (e, r')" "read_ssh_string r' = Some (n, [])"
      "be_nat e = be_nat (rsa_e R k)" "be_nat n = be_nat (rsa_n R k)"
    using ssh_blob_reads [OF conjunct1 [OF len [OF k]] conjunct2 [OF len [OF k]]] by (elim exE conjE)
  ultimately show ?thesis
    using k base64_decode_encode [of "ssh_blob (rsa_e R k) (rsa_n R k)"]
    by (intro exI [of _ k] exI [of _ "ssh_blob (rsa_e R k) (rsa_n R k)"] exI [of _ r] exI [of _ e]
        exI [of _ r'] exI [of _ n]) simp
qed

text \<open>
  A disk on which the private file can be written: afterwards the file has the new contents,
  and what was there for the other paths stays.
\<close>

definition writable :: "'s key_disk \<Rightarrow> string \<Rightarrow> 's \<Rightarrow> bool" where
  "writable D path s \<longleftrightarrow>
     (\<forall>contents. \<exists>s'. write_private_file D path contents s = (Ok (), s')
        \<and> kd_read D path s' = Ok contents \<and> kd_exists D path s')"

definition rsa_consistent :: "'k rsa_lib \<Rightarrow> 'k \<Rightarrow> bool" where
  "rsa_consistent R k \<longleftrightarrow>
     (\<exists>pem der. rsa_to_pkcs8_pem R k = Ok pem \<and> rsa_from_pkcs8_pem R pem = Ok k
        \<and> utf8_valid (as_bytes pem) \<and> rsa_to_pkcs8_der R k = Ok der \<and> rsa_from_pkcs8_der R der = Ok k)"

lemma store_key_ok:
  assumes "rsa_consistent R k" and "writable D path s"
  obtains key s' pem where "store_key R env D k path s = (Ok key, s')"
    "rsa_from_pkcs8_der R (pkcs8_der key) = Ok k" "rsa_to_pkcs8_pem R k = Ok pem"
    "kd_read D path s' = Ok (as_bytes pem)" "kd_exists D path s'"
proof -
  obtain pem der where pem: "rsa_to_pkcs8_pem R k = Ok pem" and der: "rsa_to_pkcs8_der R k = Ok der"
    and k: "rsa_from_pkcs8_der R der = Ok k"
    using assms(1) by (auto simp: rsa_consistent_def)
  obtain s' where w: "write_private_file D path (as_bytes pem) s = (Ok (), s')"
    "kd_read D path s' = Ok (as_bytes pem)" "kd_exists D path s'"
    using assms(2) by (auto simp: writable_def)
  obtain pub where pub: "ssh_pub_from_pkcs8 R env der = Ok pub"
    using k by (simp add: ssh_pub_from_pkcs8_def Let_def)
  show thesis
    by (rule that [OF _ _ pem w(2,3), of "\<lparr>pkcs8_der = der, ssh_pub = pub, key_path = path\<rparr>"])
      (simp_all add: store_key_def pem w(1) der from_pkcs8_der_def pub k)
qed

text \<open>The stored key is found again: the identity of the host survives a restart.\<close>

lemma stored_key_survives:
  assumes R: "rsa_consistent R k" and w: "writable D (default_key_path env) s"
    and stored: "kd_exists D (default_key_path env) s" "rsa_to_pkcs8_pem R k = Ok pem"
      "kd_read D (default_key_path env) s = Ok (as_bytes pem)"
  shows "\<exists>key s'. load_or_create_key R env D s = (Ok key, s')
      \<and> rsa_from_pkcs8_der R (pkcs8_der key) = Ok k
      \<and> kd_read D (default_key_path env) s' = Ok (as_bytes pem)"
proof -
  have pem: "rsa_from_pkcs8_pem R pem = Ok k" "utf8_valid (as_bytes pem)"
    using R stored(2) by (auto simp: rsa_consistent_def)
  obtain key s' pem' where st: "store_key R env D k (default_key_path env) s = (Ok key, s')"
    "rsa_from_pkcs8_der R (pkcs8_der key) = Ok k" "rsa_to_pkcs8_pem R k = Ok pem'"
    "kd_read D (default_key_path env) s' = Ok (as_bytes pem')" "kd_exists D (default_key_path env) s'"
    by (rule store_key_ok [OF R w])
  have "load_pkcs8_pem R env D (default_key_path env) (default_key_path env) s = (Ok key, s')"
    using stored(3) pem st(1) by (simp add: load_pkcs8_pem_def from_utf8_lossy_valid)
  with st stored(1,2) show ?thesis by (simp add: load_or_create_key_def)
qed

end
