(* ===== verification/Adb_Transport.thy ===== *)
theory Adb_Transport
  imports Adb_Auth
begin

text \<open>
  The ADB transport (\<open>adb-device/src/transport.rs\<close>): reading and writing messages on a byte
  stream, the CNXN/AUTH handshake with its deadline, and the byte channel between the USB pump
  thread and the connection. What the device sends is the list of bytes that arrive before
  the stream ends, fails or falls silent; a handshake that waits on a silent stream is ended
  by the deadline. The writing side is a parameter.
\<close>

section \<open>The byte stream\<close>

datatype rd_end = At_Eof | At_Error string | At_Silence

record input =
  rd_bytes :: bytes
  rd_end :: rd_end

text \<open>A call returns, waits forever, or panics.\<close>

datatype 'a outcome = Returns 'a | Waits | Panics

datatype read_err = UnexpectedEof | IoFailure string

definition read_exact :: "nat \<Rightarrow> input \<Rightarrow> ((read_err + bytes) \<times> input) outcome" where
  "read_exact n i =
     (if n \<le> length (rd_bytes i)
      then Returns (Ok (take n (rd_bytes i)), i\<lparr>rd_bytes := drop n (rd_bytes i)\<rparr>)
      else case rd_end i of
             At_Eof \<Rightarrow> Returns (Err UnexpectedEof, i\<lparr>rd_bytes := []\<rparr>)
           | At_Error e \<Rightarrow> Returns (Err (IoFailure e), i\<lparr>rd_bytes := []\<rparr>)
           | At_Silence \<Rightarrow> Waits)"

record 'w sink =
  write_all :: "bytes \<Rightarrow> 'w \<Rightarrow> ((string + unit) \<times> 'w) outcome"
  flush :: "'w \<Rightarrow> ((string + unit) \<times> 'w) outcome"

type_synonym ('w, 'a) session = "input \<times> 'w \<Rightarrow> ((adb_error + 'a) \<times> input \<times> 'w) outcome"

definition return_ok :: "'a \<Rightarrow> ('w, 'a) session" where
  "return_ok a st = Returns (Ok a, st)"

definition fail_with :: "adb_error \<Rightarrow> ('w, 'a) session" where
  "fail_with e st = Returns (Err e, st)"

definition and_then :: "('w, 'a) session \<Rightarrow> ('a \<Rightarrow> ('w, 'b) session) \<Rightarrow> ('w, 'b) session" where
  "and_then m f st =
     (case m st of
        Returns (Inl e, st) \<Rightarrow> Returns (Err e, st)
      | Returns (Inr a, st) \<Rightarrow> f a st
      | Waits \<Rightarrow> Waits
      | Panics \<Rightarrow> Panics)"

definition HANDSHAKE_PAYLOAD :: nat where "HANDSHAKE_PAYLOAD = 1024 * 1024"
definition MAX_AUTH_ATTEMPTS :: nat where "MAX_AUTH_ATTEMPTS = 3"

definition read_message :: "('w, message option) session" where
  "read_message st =
     (case st of (i, w) \<Rightarrow>
      case read_exact HEADER_LEN i of
        Waits \<Rightarrow> Waits
      | Panics \<Rightarrow> Panics
      | Returns (Inl UnexpectedEof, i) \<Rightarrow> Returns (Ok None, i, w)
      | Returns (Inl (IoFailure e), i) \<Rightarrow> Returns (Err (Io e), i, w)
      | Returns (Inr header, i) \<Rightarrow>
          (let data_len = unat (from_le32 (slice 12 16 header))
           in if data_len > HANDSHAKE_PAYLOAD
              then Returns (Err (InvalidResponse (''ADB payload too large: '' @ show_nat data_len)), i, w)
              else case read_exact data_len i of
                     Waits \<Rightarrow> Waits
                   | Panics \<Rightarrow> Panics
                   | Returns (Inl UnexpectedEof, i) \<Rightarrow> Returns (Err (Io ''early eof''), i, w)
                   | Returns (Inl (IoFailure e), i) \<Rightarrow> Returns (Err (Io e), i, w)
                   | Returns (Inr p, i) \<Rightarrow>
                       (case decode header p of
                          Inl e \<Rightarrow> Returns (Err e, i, w)
                        | Inr m \<Rightarrow> Returns (Ok (Some m), i, w))))"

definition write_message :: "'w sink \<Rightarrow> message \<Rightarrow> ('w, unit) session" where
  "write_message W msg st =
     (case st of (i, w) \<Rightarrow>
      case encode msg of
        None \<Rightarrow> Panics
      | Some b \<Rightarrow>
          (case write_all W b w of
             Waits \<Rightarrow> Waits
           | Panics \<Rightarrow> Panics
           | Returns (Inl e, w) \<Rightarrow> Returns (Err (Io e), i, w)
           | Returns (Inr _, w) \<Rightarrow>
               (case flush W w of
                  Waits \<Rightarrow> Waits
                | Panics \<Rightarrow> Panics
                | Returns (Inl e, w) \<Rightarrow> Returns (Err (Io e), i, w)
                | Returns (Inr _, w) \<Rightarrow> Returns (Ok (), i, w))))"

section \<open>The handshake\<close>

text \<open>\<open>match read_message \<dots> { Some(m) => m, None => return Err(Disconnected) }\<close>\<close>

definition next_message :: "('w, message) session" where
  "next_message =
     and_then read_message (\<lambda>r. case r of Some m \<Rightarrow> return_ok m | None \<Rightarrow> fail_with Disconnected)"

text \<open>
  The AUTH loop, with the number of attempts that are left. The key is given by the RSA library
  and the stored key.
\<close>

fun auth_loop ::
  "'k rsa_lib \<Rightarrow> 'w sink \<Rightarrow> adb_key option \<Rightarrow> nat \<Rightarrow> message \<Rightarrow> ('w, message) session" where
  "auth_loop R W key 0 msg = (if command msg = Auth then fail_with Unauthorized else return_ok msg)"
| "auth_loop R W key (Suc left) msg =
     (if command msg \<noteq> Auth then return_ok msg
      else case key of
             None \<Rightarrow> fail_with Unauthorized
           | Some k \<Rightarrow>
               if arg0 msg \<noteq> AUTH_TOKEN
               then fail_with (InvalidResponse (''unexpected AUTH type '' @ show_nat (unat (arg0 msg))))
               else case sign R k (payload msg) of
                      Inl e \<Rightarrow> fail_with e
                    | Inr sig \<Rightarrow>
                        and_then (write_message W (new_message Auth AUTH_SIGNATURE 0 sig)) (\<lambda>_.
                        and_then next_message (\<lambda>msg.
                          if command msg = Auth \<and> arg0 msg = AUTH_TOKEN
                          then and_then (write_message W (new_message Auth AUTH_RSAPUBLICKEY 0 (ssh_pub k))) (\<lambda>_.
                               and_then next_message (\<lambda>msg. auth_loop R W key left msg))
                          else auth_loop R W key left msg)))"

definition command_debug :: "command \<Rightarrow> string" where
  "command_debug c =
     (case c of Sync \<Rightarrow> ''Sync'' | Connect \<Rightarrow> ''Connect'' | Open \<Rightarrow> ''Open'' | Okay \<Rightarrow> ''Okay''
      | Close \<Rightarrow> ''Close'' | Write \<Rightarrow> ''Write'' | Auth \<Rightarrow> ''Auth'' | Fail \<Rightarrow> ''Fail'')"

definition connect_message :: "string \<Rightarrow> string \<Rightarrow> message" where
  "connect_message version serial =
     new_message Connect ADB_VERSION 0x100000 (as_bytes (''adbshare::'' @ version @ ''::'' @ serial))"

definition open_inner ::
  "'k rsa_lib \<Rightarrow> 'w sink \<Rightarrow> string \<Rightarrow> string \<Rightarrow> adb_key option \<Rightarrow> ('w, unit) session" where
  "open_inner R W version serial key =
     and_then (write_message W (connect_message version serial)) (\<lambda>_.
     and_then next_message (\<lambda>msg.
     and_then (auth_loop R W key MAX_AUTH_ATTEMPTS msg) (\<lambda>msg.
       if command msg \<noteq> Connect
       then fail_with (InvalidResponse (''expected CNXN, got '' @ command_debug (command msg)))
       else return_ok ())))"

text \<open>\<open>open\<close>: the deadline over the whole handshake ends one that waits.\<close>

definition open_transport ::
  "'k rsa_lib \<Rightarrow> 'w sink \<Rightarrow> string \<Rightarrow> string \<Rightarrow> adb_key option \<Rightarrow> input \<times> 'w
     \<Rightarrow> ((adb_error + input \<times> 'w) option)" where
  "open_transport R W version serial key st =
     (case open_inner R W version serial key st of
        Returns (Inl e, st) \<Rightarrow> Some (Err e)
      | Returns (Inr _, st) \<Rightarrow> Some (Ok st)
      | Waits \<Rightarrow> Some (Err Timeout)
      | Panics \<Rightarrow> None)"

section \<open>What the handshake does\<close>

definition wire :: "message list \<Rightarrow> bytes" where
  "wire ms = concat (map (\<lambda>m. header_of m @ payload m) ms)"

lemma wire_simps [simp]:
  "wire [] = []" "wire (m # ms) = header_of m @ payload m @ wire ms" "wire (ms @ ms') = wire ms @ wire ms'"
  by (simp_all add: wire_def)

definition small :: "message \<Rightarrow> bool" where
  "small m \<longleftrightarrow> length (payload m) \<le> HANDSHAKE_PAYLOAD"

lemma small_length: "small m \<Longrightarrow> length (payload m) < 2 ^ 32"
  by (simp add: small_def HANDSHAKE_PAYLOAD_def)

lemma next_message_wire:
  assumes "small m" and "rd_bytes i = wire (m # ms) @ rest"
  shows "next_message (i, w) = Returns (Ok m, i\<lparr>rd_bytes := wire ms @ rest\<rparr>, w)"
proof -
  have "read_exact HEADER_LEN i = Returns (Ok (header_of m), i\<lparr>rd_bytes := payload m @ wire ms @ rest\<rparr>)"
    using assms(2) by (simp add: read_exact_def)
  moreover have "read_exact (length (payload m)) (i\<lparr>rd_bytes := payload m @ wire ms @ rest\<rparr>) =
      Returns (Ok (payload m), i\<lparr>rd_bytes := wire ms @ rest\<rparr>)"
    by (simp add: read_exact_def)
  ultimately have "read_message (i, w) = Returns (Ok (Some m), i\<lparr>rd_bytes := wire ms @ rest\<rparr>, w)"
    using small_length [OF assms(1)] assms(1) decode_header_of [of m]
    by (simp add: read_message_def Let_def small_def)
  then show ?thesis by (simp add: next_message_def and_then_def return_ok_def)
qed

text \<open>A writing side that takes everything; \<open>out\<close> is what it has taken.\<close>

definition takes_all :: "'w sink \<Rightarrow> ('w \<Rightarrow> bytes) \<Rightarrow> bool" where
  "takes_all W out \<longleftrightarrow>
     (\<forall>b w. \<exists>w' w''. write_all W b w = Returns (Ok (), w') \<and> flush W w' = Returns (Ok (), w'')
        \<and> out w'' = out w @ b)"

lemma write_message_takes:
  assumes "takes_all W out" and "length (payload m) < 2 ^ 32"
  obtains w' where "write_message W m (i, w) = Returns (Ok (), i, w')" "out w' = out w @ wire [m]"
proof -
  have e: "encode m = Some (wire [m])" using assms(2) by (simp add: encode_def try_encode_def)
  obtain w1 w2 where "write_all W (wire [m]) w = Returns (Ok (), w1)" "flush W w1 = Returns (Ok (), w2)"
    "out w2 = out w @ wire [m]"
    using assms(1) unfolding takes_all_def by blast
  then show thesis by (intro that [of w2]) (simp_all add: write_message_def e del: wire_simps)
qed

definition is_token :: "message \<Rightarrow> bool" where
  "is_token m \<longleftrightarrow> command m = Auth \<and> arg0 m = AUTH_TOKEN \<and> small m"

definition signature :: "'k rsa_lib \<Rightarrow> adb_key \<Rightarrow> message \<Rightarrow> message" where
  "signature R k m = new_message Auth AUTH_SIGNATURE 0 (case sign R k (payload m) of Inr sig \<Rightarrow> sig | Inl _ \<Rightarrow> [])"

definition public_key :: "adb_key \<Rightarrow> message" where
  "public_key k = new_message Auth AUTH_RSAPUBLICKEY 0 (ssh_pub k)"

text \<open>What the host answers to a sequence of tokens: a signature, then the public key, in turn.\<close>

fun answers :: "'k rsa_lib \<Rightarrow> adb_key \<Rightarrow> message list \<Rightarrow> message list" where
  "answers R k [] = []"
| "answers R k [t] = [signature R k t]"
| "answers R k (t # t' # ts) = signature R k t # public_key k # answers R k ts"

definition can_sign :: "'k rsa_lib \<Rightarrow> adb_key \<Rightarrow> message \<Rightarrow> bool" where
  "can_sign R k m \<longleftrightarrow> (\<exists>sig. sign R k (payload m) = Ok sig \<and> length sig < 2 ^ 32)"

definition good_tokens :: "'k rsa_lib \<Rightarrow> adb_key \<Rightarrow> message list \<Rightarrow> bool" where
  "good_tokens R k ts \<longleftrightarrow> list_all (\<lambda>m. is_token m \<and> can_sign R k m) ts \<and> length (ssh_pub k) < 2 ^ 32"

lemma sign_answer:
  assumes "can_sign R k m"
  shows "sign R k (payload m) = Ok (payload (signature R k m))"
    and "new_message Auth AUTH_SIGNATURE 0 (payload (signature R k m)) = signature R k m"
    and "length (payload (signature R k m)) < 2 ^ 32"
  using assms by (auto simp: can_sign_def signature_def new_message_def)

text \<open>One round on a single token, and one on two.\<close>

lemma auth_round_one:
  assumes W: "takes_all W out" and t: "is_token t" "can_sign R k t" and m: "small m" "\<not> is_token m"
    and i: "rd_bytes i = wire (m # ms) @ rest"
  obtains w' where "auth_loop R W (Some k) (Suc left) t (i, w) =
      auth_loop R W (Some k) left m (i\<lparr>rd_bytes := wire ms @ rest\<rparr>, w')"
    "out w' = out w @ wire [signature R k t]"
proof -
  obtain w' where w: "write_message W (signature R k t) (i, w) = Returns (Ok (), i, w')"
    "out w' = out w @ wire [signature R k t]"
    by (rule write_message_takes [OF W sign_answer(3) [OF t(2)]])
  show thesis
    using t(1) m sign_answer(1,2) [OF t(2)] next_message_wire [OF m(1) i, of w'] w
    by (intro that [of w']) (auto simp: is_token_def and_then_def)
qed

lemma auth_round_two:
  assumes W: "takes_all W out" and t: "is_token t" "can_sign R k t" and t': "is_token t'"
    and pk: "length (ssh_pub k) < 2 ^ 32" and m: "small m"
    and i: "rd_bytes i = wire (t' # m # ms) @ rest"
  obtains w' where "auth_loop R W (Some k) (Suc left) t (i, w) =
      auth_loop R W (Some k) left m (i\<lparr>rd_bytes := wire ms @ rest\<rparr>, w')"
    "out w' = out w @ wire [signature R k t, public_key k]"
proof -
  let ?i = "i\<lparr>rd_bytes := wire (m # ms) @ rest\<rparr>"
  have small: "small t'" using t' by (simp add: is_token_def)
  have small_key: "length (payload (public_key k)) < 2 ^ 32" using pk by (simp add: public_key_def new_message_def)
  obtain w1 where w1: "write_message W (signature R k t) (i, w) = Returns (Ok (), i, w1)"
    "out w1 = out w @ wire [signature R k t]"
    by (rule write_message_takes [OF W sign_answer(3) [OF t(2)]])
  obtain w2 where w2: "write_message W (public_key k) (?i, w1) = Returns (Ok (), ?i, w2)"
    "out w2 = out w1 @ wire [public_key k]"
    by (rule write_message_takes [OF W small_key])
  have n: "next_message (i, w1) = Returns (Ok t', ?i, w1)"
    "next_message (?i, w2) = Returns (Ok m, i\<lparr>rd_bytes := wire ms @ rest\<rparr>, w2)"
    using next_message_wire [OF small i, of w1] next_message_wire [OF m, of ?i ms rest w2] by simp_all
  show thesis
    using t(1) t' sign_answer(1,2) [OF t(2)] n w1 w2
    by (intro that [of w2]) (simp_all add: is_token_def and_then_def flip: public_key_def)
qed

lemma good_tokens_simps [simp]:
  "good_tokens R k (t # ts) \<longleftrightarrow> is_token t \<and> can_sign R k t \<and> good_tokens R k ts"
  by (auto simp: good_tokens_def)

lemma good_tokens_key: "good_tokens R k ts \<Longrightarrow> length (ssh_pub k) < 2 ^ 32"
  by (simp add: good_tokens_def)

lemma auth_loop_done: "command c \<noteq> Auth \<Longrightarrow> auth_loop R W key left c st = Returns (Ok c, st)"
  by (cases left) (simp_all add: return_ok_def)

declare auth_loop.simps [simp del]

lemma auth_loop_accepts:
  assumes W: "takes_all W out" and "good_tokens R k ts" and c: "small c" "command c \<noteq> Auth"
    and "length ts \<le> 2 * left" and "ts @ [c] = m # ms" and "rd_bytes i = wire ms @ rest"
  shows "\<exists>w'. auth_loop R W (Some k) left m (i, w) = Returns (Ok c, i\<lparr>rd_bytes := rest\<rparr>, w')
      \<and> out w' = out w @ wire (answers R k ts)"
  using assms(2,5-)
proof (induction ts arbitrary: left m ms i w rule: answers.induct)
  case (1 R k)
  then show ?case using auth_loop_done [OF c(2), of R W "Some k" left "(i, w)"] by auto
next
  case (2 R k t)
  then obtain l where l: "left = Suc l" by (cases left) auto
  have tok: "is_token t" "can_sign R k t" and nt: "\<not> is_token c" using 2 c(2) by (auto simp: is_token_def)
  have i: "rd_bytes i = wire [c] @ rest" using 2 by simp
  obtain w' where "auth_loop R W (Some k) (Suc l) t (i, w) = auth_loop R W (Some k) l c (i\<lparr>rd_bytes := wire [] @ rest\<rparr>, w')"
    "out w' = out w @ wire [signature R k t]"
    using auth_round_one [OF W tok c(1) nt, of i "[]" rest] i by (metis append_Cons append_Nil)
  then show ?case using 2 l auth_loop_done [OF c(2), of R W "Some k" l] by auto
next
  case (3 R k t t' ts)
  then obtain l where l: "left = Suc l" "length ts \<le> 2 * l" by (cases left) auto
  obtain m' ms' where m': "ts @ [c] = m' # ms'" by (cases ts) auto
  have m: "m = t" "ms = t' # m' # ms'" using 3 m' by auto
  have sm: "small m'" using m' 3(2) c(1) by (cases ts) (auto simp: is_token_def)
  obtain w' where w': "auth_loop R W (Some k) (Suc l) t (i, w) =
      auth_loop R W (Some k) l m' (i\<lparr>rd_bytes := wire ms' @ rest\<rparr>, w')"
    "out w' = out w @ wire [signature R k t, public_key k]"
    using auth_round_two [OF W _ _ _ good_tokens_key sm] 3(2,5) m by (metis good_tokens_simps)
  have "\<exists>w''. auth_loop R W (Some k) l m' (i\<lparr>rd_bytes := wire ms' @ rest\<rparr>, w') =
      Returns (Ok c, (i\<lparr>rd_bytes := wire ms' @ rest\<rparr>)\<lparr>rd_bytes := rest\<rparr>, w'')
      \<and> out w'' = out w' @ wire (answers R k ts)"
    using 3(2) l m' by (intro 3(1)) simp_all
  then show ?case using w' l m by auto
qed

lemma auth_loop_refuses:
  assumes W: "takes_all W out" and "good_tokens R k ts"
    and "length ts > 2 * left" and "ts = m # ms" and "rd_bytes i = wire ms @ rest"
  shows "\<exists>i' w'. auth_loop R W (Some k) left m (i, w) = Returns (Err Unauthorized, i', w')
      \<and> out w' = out w @ wire (answers R k (take (2 * left) ts))"
  using assms(2-)
proof (induction left arbitrary: ts m ms i w)
  case 0
  then show ?case by (auto simp: auth_loop.simps fail_with_def is_token_def)
next
  case (Suc l)
  then obtain t' m' ms' where ms: "ms = t' # m' # ms'" by (cases ms; cases "tl ms") auto
  have tok: "is_token m" "can_sign R k m" "is_token t'" "good_tokens R k (m' # ms')"
    using Suc.prems ms by simp_all
  have sm: "small m'" using tok(4) by (simp add: is_token_def)
  obtain w' where w': "auth_loop R W (Some k) (Suc l) m (i, w) =
      auth_loop R W (Some k) l m' (i\<lparr>rd_bytes := wire ms' @ rest\<rparr>, w')"
    "out w' = out w @ wire [signature R k m, public_key k]"
    using auth_round_two [OF W tok(1-3) good_tokens_key [OF tok(4)] sm] Suc.prems(4) ms by metis
  have "\<exists>i' w''. auth_loop R W (Some k) l m' (i\<lparr>rd_bytes := wire ms' @ rest\<rparr>, w') =
      Returns (Err Unauthorized, i', w'') \<and> out w'' = out w' @ wire (answers R k (take (2 * l) (m' # ms')))"
    using Suc.prems ms tok(4) by (intro Suc.IH) simp_all
  then show ?case using w' Suc.prems(3) ms by auto
qed

text \<open>
  The whole handshake with a device that sends the tokens \<open>ts\<close> and then \<open>c\<close>: it is connected
  when there are at most six tokens, with what follows still unread, and refused otherwise.
\<close>

lemma handshake_outcome:
  assumes W: "takes_all W out" and ts: "good_tokens R k ts" and c: "small c" "command c = Connect"
    and banner: "length serial + length version < 1000" and i: "rd_bytes i = wire (ts @ [c]) @ rest"
  shows "\<exists>i' w'. open_inner R W version serial (Some k) (i, w) =
        Returns (if length ts \<le> 6 then Ok () else Err Unauthorized, i', w')
      \<and> (length ts \<le> 6 \<longrightarrow> i' = i\<lparr>rd_bytes := rest\<rparr>)
      \<and> out w' = out w @ wire (connect_message version serial # answers R k (take 6 ts))"
proof -
  obtain m ms where m: "ts @ [c] = m # ms" by (cases ts) auto
  have sm: "small m" using m ts c(1) by (cases ts) (auto simp: is_token_def)
  have nc: "command c \<noteq> Auth" using c(2) by simp
  have "length (payload (connect_message version serial)) < 2 ^ 32"
    using banner by (simp add: connect_message_def new_message_def)
  then obtain w1 where w1: "write_message W (connect_message version serial) (i, w) = Returns (Ok (), i, w1)"
    "out w1 = out w @ wire [connect_message version serial]"
    by (rule write_message_takes [OF W])
  have i': "rd_bytes i = wire (m # ms) @ rest" using i m by simp
  let ?i = "i\<lparr>rd_bytes := wire ms @ rest\<rparr>"
  have n: "next_message (i, w1) = Returns (Ok m, ?i, w1)" by (rule next_message_wire [OF sm i'])
  show ?thesis
  proof (cases "length ts \<le> 6")
    case True
    then have "length ts \<le> 2 * 3" by simp
    then obtain w2 where "auth_loop R W (Some k) 3 m (?i, w1) = Returns (Ok c, ?i\<lparr>rd_bytes := rest\<rparr>, w2)"
      "out w2 = out w1 @ wire (answers R k ts)"
      using auth_loop_accepts [OF W ts c(1) nc _ m, of 3 ?i rest w1] by auto
    then show ?thesis
      using w1 n c(2) True by (auto simp: open_inner_def and_then_def MAX_AUTH_ATTEMPTS_def return_ok_def)
  next
    case False
    then obtain ms' where ts': "ts = m # ms'" "ms = ms' @ [c]" using m by (cases ts) auto
    have "2 * 3 < length ts" using False by simp
    from auth_loop_refuses [OF W ts this ts'(1), of ?i "wire [c] @ rest" w1] ts'(2)
    obtain i2 w2 where "auth_loop R W (Some k) 3 m (?i, w1) = Returns (Err Unauthorized, i2, w2)"
      "out w2 = out w1 @ wire (answers R k (take 6 ts))"
      by auto
    then show ?thesis
      using w1 n False by (auto simp: open_inner_def and_then_def MAX_AUTH_ATTEMPTS_def)
  qed
qed

section \<open>Polled byte streams\<close>

text \<open>
  \<open>poll_read\<close> with room for \<open>n\<close> bytes: not ready, or the bytes put into the buffer. No bytes
  into a buffer with room mean the end of the stream.
\<close>

datatype poll = Pending | Ready bytes

text \<open>
  The contract of a reader over a queue of chunks: every poll hands over a prefix of what is
  unread, at most as much as there is room for, and the end is reported only when nothing is
  left. Reading on therefore gives the bytes in order, none lost and none twice.
\<close>

locale byte_source =
  fixes poll_read :: "nat \<Rightarrow> 's \<Rightarrow> poll \<times> 's" and unread :: "'s \<Rightarrow> bytes" and wf :: "'s \<Rightarrow> bool"
  assumes poll_prefix: "poll_read n s = (Ready b, s') \<Longrightarrow> unread s = b @ unread s' \<and> length b \<le> n"
    and poll_pending: "poll_read n s = (Pending, s') \<Longrightarrow> unread s' = unread s \<and> (wf s \<longrightarrow> unread s = [])"
    and poll_wf: "poll_read n s = (r, s') \<Longrightarrow> wf s \<Longrightarrow> wf s'"
    and poll_end: "poll_read n s = (Ready [], s') \<Longrightarrow> 0 < n \<Longrightarrow> wf s \<Longrightarrow> unread s = []"
begin

fun read_all :: "nat list \<Rightarrow> 's \<Rightarrow> bytes \<times> 's" where
  "read_all [] s = ([], s)"
| "read_all (n # ns) s =
     (case poll_read n s of
        (Pending, s) \<Rightarrow> ([], s)
      | (Ready b, s) \<Rightarrow> (let (bs, s) = read_all ns s in (b @ bs, s)))"

lemma read_all_prefix: "read_all ns s = (bs, s') \<Longrightarrow> unread s = bs @ unread s'"
proof (induction ns arbitrary: s bs s')
  case (Cons n ns)
  obtain r s1 where p: "poll_read n s = (r, s1)" by (cases "poll_read n s")
  show ?case
  proof (cases r)
    case Pending
    with Cons.prems p poll_pending [of n s s1] show ?thesis by simp
  next
    case (Ready b)
    obtain cs s2 where r: "read_all ns s1 = (cs, s2)" by (cases "read_all ns s1")
    have "bs = b @ cs" "s2 = s'" using Cons.prems p Ready r by auto
    with Cons.IH [OF r] poll_prefix [of n s b s1] p Ready show ?thesis by simp
  qed
qed simp

lemma poll_progress:
  assumes "wf s" "0 < n" "unread s \<noteq> []"
  obtains b s' where "poll_read n s = (Ready b, s')" "b \<noteq> []" "wf s'"
proof -
  obtain r s' where p: "poll_read n s = (r, s')" by (cases "poll_read n s")
  show thesis
  proof (cases r)
    case Pending
    with p poll_pending assms show ?thesis by blast
  next
    case (Ready b)
    with p poll_end assms poll_wf [OF p assms(1)] show ?thesis by (cases b) (auto intro: that)
  qed
qed

text \<open>Enough polls with room read everything.\<close>

lemma read_all_complete:
  assumes "wf s" "\<And>n. n \<in> set ns \<Longrightarrow> 0 < n" "length (unread s) \<le> length ns"
  shows "fst (read_all ns s) = unread s"
  using assms
proof (induction ns arbitrary: s)
  case (Cons n ns)
  show ?case
  proof (cases "unread s = []")
    case True
    obtain bs s' where "read_all (n # ns) s = (bs, s')" by (cases "read_all (n # ns) s")
    from read_all_prefix [OF this] True this show ?thesis by simp
  next
    case False
    obtain b s1 where p: "poll_read n s = (Ready b, s1)" "b \<noteq> []" "wf s1"
      using poll_progress [OF Cons.prems(1) _ False] Cons.prems(2) by (metis list.set_intros(1))
    have u: "unread s = b @ unread s1" using poll_prefix [OF p(1)] by simp
    then have "length (unread s1) \<le> length ns" using Cons.prems(3) p(2) by (cases b) auto
    then have "fst (read_all ns s1) = unread s1" using Cons.IH [OF p(3)] Cons.prems(2) by simp
    with p u show ?thesis by (simp add: case_prod_beta)
  qed
qed simp

end

section \<open>The USB pump\<close>

record channel_reader =
  cr_rx :: "bytes list"
  cr_sender :: bool
  cr_pending :: "bytes option"

definition serve_chunk :: "nat \<Rightarrow> bytes \<Rightarrow> channel_reader \<Rightarrow> poll \<times> channel_reader" where
  "serve_chunk n chunk r =
     (let take_n = min (length chunk) n
      in (Ready (take take_n chunk),
          if take_n < length chunk then r\<lparr>cr_pending := Some (drop take_n chunk)\<rparr> else r))"

definition channel_poll_read :: "nat \<Rightarrow> channel_reader \<Rightarrow> poll \<times> channel_reader" where
  "channel_poll_read n r =
     (if n > 0
      then case cr_pending r of
             Some p \<Rightarrow> serve_chunk n p (r\<lparr>cr_pending := None\<rparr>)
           | None \<Rightarrow>
               (case cr_rx r of
                  chunk # rest \<Rightarrow> serve_chunk n chunk (r\<lparr>cr_rx := rest\<rparr>)
                | [] \<Rightarrow> if cr_sender r then (Pending, r) else (Ready [], r))
      else (Ready [], r))"

definition channel_unread :: "channel_reader \<Rightarrow> bytes" where
  "channel_unread r = (case cr_pending r of Some p \<Rightarrow> p | None \<Rightarrow> []) @ concat (cr_rx r)"

definition channel_wf :: "channel_reader \<Rightarrow> bool" where
  "channel_wf r \<longleftrightarrow> cr_pending r \<noteq> Some [] \<and> [] \<notin> set (cr_rx r)"

interpretation chan: byte_source channel_poll_read channel_unread channel_wf
proof
  show "channel_poll_read n s = (Ready b, s') \<Longrightarrow> channel_unread s = b @ channel_unread s' \<and> length b \<le> n" for n s b s'
    by (auto simp: channel_poll_read_def serve_chunk_def channel_unread_def Let_def min_def
        split: option.splits list.splits if_splits)
  show "channel_poll_read n s = (Pending, s') \<Longrightarrow> channel_unread s' = channel_unread s \<and> (channel_wf s \<longrightarrow> channel_unread s = [])" for n s s'
    by (auto simp: channel_poll_read_def serve_chunk_def channel_unread_def Let_def
        split: option.splits list.splits if_splits)
  show "channel_poll_read n s = (r, s') \<Longrightarrow> channel_wf s \<Longrightarrow> channel_wf s'" for n s r s'
    by (auto simp: channel_poll_read_def serve_chunk_def channel_wf_def Let_def min_def
        split: option.splits list.splits if_splits)
  show "channel_poll_read n s = (Ready [], s') \<Longrightarrow> 0 < n \<Longrightarrow> channel_wf s \<Longrightarrow> channel_unread s = []" for n s s'
    by (auto simp: channel_poll_read_def serve_chunk_def channel_wf_def channel_unread_def Let_def min_def
        split: option.splits list.splits if_splits)
qed

text \<open>The channel to the pump thread holds 256 chunks.\<close>

definition CHANNEL_CAPACITY :: nat where "CHANNEL_CAPACITY = 256"

record channel_writer =
  cw_tx :: "bytes list"
  cw_receiver :: bool

datatype poll_write = Write_Pending | Wrote nat | Broken_Pipe string

definition channel_poll_write :: "bytes \<Rightarrow> channel_writer \<Rightarrow> poll_write \<times> channel_writer" where
  "channel_poll_write buf c =
     (if \<not> cw_receiver c then (Broken_Pipe ''usb pump closed'', c)
      else if length (cw_tx c) \<ge> CHANNEL_CAPACITY then (Write_Pending, c)
      else (Wrote (length buf), c\<lparr>cw_tx := cw_tx c @ [buf]\<rparr>))"

text \<open>
  libusb: \<open>write_bulk\<close> accepts a prefix of what it is given and says how much, \<open>read_bulk\<close> gives
  what arrived, a timeout, or an error.
\<close>

datatype bulk_read = Got_bulk bytes | Bulk_timeout | Bulk_error

record 'u usb =
  write_bulk :: "bytes \<Rightarrow> 'u \<Rightarrow> nat option \<times> 'u"
  read_bulk :: "nat \<Rightarrow> 'u \<Rightarrow> bulk_read \<times> 'u"

text \<open>The inner loop: write the rest of the chunk until all is written; \<open>False\<close> leaves the pump.\<close>

function pump_write :: "'u usb \<Rightarrow> bytes \<Rightarrow> nat \<Rightarrow> 'u \<Rightarrow> bool \<times> 'u" where
  "pump_write U chunk written u =
     (if written < length chunk
      then case write_bulk U (drop written chunk) u of
             (None, u) \<Rightarrow> (False, u)
           | (Some n, u) \<Rightarrow> if n = 0 then (False, u) else pump_write U chunk (written + n) u
      else (True, u))"
  by pat_completeness auto
termination by (relation "measure (\<lambda>(U, chunk, written, u). length chunk - written)") auto

declare pump_write.simps [simp del]

record 'u pump =
  from_app :: "bytes list"
  from_app_open :: bool
  to_app :: "bytes list"
  to_app_open :: bool
  device :: 'u

text \<open>Draining the outgoing chunks; \<open>False\<close> leaves the pump.\<close>

fun pump_drain :: "'u usb \<Rightarrow> bool \<Rightarrow> bytes list \<Rightarrow> 'u \<Rightarrow> bool \<times> bytes list \<times> 'u" where
  "pump_drain U is_open [] u = (is_open, [], u)"
| "pump_drain U is_open (chunk # rest) u =
     (case pump_write U chunk 0 u of
        (False, u) \<Rightarrow> (False, rest, u)
      | (True, u) \<Rightarrow> pump_drain U is_open rest u)"

definition pump_step :: "'u usb \<Rightarrow> 'u pump \<Rightarrow> bool \<times> 'u pump" where
  "pump_step U p =
     (let (go, rest, u) = pump_drain U (from_app_open p) (from_app p) (device p);
          p = p\<lparr>from_app := rest, device := u\<rparr>
      in if \<not> go then (False, p)
         else case read_bulk U (64 * 1024) u of
                (Got_bulk b, u) \<Rightarrow>
                  if b = [] then (True, p\<lparr>device := u\<rparr>)
                  else if to_app_open p then (True, p\<lparr>device := u, to_app := to_app p @ [b]\<rparr>)
                  else (False, p\<lparr>device := u\<rparr>)
              | (Bulk_timeout, u) \<Rightarrow> (True, p\<lparr>device := u\<rparr>)
              | (Bulk_error, u) \<Rightarrow> (False, p\<lparr>device := u\<rparr>))"

text \<open>
  A device whose \<open>write_bulk\<close> takes at most what it is given; \<open>sent\<close> is what it has taken. A
  chunk the pump finishes with is sent whole, however often the device takes only a part.
\<close>

definition honest_usb :: "'u usb \<Rightarrow> ('u \<Rightarrow> bytes) \<Rightarrow> bool" where
  "honest_usb U sent \<longleftrightarrow>
     (\<forall>b u u' n. write_bulk U b u = (Some n, u') \<longrightarrow> n \<le> length b \<and> sent u' = sent u @ take n b)
     \<and> (\<forall>n u. sent (snd (read_bulk U n u)) = sent u)"

lemma pump_write_sends:
  "pump_write U chunk written u = (True, u') \<Longrightarrow> honest_usb U sent \<Longrightarrow> written \<le> length chunk \<Longrightarrow>
   sent u' = sent u @ drop written chunk"
proof (induction U chunk written u rule: pump_write.induct)
  case (1 U chunk written u)
  show ?case
  proof (cases "written < length chunk")
    case True
    obtain r u1 where w: "write_bulk U (drop written chunk) u = (r, u1)"
      by (cases "write_bulk U (drop written chunk) u")
    have run: "pump_write U chunk written u =
        (case r of None \<Rightarrow> (False, u1) | Some n \<Rightarrow> if n = 0 then (False, u1) else pump_write U chunk (written + n) u1)"
      using True w by (subst pump_write.simps) simp
    then obtain n where r: "r = Some n" "n \<noteq> 0" and go: "pump_write U chunk (written + n) u1 = (True, u')"
      using "1.prems"(1) by (cases r) (auto split: if_splits)
    have n: "n \<le> length chunk - written" "sent u1 = sent u @ take n (drop written chunk)"
      using "1.prems"(2) w r(1) unfolding honest_usb_def by (metis length_drop)+
    have "sent u' = sent u1 @ drop (written + n) chunk"
      by (rule "1.IH" [OF True w [symmetric] r go "1.prems"(2)]) (use n True in simp)
    also have "drop (written + n) chunk = drop n (drop written chunk)" by (simp add: add.commute)
    finally show ?thesis unfolding n(2) append_assoc append_take_drop_id .
  next
    case False
    with "1.prems"(1,3) show ?thesis by (subst (asm) pump_write.simps) simp
  qed
qed

lemma pump_drain_sends:
  "honest_usb U sent \<Longrightarrow> pump_drain U is_open chunks u = (True, rest, u') \<Longrightarrow>
   rest = [] \<and> sent u' = sent u @ concat chunks"
proof (induction chunks arbitrary: u)
  case (Cons chunk chunks)
  obtain go u1 where w: "pump_write U chunk 0 u = (go, u1)" by (cases "pump_write U chunk 0 u")
  then have "go" and "pump_drain U is_open chunks u1 = (True, rest, u')"
    using Cons.prems(2) by (auto split: bool.splits)
  with Cons pump_write_sends [of U chunk 0 u u1 sent] w show ?case by simp
qed simp

lemma pump_step_sends:
  assumes "honest_usb U sent" and "pump_step U p = (True, p')"
  shows "from_app p' = [] \<and> sent (device p') = sent (device p) @ concat (from_app p)"
    and "[] \<notin> set (to_app p) \<Longrightarrow> [] \<notin> set (to_app p')"
proof -
  obtain go rest u where d: "pump_drain U (from_app_open p) (from_app p) (device p) = (go, rest, u)"
    by (metis prod_cases3)
  obtain r u1 where r: "read_bulk U 65536 u = (r, u1)" by (cases "read_bulk U 65536 u")
  have go: "go" using assms(2) d by (cases go) (simp_all add: pump_step_def Let_def)
  have "sent u1 = sent u" using assms(1) r by (simp add: honest_usb_def) (metis snd_conv)
  moreover have "rest = [] \<and> sent u = sent (device p) @ concat (from_app p)"
    using pump_drain_sends [OF assms(1)] d go by simp
  moreover have p': "from_app p' = rest \<and> device p' = u1 \<and> (to_app p' = to_app p \<or> (\<exists>b. b \<noteq> [] \<and> to_app p' = to_app p @ [b]))"
    using assms(2) d go r by (cases r) (auto simp: pump_step_def Let_def split: if_splits)
  ultimately show "from_app p' = [] \<and> sent (device p') = sent (device p) @ concat (from_app p)" by simp
  show "[] \<notin> set (to_app p) \<Longrightarrow> [] \<notin> set (to_app p')" using p' by auto
qed

end
