(* ===== verification/Adb_Connection.thy ===== *)
theory Adb_Connection
  imports Adb_Transport "HOL-Library.AList"
begin

text \<open>
  The multiplexed ADB connection (\<open>adb-device/src/connection.rs\<close>). The reader task, the writer
  task, the callers of \<open>open_stream\<close> and the streams share the record \<open>mux\<close>: the two maps by local
  id, the write queue, and the channels they point to. Channels and one-shot channels have
  numbers of their own, since a map entry and a \<open>Stream\<close> share one. An \<open>await\<close> splits the code
  into steps; \<open>mux_step\<close> is their interleaving. A channel send that finds no room waits.
\<close>

section \<open>Streams\<close>

text \<open>The receiving half of a stream: the data channel and the bytes kept from a chunk.\<close>

record stream_rx =
  sr_queue :: "bytes list"
  sr_sender :: bool
  sr_incoming :: "bytes option"

definition keep_rest :: "nat \<Rightarrow> bytes \<Rightarrow> stream_rx \<Rightarrow> stream_rx" where
  "keep_rest n chunk r = (if n < length chunk then r\<lparr>sr_incoming := Some (drop n chunk)\<rparr> else r)"

definition poll_recv_chunk :: "nat \<Rightarrow> stream_rx \<Rightarrow> poll \<times> stream_rx" where
  "poll_recv_chunk room r =
     (case sr_queue r of
        chunk # rest \<Rightarrow>
          (let n = min (length chunk) room
           in (Ready (take n chunk), keep_rest n chunk (r\<lparr>sr_queue := rest\<rparr>)))
      | [] \<Rightarrow> if sr_sender r then (Pending, r) else (Ready [], r))"

definition stream_poll_read :: "nat \<Rightarrow> stream_rx \<Rightarrow> poll \<times> stream_rx" where
  "stream_poll_read room r =
     (if room = 0 then (Ready [], r)
      else let pending = sr_incoming r;
               r = r\<lparr>sr_incoming := None\<rparr>
           in case pending of
                Some p \<Rightarrow>
                  (let n = min (length p) room;
                       r = keep_rest n p r
                   in if n > 0 then (Ready (take n p), r) else poll_recv_chunk room r)
              | None \<Rightarrow> poll_recv_chunk room r)"

definition stream_unread :: "stream_rx \<Rightarrow> bytes" where
  "stream_unread r = (case sr_incoming r of Some p \<Rightarrow> p | None \<Rightarrow> []) @ concat (sr_queue r)"

definition stream_wf :: "stream_rx \<Rightarrow> bool" where
  "stream_wf r \<longleftrightarrow> sr_incoming r \<noteq> Some [] \<and> [] \<notin> set (sr_queue r)"

interpretation st: byte_source stream_poll_read stream_unread stream_wf
proof
  show "stream_poll_read n s = (Ready b, s') \<Longrightarrow> stream_unread s = b @ stream_unread s' \<and> length b \<le> n" for n s b s'
    by (auto simp: stream_poll_read_def poll_recv_chunk_def keep_rest_def stream_unread_def Let_def min_def
        split: option.splits list.splits if_splits)
  show "stream_poll_read n s = (Pending, s') \<Longrightarrow> stream_unread s' = stream_unread s \<and> (stream_wf s \<longrightarrow> stream_unread s = [])" for n s s'
    by (auto simp: stream_poll_read_def poll_recv_chunk_def keep_rest_def stream_unread_def Let_def min_def
        split: option.splits list.splits if_splits)
  show "stream_poll_read n s = (r, s') \<Longrightarrow> stream_wf s \<Longrightarrow> stream_wf s'" for n s r s'
    by (auto simp: stream_poll_read_def poll_recv_chunk_def keep_rest_def stream_wf_def Let_def min_def
        split: option.splits list.splits if_splits)
  show "stream_poll_read n s = (Ready [], s') \<Longrightarrow> 0 < n \<Longrightarrow> stream_wf s \<Longrightarrow> stream_unread s = []" for n s s'
    by (auto simp: stream_poll_read_def poll_recv_chunk_def keep_rest_def stream_wf_def stream_unread_def Let_def min_def
        split: option.splits list.splits if_splits)
qed

section \<open>The state\<close>

definition DATA_CAPACITY :: nat where "DATA_CAPACITY = 256"
definition WRITE_CAPACITY :: nat where "WRITE_CAPACITY = 2048"

datatype write_req = Frame_req message | Data_req u32 u32 bytes

text \<open>Where the reader task is: reading, sending to a stream, queueing an answer, or gone.\<close>

datatype reader_pc =
    R_read
  | R_deliver u32 u32 nat bytes
  | R_reply message
  | R_stopped

text \<open>Where a call of \<open>open_stream\<close> is, and after it the stream it returned.\<close>

datatype call_pc =
    O_send string
  | O_wait
  | O_failed adb_error
  | O_open u32 u32
  | O_closing u32 u32
  | O_clse u32 u32
  | O_closed

record call =
  c_local :: u32
  c_reply :: "(adb_error + u32 \<times> u32) option"
  c_queue :: "bytes list"
  c_incoming :: "bytes option"
  c_receiver :: bool
  c_pc :: call_pc

text \<open>The maps send a local id to the index of the call whose channels it has.\<close>

record mux =
  next_local :: u32
  streams :: "(u32 \<times> nat) list"
  pending_opens :: "(u32 \<times> nat) list"
  calls :: "call list"
  write_queue :: "write_req list"
  written :: "message list"
  writer_alive :: bool
  reader :: reader_pc
  inp :: input
  dropped :: bool

definition upd_call :: "nat \<Rightarrow> (call \<Rightarrow> call) \<Rightarrow> mux \<Rightarrow> mux" where
  "upd_call k f st = st\<lparr>calls := (calls st)[k := f (calls st ! k)]\<rparr>"

definition from_parts :: "input \<Rightarrow> mux" where
  "from_parts i =
     \<lparr>next_local = 1, streams = [], pending_opens = [], calls = [], write_queue = [], written = [],
      writer_alive = True, reader = R_read, inp = i, dropped = False\<rparr>"

section \<open>The reader task\<close>

datatype frame_read = Fr_wait | Fr_stop | Fr_skip input | Fr_msg message input

definition read_frame :: "input \<Rightarrow> frame_read" where
  "read_frame i =
     (case read_exact HEADER_LEN i of
        Returns (Inr header, i) \<Rightarrow>
          (let len = unat (from_le32 (slice 12 16 header))
           in if len > MAX_PAYLOAD then Fr_stop
              else case read_exact len i of
                     Returns (Inr p, i) \<Rightarrow> (case decode header p of Inl _ \<Rightarrow> Fr_skip i | Inr m \<Rightarrow> Fr_msg m i)
                   | Returns (Inl _, i) \<Rightarrow> Fr_stop
                   | _ \<Rightarrow> Fr_wait)
      | Returns (Inl _, i) \<Rightarrow> Fr_stop
      | _ \<Rightarrow> Fr_wait)"

definition resolve :: "u32 \<Rightarrow> adb_error + u32 \<times> u32 \<Rightarrow> mux \<Rightarrow> mux" where
  "resolve local v st =
     (case map_of (pending_opens st) local of
        None \<Rightarrow> st
      | Some k \<Rightarrow> upd_call k (\<lambda>c. c\<lparr>c_reply := Some v\<rparr>) (st\<lparr>pending_opens := AList.delete local (pending_opens st)\<rparr>))"

definition fail_reason :: "bytes \<Rightarrow> string" where
  "fail_reason p =
     (if length p > 4
      then (let n = unat (from_le32 (take 4 p)); e = min (4 + n) (length p)
            in from_utf8_lossy (slice 4 e p))
      else '''')"

definition on_message :: "message \<Rightarrow> mux \<Rightarrow> mux" where
  "on_message m st =
     (let local = arg1 m; remote = arg0 m
      in case command m of
           Okay \<Rightarrow> resolve local (Ok (local, remote)) st
         | Fail \<Rightarrow>
             (let reason = fail_reason (payload m)
              in resolve local (Err (Protocol
                   (if reason = '''' then ''device refused the request (stream '' @ show_nat (unat local)
                        @ ''/'' @ show_nat (unat remote) @ '')''
                    else ''device refused the request: '' @ reason))) st)
         | Close \<Rightarrow>
             (let st = resolve local (Err (InvalidResponse ''CLSE on OPEN'')) st
              in st\<lparr>streams := AList.delete local (streams st)\<rparr>)
         | Write \<Rightarrow>
             (case map_of (streams st) local of
                None \<Rightarrow> st
              | Some k \<Rightarrow> st\<lparr>reader := R_deliver local remote k (payload m)\<rparr>)
         | _ \<Rightarrow> st)"

text \<open>Leaving the loop: every pending open learns of it.\<close>

fun fail_all :: "(u32 \<times> nat) list \<Rightarrow> mux \<Rightarrow> mux" where
  "fail_all [] st = st"
| "fail_all ((l, k) # ps) st = fail_all ps (upd_call k (\<lambda>c. c\<lparr>c_reply := Some (Err Disconnected)\<rparr>) st)"

definition reader_exit :: "mux \<Rightarrow> mux" where
  "reader_exit st = (fail_all (pending_opens st) st)\<lparr>pending_opens := [], reader := R_stopped\<rparr>"

definition reader_deliver :: "u32 \<Rightarrow> u32 \<Rightarrow> nat \<Rightarrow> bytes \<Rightarrow> mux \<Rightarrow> mux option" where
  "reader_deliver local remote k p st =
     (if \<not> c_receiver (calls st ! k)
      then Some (st\<lparr>streams := AList.delete local (streams st),
                    reader := R_reply (new_message Close local remote [])\<rparr>)
      else if length (c_queue (calls st ! k)) < DATA_CAPACITY
      then Some ((upd_call k (\<lambda>c. c\<lparr>c_queue := c_queue c @ [p]\<rparr>) st)
                   \<lparr>reader := R_reply (new_message Okay local remote [])\<rparr>)
      else None)"

definition reader_reply :: "message \<Rightarrow> mux \<Rightarrow> mux option" where
  "reader_reply m st =
     (if \<not> writer_alive st then Some (reader_exit st)
      else if length (write_queue st) < WRITE_CAPACITY
      then Some (st\<lparr>write_queue := write_queue st @ [Frame_req m], reader := R_read\<rparr>)
      else None)"

section \<open>The writer task\<close>

definition frame_of :: "write_req \<Rightarrow> message" where
  "frame_of r =
     (case r of Frame_req m \<Rightarrow> m | Data_req local remote p \<Rightarrow> new_message Write local remote p)"

definition writer_take :: "mux \<Rightarrow> (message \<times> mux) option" where
  "writer_take st =
     (case write_queue st of
        [] \<Rightarrow> None
      | r # rest \<Rightarrow> Some (frame_of r, st\<lparr>write_queue := rest\<rparr>))"

definition writer_exit :: "mux \<Rightarrow> mux" where
  "writer_exit st = st\<lparr>writer_alive := False, streams := []\<rparr>"

section \<open>Opening, using and closing a stream\<close>

definition abort_open :: "u32 \<Rightarrow> mux \<Rightarrow> mux" where
  "abort_open local st =
     st\<lparr>pending_opens := AList.delete local (pending_opens st), streams := AList.delete local (streams st)\<rparr>"

definition open_begin :: "string \<Rightarrow> mux \<Rightarrow> mux" where
  "open_begin dest st =
     (let local = next_local st + 1; k = length (calls st)
      in st\<lparr>next_local := local,
            streams := AList.update local k (streams st),
            pending_opens := AList.update local k (pending_opens st),
            calls := calls st @ [\<lparr>c_local = local, c_reply = None, c_queue = [], c_incoming = None,
                                  c_receiver = True, c_pc = O_send dest\<rparr>]\<rparr>)"

definition set_pc :: "call_pc \<Rightarrow> call \<Rightarrow> call" where
  "set_pc pc c = c\<lparr>c_pc := pc\<rparr>"

text \<open>An open that fails drops the receiving half of its data channel.\<close>

definition open_fail :: "nat \<Rightarrow> adb_error \<Rightarrow> mux \<Rightarrow> mux" where
  "open_fail k e st =
     upd_call k (\<lambda>c. c\<lparr>c_receiver := False, c_pc := O_failed e\<rparr>) (abort_open (c_local (calls st ! k)) st)"

definition open_send :: "nat \<Rightarrow> string \<Rightarrow> mux \<Rightarrow> mux option" where
  "open_send k dest st =
     (if \<not> writer_alive st then Some (open_fail k Disconnected st)
      else if length (write_queue st) < WRITE_CAPACITY
      then Some ((upd_call k (set_pc O_wait) st)
             \<lparr>write_queue := write_queue st
                @ [Frame_req (new_message Open (c_local (calls st ! k)) 0 (as_bytes dest @ [0]))]\<rparr>)
      else None)"

text \<open>The reply, if there is one; with none left to come the call fails at once, otherwise at its deadline.\<close>

definition open_finish :: "nat \<Rightarrow> mux \<Rightarrow> mux" where
  "open_finish k st =
     (case c_reply (calls st ! k) of
        Some (Inr (local, remote)) \<Rightarrow> upd_call k (set_pc (O_open local remote)) st
      | Some (Inl e) \<Rightarrow> open_fail k e st
      | None \<Rightarrow>
          if k \<in> snd ` set (pending_opens st) then open_fail k Timeout st else open_fail k Disconnected st)"

definition rx_of :: "nat \<Rightarrow> mux \<Rightarrow> stream_rx" where
  "rx_of k st =
     \<lparr>sr_queue = c_queue (calls st ! k),
      sr_sender = (k \<in> snd ` set (streams st)
        \<or> (case reader st of R_deliver l r k' p \<Rightarrow> k' = k | _ \<Rightarrow> False)),
      sr_incoming = c_incoming (calls st ! k)\<rparr>"

definition stream_read :: "nat \<Rightarrow> nat \<Rightarrow> mux \<Rightarrow> poll \<times> mux" where
  "stream_read k room st =
     (case stream_poll_read room (rx_of k st) of
        (r, rx) \<Rightarrow> (r, upd_call k (\<lambda>c. c\<lparr>c_queue := sr_queue rx, c_incoming := sr_incoming rx\<rparr>) st))"

definition stream_poll_write :: "u32 \<Rightarrow> u32 \<Rightarrow> bytes \<Rightarrow> mux \<Rightarrow> poll_write \<times> mux" where
  "stream_poll_write local remote buf st =
     (if \<not> writer_alive st then (Broken_Pipe ''connection writer closed'', st)
      else if length (write_queue st) < WRITE_CAPACITY
      then (let n = min (length buf) MAX_PAYLOAD
            in (Wrote n, st\<lparr>write_queue := write_queue st @ [Data_req local remote (take n buf)]\<rparr>))
      else (Write_Pending, st))"

text \<open>The task that closes a stream: the map entry goes, then the CLSE frame is queued.\<close>

definition close_remove :: "nat \<Rightarrow> u32 \<Rightarrow> u32 \<Rightarrow> mux \<Rightarrow> mux" where
  "close_remove k local remote st =
     upd_call k (set_pc (O_clse local remote)) (st\<lparr>streams := AList.delete local (streams st)\<rparr>)"

definition close_send :: "nat \<Rightarrow> u32 \<Rightarrow> u32 \<Rightarrow> mux \<Rightarrow> mux option" where
  "close_send k local remote st =
     (if \<not> writer_alive st then Some (upd_call k (set_pc O_closed) st)
      else if length (write_queue st) < WRITE_CAPACITY
      then Some ((upd_call k (set_pc O_closed) st)
             \<lparr>write_queue := write_queue st @ [Frame_req (new_message Close local remote [])]\<rparr>)
      else None)"

section \<open>Interleaving\<close>

datatype event =
    Ev_internal
  | Ev_frame message
  | Ev_deliver u32 u32 nat bytes
  | Ev_read nat bytes
  | Ev_write nat bytes
  | Ev_stop

text \<open>The ids of a stream that has been returned.\<close>

fun stream_ids :: "call_pc \<Rightarrow> (u32 \<times> u32) option" where
  "stream_ids (O_open l r) = Some (l, r)"
| "stream_ids (O_closing l r) = Some (l, r)"
| "stream_ids (O_clse l r) = Some (l, r)"
| "stream_ids _ = None"

definition drop_stream :: "call \<Rightarrow> call" where
  "drop_stream c =
     c\<lparr>c_receiver := False, c_pc := (case c_pc c of O_open l r \<Rightarrow> O_closing l r | pc \<Rightarrow> pc)\<rparr>"

inductive mux_step :: "mux \<Rightarrow> event \<Rightarrow> mux \<Rightarrow> bool" where
  frame: "reader st = R_read \<Longrightarrow> read_frame (inp st) = Fr_msg m i \<Longrightarrow>
     mux_step st (Ev_frame m) (on_message m (st\<lparr>inp := i\<rparr>))"
| skip: "reader st = R_read \<Longrightarrow> read_frame (inp st) = Fr_skip i \<Longrightarrow> mux_step st Ev_internal (st\<lparr>inp := i\<rparr>)"
| stop: "reader st = R_read \<Longrightarrow> read_frame (inp st) = Fr_stop \<or> dropped st \<Longrightarrow>
     mux_step st Ev_stop (reader_exit st)"
| deliver: "reader st = R_deliver l r k p \<Longrightarrow> reader_deliver l r k p st = Some st' \<Longrightarrow>
     mux_step st (if c_receiver (calls st ! k) then Ev_deliver l r k p else Ev_internal) st'"
| reply: "reader st = R_reply m \<Longrightarrow> writer_alive st \<Longrightarrow> reader_reply m st = Some st' \<Longrightarrow>
     mux_step st Ev_internal st'"
| reply_stop: "reader st = R_reply m \<Longrightarrow> \<not> writer_alive st \<Longrightarrow> reader_reply m st = Some st' \<Longrightarrow>
     mux_step st Ev_stop st'"
| wr: "writer_alive st \<Longrightarrow> writer_take st = Some (f, st') \<Longrightarrow> length (payload f) < 2 ^ 32 \<Longrightarrow>
     mux_step st Ev_internal (st'\<lparr>written := written st' @ [f]\<rparr>)"
| wr_fail: "writer_alive st \<Longrightarrow> writer_take st = Some (f, st') \<Longrightarrow> mux_step st Ev_internal (writer_exit st')"
| wr_panic: "writer_alive st \<Longrightarrow> writer_take st = Some (f, st') \<Longrightarrow> length (payload f) \<ge> 2 ^ 32 \<Longrightarrow>
     mux_step st Ev_internal (st'\<lparr>writer_alive := False\<rparr>)"
| wr_close: "writer_alive st \<Longrightarrow> dropped st \<Longrightarrow> mux_step st Ev_internal (writer_exit st)"
| open_call: "\<not> dropped st \<Longrightarrow> mux_step st Ev_internal (open_begin dest st)"
| send: "k < length (calls st) \<Longrightarrow> c_pc (calls st ! k) = O_send dest \<Longrightarrow> open_send k dest st = Some st' \<Longrightarrow>
     mux_step st Ev_internal st'"
| finish: "k < length (calls st) \<Longrightarrow> c_pc (calls st ! k) = O_wait \<Longrightarrow> mux_step st Ev_internal (open_finish k st)"
| read: "k < length (calls st) \<Longrightarrow> stream_ids (c_pc (calls st ! k)) \<noteq> None \<Longrightarrow> c_receiver (calls st ! k) \<Longrightarrow>
     stream_read k room st = (Ready b, st') \<Longrightarrow> mux_step st (Ev_read k b) st'"
| send_data: "k < length (calls st) \<Longrightarrow> stream_ids (c_pc (calls st ! k)) = Some (l, r) \<Longrightarrow>
     stream_poll_write l r buf st = (Wrote n, st') \<Longrightarrow> mux_step st (Ev_write k (take n buf)) st'"
| shutdown: "k < length (calls st) \<Longrightarrow> c_pc (calls st ! k) = O_open l r \<Longrightarrow>
     mux_step st Ev_internal (upd_call k (set_pc (O_closing l r)) st)"
| drop: "k < length (calls st) \<Longrightarrow> stream_ids (c_pc (calls st ! k)) \<noteq> None \<Longrightarrow>
     mux_step st Ev_internal (upd_call k drop_stream st)"
| close1: "k < length (calls st) \<Longrightarrow> c_pc (calls st ! k) = O_closing l r \<Longrightarrow>
     mux_step st Ev_internal (close_remove k l r st)"
| close2: "k < length (calls st) \<Longrightarrow> c_pc (calls st ! k) = O_clse l r \<Longrightarrow> close_send k l r st = Some st' \<Longrightarrow>
     mux_step st Ev_internal st'"
| drop_connection: "mux_step st Ev_internal (st\<lparr>dropped := True\<rparr>)"

inductive mux_run :: "input \<Rightarrow> event list \<Rightarrow> mux \<Rightarrow> bool" for i where
  start: "mux_run i [] (from_parts i)"
| more: "mux_run i evs st \<Longrightarrow> mux_step st e st' \<Longrightarrow> mux_run i (evs @ [e]) st'"

section \<open>Routing\<close>

text \<open>
  Local ids are given out in order, so that call \<open>k\<close> has the id \<open>k + 2\<close>; they are distinct
  as long as fewer than \<open>2\<^sup>3\<^sup>2 - 1\<close> streams have been opened.
\<close>

definition id_of :: "nat \<Rightarrow> u32" where
  "id_of k = word_of_nat (k + 2)"

definition few :: "mux \<Rightarrow> bool" where
  "few st \<longleftrightarrow> length (calls st) < 2 ^ 32 - 2"

lemma unat_id_of:
  assumes "k < 2 ^ 32 - 2" shows "unat (id_of k) = k + 2"
proof -
  have "k + 2 < 2 ^ 32" using assms by simp
  then show ?thesis unfolding id_of_def by (rule unat_u32_of_nat)
qed

lemma id_of_inj:
  assumes "j < 2 ^ 32 - 2" "k < 2 ^ 32 - 2" "id_of j = id_of k" shows "j = k"
proof -
  have "j + 2 = k + 2" using unat_id_of [OF assms(1)] unat_id_of [OF assms(2)] unfolding assms(3) by (rule trans [OF sym])
  then show ?thesis by simp
qed

fun reader_ok :: "nat \<Rightarrow> reader_pc \<Rightarrow> bool" where
  "reader_ok n (R_deliver l r k p) \<longleftrightarrow> k < n \<and> l = id_of k"
| "reader_ok n _ \<longleftrightarrow> True"

lemma reader_ok_Suc: "reader_ok n pc \<Longrightarrow> reader_ok (Suc n) pc"
  by (cases pc) simp_all

text \<open>The map entries point to the call that has the id.\<close>

definition routed :: "mux \<Rightarrow> bool" where
  "routed st \<longleftrightarrow>
     next_local st = word_of_nat (length (calls st) + 1)
     \<and> (\<forall>k < length (calls st). c_local (calls st ! k) = id_of k)
     \<and> (\<forall>(l, k) \<in> set (streams st). k < length (calls st) \<and> l = id_of k)
     \<and> (\<forall>(l, k) \<in> set (pending_opens st). k < length (calls st) \<and> l = id_of k)
     \<and> reader_ok (length (calls st)) (reader st)"

lemma set_update_subset: "x \<in> set (AList.update k v al) \<Longrightarrow> x = (k, v) \<or> x \<in> set al"
  by (induction al) (auto split: if_splits)

lemma set_delete: "x \<in> set (AList.delete k al) \<longleftrightarrow> x \<in> set al \<and> fst x \<noteq> k"
  by (auto simp: AList.delete_eq)

lemma upd_call_fields [simp]:
  "next_local (upd_call k f st) = next_local st" "streams (upd_call k f st) = streams st"
  "pending_opens (upd_call k f st) = pending_opens st" "write_queue (upd_call k f st) = write_queue st"
  "written (upd_call k f st) = written st" "writer_alive (upd_call k f st) = writer_alive st"
  "reader (upd_call k f st) = reader st" "inp (upd_call k f st) = inp st" "dropped (upd_call k f st) = dropped st"
  "length (calls (upd_call k f st)) = length (calls st)"
  "j < length (calls st) \<Longrightarrow> calls (upd_call k f st) ! j = (if j = k then f (calls st ! k) else calls st ! j)"
  by (simp_all add: upd_call_def nth_list_update)

definition same_local :: "(call \<Rightarrow> call) \<Rightarrow> bool" where
  "same_local f \<longleftrightarrow> (\<forall>c. c_local (f c) = c_local c)"

lemma same_local_simps [simp]:
  "same_local (\<lambda>c. c\<lparr>c_reply := v\<rparr>)" "same_local (\<lambda>c. c\<lparr>c_queue := g c\<rparr>)" "same_local (set_pc pc)"
  "same_local (\<lambda>c. c\<lparr>c_receiver := x, c_pc := pc\<rparr>)" "same_local (\<lambda>c. c\<lparr>c_queue := a, c_incoming := b\<rparr>)"
  "same_local drop_stream"
  by (simp_all add: same_local_def set_pc_def drop_stream_def)

lemma routed_upd_call [simp]: "same_local f \<Longrightarrow> routed (upd_call k f st) = routed st"
proof -
  assume f: "same_local f"
  then have "(\<forall>j < length (calls st). c_local (calls (upd_call k f st) ! j) = id_of j) \<longleftrightarrow>
      (\<forall>j < length (calls st). c_local (calls st ! j) = id_of j)"
    by (auto simp: same_local_def split: if_splits)
  then show ?thesis by (simp add: routed_def)
qed

lemma routed_simps [simp]:
  "routed (st\<lparr>inp := i\<rparr>) = routed st" "routed (st\<lparr>write_queue := q\<rparr>) = routed st"
  "routed (st\<lparr>written := w\<rparr>) = routed st" "routed (st\<lparr>writer_alive := a\<rparr>) = routed st"
  "routed (st\<lparr>dropped := d\<rparr>) = routed st"
  "routed st \<Longrightarrow> routed (st\<lparr>streams := AList.delete l (streams st)\<rparr>)"
  "routed st \<Longrightarrow> routed (st\<lparr>pending_opens := AList.delete l (pending_opens st)\<rparr>)"
  "routed st \<Longrightarrow> routed (st\<lparr>streams := []\<rparr>)" "routed st \<Longrightarrow> routed (st\<lparr>pending_opens := []\<rparr>)"
  "routed st \<Longrightarrow> routed (st\<lparr>reader := R_read\<rparr>)" "routed st \<Longrightarrow> routed (st\<lparr>reader := R_reply m\<rparr>)"
  "routed st \<Longrightarrow> routed (st\<lparr>reader := R_stopped\<rparr>)"
  by (auto simp: routed_def set_delete)

lemma routed_fail_all [simp]: "routed (fail_all ps st) = routed st"
  by (induction ps st rule: fail_all.induct) simp_all

lemma routed_abort [simp]: "routed st \<Longrightarrow> routed (abort_open l st)"
  by (auto simp: abort_open_def routed_def set_delete)

lemma routed_resolve [simp]: "routed st \<Longrightarrow> routed (resolve l v st)"
  by (simp add: resolve_def split: option.split)

lemma routed_message: "routed st \<Longrightarrow> reader st = R_read \<Longrightarrow> routed (on_message m st)"
proof (cases "command m")
  case Write
  assume "routed st" "reader st = R_read"
  with Write show ?thesis by (auto simp: on_message_def Let_def routed_def dest!: map_of_SomeD split: option.split)
qed (simp_all add: on_message_def Let_def)

lemma routed_begin:
  assumes "routed st" shows "routed (open_begin dest st)"
proof -
  have l: "next_local st + 1 = id_of (length (calls st))"
    using assms by (simp add: routed_def id_of_def algebra_simps)
  have "(l, k) \<in> set (AList.update (id_of (length (calls st))) (length (calls st)) al) \<Longrightarrow>
      \<forall>(l, k) \<in> set al. k < length (calls st) \<and> l = id_of k \<Longrightarrow> k < Suc (length (calls st)) \<and> l = id_of k" for al l k
    by (drule set_update_subset) auto
  moreover have "id_of (length (calls st)) = word_of_nat (Suc (length (calls st)) + 1)" by (simp add: id_of_def)
  ultimately show ?thesis
    using assms unfolding open_begin_def Let_def l
    by (auto simp: routed_def nth_append less_Suc_eq reader_ok_Suc)
qed

lemma routed_exit [simp]: "routed st \<Longrightarrow> routed (reader_exit st)"
proof -
  assume "routed st"
  then have "routed ((fail_all (pending_opens st) st)\<lparr>pending_opens := []\<rparr>)" by simp
  then show ?thesis unfolding reader_exit_def by (rule routed_simps(12))
qed

lemma routed_open_fail [simp]: "routed st \<Longrightarrow> routed (open_fail k e st)"
  by (simp add: open_fail_def)

lemma routed_finish [simp]: "routed st \<Longrightarrow> routed (open_finish k st)"
  by (simp add: open_finish_def split: option.split sum.split prod.split)

lemma writer_take_SomeD: "writer_take st = Some (f, st') \<Longrightarrow> \<exists>r rest. write_queue st = r # rest \<and> f = frame_of r \<and> st' = st\<lparr>write_queue := rest\<rparr>"
  by (auto simp: writer_take_def split: list.splits)

lemma routed_step: "mux_step st e st' \<Longrightarrow> routed st \<Longrightarrow> routed st'"
proof (induction rule: mux_step.induct)
  case (frame st m i)
  then show ?case by (simp add: routed_message)
next
  case (deliver st l r k p st')
  then show ?case by (auto simp: reader_deliver_def split: if_splits)
next
  case (reply st m st')
  then show ?case by (auto simp: reader_reply_def split: if_splits)
next
  case (reply_stop st m st')
  then show ?case by (auto simp: reader_reply_def)
next
  case (wr st f st')
  then show ?case by (auto dest: writer_take_SomeD)
next
  case (wr_fail st f st')
  then show ?case by (auto dest!: writer_take_SomeD simp: writer_exit_def)
next
  case (wr_panic st f st')
  then show ?case by (auto dest: writer_take_SomeD)
next
  case (wr_close st)
  then show ?case by (simp add: writer_exit_def)
next
  case (open_call st dest)
  then show ?case by (simp add: routed_begin)
next
  case (send k st dest st')
  then show ?case by (auto simp: open_send_def split: if_splits)
next
  case (read k st room b st')
  then show ?case by (auto simp: stream_read_def split: prod.splits)
next
  case (send_data k st l r buf n st')
  then show ?case by (auto simp: stream_poll_write_def Let_def split: if_splits)
next
  case (close1 k st l r)
  then show ?case by (simp add: close_remove_def)
next
  case (close2 k st l r st')
  then show ?case by (auto simp: close_send_def split: if_splits)
qed simp_all

lemma routed_run: "mux_run i evs st \<Longrightarrow> routed st"
proof (induction rule: mux_run.induct)
  case start
  show ?case by (simp add: routed_def from_parts_def)
next
  case (more evs st e st')
  then show ?case using routed_step by blast
qed

section \<open>Data\<close>

definition call_unread :: "call \<Rightarrow> bytes" where
  "call_unread c = (case c_incoming c of Some p \<Rightarrow> p | None \<Rightarrow> []) @ concat (c_queue c)"

definition unread_of :: "nat \<Rightarrow> mux \<Rightarrow> bytes" where
  "unread_of k st = (if k < length (calls st) then call_unread (calls st ! k) else [])"

text \<open>What an event adds to the bytes read from call \<open>k\<close>, and to those delivered to it.\<close>

fun ev_read :: "nat \<Rightarrow> event \<Rightarrow> bytes" where
  "ev_read k (Ev_read j b) = (if j = k then b else [])"
| "ev_read k _ = []"

fun ev_data :: "nat \<Rightarrow> event \<Rightarrow> bytes" where
  "ev_data k (Ev_deliver l r j p) = (if j = k then p else [])"
| "ev_data k _ = []"

definition same_unread :: "(call \<Rightarrow> call) \<Rightarrow> bool" where
  "same_unread f \<longleftrightarrow> (\<forall>c. call_unread (f c) = call_unread c)"

lemma same_unread_simps [simp]:
  "same_unread (\<lambda>c. c\<lparr>c_reply := v\<rparr>)" "same_unread (set_pc pc)"
  "same_unread (\<lambda>c. c\<lparr>c_receiver := x, c_pc := pc\<rparr>)" "same_unread drop_stream"
  by (simp_all add: same_unread_def set_pc_def drop_stream_def call_unread_def)

lemma unread_upd_call [simp]: "same_unread f \<Longrightarrow> unread_of j (upd_call k f st) = unread_of j st"
  by (simp add: unread_of_def same_unread_def)

lemma unread_simps [simp]:
  "unread_of k (st\<lparr>inp := i\<rparr>) = unread_of k st" "unread_of k (st\<lparr>write_queue := q\<rparr>) = unread_of k st"
  "unread_of k (st\<lparr>written := w\<rparr>) = unread_of k st" "unread_of k (st\<lparr>writer_alive := a\<rparr>) = unread_of k st"
  "unread_of k (st\<lparr>dropped := d\<rparr>) = unread_of k st" "unread_of k (st\<lparr>streams := m\<rparr>) = unread_of k st"
  "unread_of k (st\<lparr>pending_opens := m\<rparr>) = unread_of k st" "unread_of k (st\<lparr>reader := pc\<rparr>) = unread_of k st"
  by (simp_all add: unread_of_def)

lemma unread_ops [simp]:
  "unread_of k (fail_all ps st) = unread_of k st" "unread_of k (resolve l v st) = unread_of k st"
  "unread_of k (abort_open l st) = unread_of k st" "unread_of k (writer_exit st) = unread_of k st"
  "unread_of k (open_begin dest st) = unread_of k st"
proof -
  show "unread_of k (fail_all ps st) = unread_of k st" by (induction ps st rule: fail_all.induct) simp_all
  show "unread_of k (resolve l v st) = unread_of k st" by (simp add: resolve_def split: option.split)
  show "unread_of k (abort_open l st) = unread_of k st" "unread_of k (writer_exit st) = unread_of k st"
    by (simp_all add: abort_open_def writer_exit_def)
  show "unread_of k (open_begin dest st) = unread_of k st"
    by (simp add: unread_of_def open_begin_def Let_def nth_append call_unread_def)
qed

lemma unread_ops2 [simp]:
  "unread_of k (reader_exit st) = unread_of k st" "unread_of k (open_fail j e st) = unread_of k st"
  by (simp_all add: reader_exit_def open_fail_def)

lemma unread_message [simp]: "unread_of k (on_message m st) = unread_of k st"
  by (cases "command m") (simp_all add: on_message_def Let_def split: option.split)

lemma unread_finish [simp]: "unread_of k (open_finish j st) = unread_of k st"
  by (simp add: open_finish_def split: option.split sum.split prod.split)

lemma unread_deliver:
  assumes "reader_deliver l r j p st = Some st'" "j < length (calls st)"
  shows "unread_of k st' = unread_of k st @ (if c_receiver (calls st ! j) \<and> j = k then p else [])"
  using assms by (auto simp: reader_deliver_def unread_of_def call_unread_def split: if_splits)

lemma unread_read:
  assumes "stream_read j room st = (Ready b, st')" "j < length (calls st)"
  shows "(if j = k then b else []) @ unread_of k st' = unread_of k st"
proof -
  obtain rx where p: "stream_poll_read room (rx_of j st) = (Ready b, rx)"
    and st': "st' = upd_call j (\<lambda>c. c\<lparr>c_queue := sr_queue rx, c_incoming := sr_incoming rx\<rparr>) st"
    using assms(1) by (auto simp: stream_read_def split: prod.splits)
  have "stream_unread (rx_of j st) = b @ stream_unread rx" using st.poll_prefix [OF p] by simp
  then have "call_unread (calls st ! j) = b @ stream_unread rx"
    by (simp add: rx_of_def stream_unread_def call_unread_def)
  with assms(2) show ?thesis
    by (auto simp: st' unread_of_def call_unread_def stream_unread_def)
qed

lemma unread_step:
  "mux_step st e st' \<Longrightarrow> routed st \<Longrightarrow> ev_read k e @ unread_of k st' = unread_of k st @ ev_data k e"
proof (induction rule: mux_step.induct)
  case (deliver st l r j p st')
  then have "j < length (calls st)" by (auto simp: routed_def)
  with deliver show ?case using unread_deliver [of l r j p st st' k] by simp
next
  case (reply st m st')
  then show ?case by (auto simp: reader_reply_def split: if_splits)
next
  case (reply_stop st m st')
  then show ?case by (auto simp: reader_reply_def)
next
  case (wr st f st')
  then show ?case by (auto dest: writer_take_SomeD)
next
  case (wr_fail st f st')
  then show ?case by (auto dest!: writer_take_SomeD)
next
  case (wr_panic st f st')
  then show ?case by (auto dest: writer_take_SomeD)
next
  case (send j st dest st')
  then show ?case by (auto simp: open_send_def split: if_splits)
next
  case (read j st room b st')
  then show ?case using unread_read [of j room st b st' k] by simp
next
  case (send_data j st l r buf n st')
  then show ?case by (auto simp: stream_poll_write_def Let_def split: if_splits)
next
  case (close1 j st l r)
  then show ?case by (simp add: close_remove_def)
next
  case (close2 j st l r st')
  then show ?case by (auto simp: close_send_def split: if_splits)
qed simp_all

text \<open>What has been read from a stream and what is still unread is what was delivered to it.\<close>

lemma delivered_is_read:
  "mux_run i evs st \<Longrightarrow>
   concat (map (ev_read k) evs) @ unread_of k st = concat (map (ev_data k) evs)"
proof (induction rule: mux_run.induct)
  case start
  show ?case by (simp add: unread_of_def from_parts_def)
next
  case (more evs st e st')
  from unread_step [OF more.hyps(2) routed_run [OF more.hyps(1)], of k] more.IH show ?case
    by simp
qed

text \<open>The WRTE frames addressed to call \<open>k\<close>; what is delivered to it is among them, in order.\<close>

fun ev_frame :: "nat \<Rightarrow> event \<Rightarrow> bytes list" where
  "ev_frame k (Ev_frame m) = (if command m = Write \<and> arg1 m = id_of k then [payload m] else [])"
| "ev_frame k _ = []"

fun ev_chunk :: "nat \<Rightarrow> event \<Rightarrow> bytes list" where
  "ev_chunk k (Ev_deliver l r j p) = (if j = k then [p] else [])"
| "ev_chunk k _ = []"

lemma concat_chunks: "concat (concat (map (ev_chunk k) evs)) = concat (map (ev_data k) evs)"
proof (induction evs)
  case (Cons e evs)
  have "concat (ev_chunk k e) = ev_data k e" by (cases e) simp_all
  with Cons show ?case by simp
qed simp

fun in_flight :: "nat \<Rightarrow> reader_pc \<Rightarrow> bytes list" where
  "in_flight k (R_deliver l r j p) = (if j = k then [p] else [])"
| "in_flight k _ = []"

lemma reader_upd [simp]:
  "reader (fail_all ps st) = reader st" "reader (resolve l v st) = reader st" "reader (abort_open l st) = reader st"
  "reader (open_fail k e st) = reader st" "reader (open_finish k st) = reader st" "reader (writer_exit st) = reader st"
  "reader (open_begin dest st) = reader st" "reader (close_remove k l r st) = reader st" "reader (reader_exit st) = R_stopped"
proof -
  show "reader (fail_all ps st) = reader st" by (induction ps st rule: fail_all.induct) simp_all
  show "reader (resolve l v st) = reader st" by (simp add: resolve_def split: option.split)
  show "reader (open_fail k e st) = reader st" for k e by (simp add: open_fail_def abort_open_def)
  then show "reader (open_finish k st) = reader st"
    by (simp add: open_finish_def split: option.split sum.split prod.split)
qed (simp_all add: abort_open_def writer_exit_def open_begin_def Let_def close_remove_def reader_exit_def)

lemma flight_step:
  "mux_step st e st' \<Longrightarrow> routed st \<Longrightarrow>
   subseq (ev_chunk k e @ in_flight k (reader st')) (in_flight k (reader st) @ ev_frame k e)"
proof (induction rule: mux_step.induct)
  case (frame st m i)
  then show ?case
    by (cases "command m")
      (auto simp: on_message_def Let_def routed_def dest!: map_of_SomeD split: option.split)
next
  case (deliver st l r j p st')
  then show ?case by (auto simp: reader_deliver_def split: if_splits)
next
  case (reply st m st')
  then show ?case by (auto simp: reader_reply_def split: if_splits)
next
  case (reply_stop st m st')
  then show ?case by (auto simp: reader_reply_def)
next
  case (wr st f st')
  then show ?case by (auto dest: writer_take_SomeD)
next
  case (wr_fail st f st')
  then show ?case by (auto dest!: writer_take_SomeD)
next
  case (wr_panic st f st')
  then show ?case by (auto dest: writer_take_SomeD)
next
  case (send j st dest st')
  then show ?case by (auto simp: open_send_def split: if_splits)
next
  case (read j st room b st')
  then show ?case by (auto simp: stream_read_def split: prod.splits)
next
  case (send_data j st l r buf n st')
  then show ?case by (auto simp: stream_poll_write_def Let_def split: if_splits)
next
  case (close2 j st l r st')
  then show ?case by (auto simp: close_send_def split: if_splits)
qed simp_all

lemma delivered_frames:
  "mux_run i evs st \<Longrightarrow>
   subseq (concat (map (ev_chunk k) evs) @ in_flight k (reader st)) (concat (map (ev_frame k) evs))"
proof (induction rule: mux_run.induct)
  case start
  show ?case by (simp add: from_parts_def)
next
  case (more evs st e st')
  let ?c = "concat (map (ev_chunk k) evs)" and ?f = "concat (map (ev_frame k) evs)"
  have "subseq (?c @ (ev_chunk k e @ in_flight k (reader st'))) (?c @ (in_flight k (reader st) @ ev_frame k e))"
    by (rule list_emb_append_mono [OF _ flight_step [OF more.hyps(2) routed_run [OF more.hyps(1)]]]) simp
  also have "subseq (?c @ (in_flight k (reader st) @ ev_frame k e)) (?f @ ev_frame k e)"
    using list_emb_append_mono [OF more.IH, of "ev_frame k e" "ev_frame k e"] by simp
  finally show ?case by simp
qed

section \<open>Acknowledgements\<close>

fun ev_ack :: "event \<Rightarrow> message list" where
  "ev_ack (Ev_deliver l r k p) = [new_message Okay l r []]"
| "ev_ack _ = []"

fun owed :: "reader_pc \<Rightarrow> message list" where
  "owed (R_reply m) = (if command m = Okay then [m] else [])"
| "owed _ = []"

definition okays :: "mux \<Rightarrow> message list" where
  "okays st = filter (\<lambda>m. command m = Okay) (written st @ map frame_of (write_queue st)) @ owed (reader st)"

lemma okays_upd_call [simp]: "okays (upd_call k f st) = okays st"
  by (simp add: okays_def)

lemma okays_fields [simp]:
  "okays (st\<lparr>inp := i\<rparr>) = okays st" "okays (st\<lparr>streams := m\<rparr>) = okays st"
  "okays (st\<lparr>pending_opens := m\<rparr>) = okays st" "okays (st\<lparr>dropped := d\<rparr>) = okays st"
  "okays (abort_open l st) = okays st" "okays (open_begin dest st) = okays st"
  by (simp_all add: okays_def abort_open_def open_begin_def Let_def)

lemma okays_ops [simp]:
  "okays (resolve l v st) = okays st" "okays (open_fail k e st) = okays st" "okays (open_finish k st) = okays st"
  "okays (fail_all ps st) = okays st"
proof -
  show "okays (resolve l v st) = okays st" by (simp add: resolve_def split: option.split)
  show "okays (open_fail k e st) = okays st" for k e by (simp add: open_fail_def)
  then show "okays (open_finish k st) = okays st"
    by (simp add: open_finish_def split: option.split sum.split prod.split)
  show "okays (fail_all ps st) = okays st" by (induction ps st rule: fail_all.induct) simp_all
qed

lemma okays_message: "reader st = R_read \<Longrightarrow> okays (on_message m st) = okays st"
proof (cases "command m")
  case Write
  assume "reader st = R_read"
  with Write show ?thesis by (simp add: on_message_def Let_def okays_def split: option.split)
qed (simp_all add: on_message_def Let_def)

lemma okays_exit: "reader st = R_read \<Longrightarrow> okays (reader_exit st) = okays st"
proof -
  assume "reader st = R_read"
  moreover have "written (fail_all ps st) = written st \<and> write_queue (fail_all ps st) = write_queue st" for ps
    by (induction ps st rule: fail_all.induct) simp_all
  ultimately show ?thesis by (simp add: reader_exit_def okays_def)
qed

lemma writer_upd [simp]:
  "writer_alive (on_message m st) = writer_alive st" "writer_alive (resolve l v st) = writer_alive st"
  "writer_alive (reader_exit st) = writer_alive st" "writer_alive (open_begin dest st) = writer_alive st"
  "writer_alive (open_finish k st) = writer_alive st" "writer_alive (close_remove k l r st) = writer_alive st"
proof -
  show r: "writer_alive (resolve l v st) = writer_alive st" for l v by (simp add: resolve_def split: option.split)
  show "writer_alive (on_message m st) = writer_alive st"
    by (cases "command m") (simp_all add: on_message_def Let_def r split: option.split)
  have "writer_alive (fail_all ps st) = writer_alive st" for ps by (induction ps st rule: fail_all.induct) simp_all
  then show "writer_alive (reader_exit st) = writer_alive st" by (simp add: reader_exit_def)
  show "writer_alive (open_begin dest st) = writer_alive st" by (simp add: open_begin_def Let_def)
  show "writer_alive (open_finish k st) = writer_alive st"
    by (simp add: open_finish_def open_fail_def abort_open_def split: option.split sum.split prod.split)
  show "writer_alive (close_remove k l r st) = writer_alive st" by (simp add: close_remove_def)
qed

lemma okays_step:
  "mux_step st e st' \<Longrightarrow> writer_alive st' \<Longrightarrow> writer_alive st \<and> okays st' = okays st @ ev_ack e"
proof (induction rule: mux_step.induct)
  case (frame st m i)
  then show ?case by (simp add: okays_message)
next
  case (stop st)
  then show ?case by (simp add: okays_exit)
next
  case (deliver st l r k p st')
  then show ?case by (auto simp: reader_deliver_def okays_def new_message_def split: if_splits)
next
  case (reply st m st')
  then show ?case by (auto simp: reader_reply_def okays_def frame_of_def split: if_splits)
next
  case (reply_stop st m st')
  then show ?case by (auto simp: reader_reply_def)
next
  case (wr st f st')
  then show ?case by (auto dest!: writer_take_SomeD simp: okays_def)
next
  case (wr_fail st f st')
  then show ?case by (simp add: writer_exit_def)
next
  case (wr_close st)
  then show ?case by (simp add: writer_exit_def)
next
  case (send k st dest st')
  then show ?case
    by (auto simp: open_send_def okays_def frame_of_def new_message_def split: if_splits)
      (simp add: open_fail_def abort_open_def)
next
  case (read k st room b st')
  then show ?case by (auto simp: stream_read_def split: prod.splits)
next
  case (send_data k st l r buf n st')
  then show ?case
    by (auto simp: stream_poll_write_def Let_def okays_def frame_of_def new_message_def split: if_splits)
next
  case (close1 k st l r)
  then show ?case by (simp add: close_remove_def)
next
  case (close2 k st l r st')
  then show ?case by (auto simp: close_send_def okays_def frame_of_def new_message_def split: if_splits)
qed simp_all

lemma deliveries_acknowledged:
  "mux_run i evs st \<Longrightarrow> writer_alive st \<Longrightarrow> okays st = concat (map ev_ack evs)"
proof (induction rule: mux_run.induct)
  case start
  show ?case by (simp add: okays_def from_parts_def)
next
  case (more evs st e st')
  then show ?case using okays_step [OF more.hyps(2)] by simp
qed

end
