(* ===== verification/Adb_Opens.thy ===== *)
theory Adb_Opens
  imports Adb_Connection
begin

text \<open>
  Opening and closing streams on an ADB connection, as long as the 32-bit local ids have not
  wrapped around: a call of \<open>open_stream\<close> that still waits is registered with the reader, the end
  of the reader answers every waiting call, and no map keeps an entry for a call that failed
  or a stream that was closed.
\<close>

fun waiting :: "call_pc \<Rightarrow> bool" where
  "waiting (O_send dest) = True"
| "waiting O_wait = True"
| "waiting _ = False"

fun finished :: "call_pc \<Rightarrow> bool" where
  "finished (O_failed e) = True"
| "finished (O_clse l r) = True"
| "finished O_closed = True"
| "finished _ = False"

definition call_ok :: "mux \<Rightarrow> nat \<Rightarrow> bool" where
  "call_ok st k \<longleftrightarrow>
     (waiting (c_pc (calls st ! k)) \<and> c_reply (calls st ! k) = None \<longleftrightarrow> k \<in> snd ` set (pending_opens st))
     \<and> (k \<in> snd ` set (streams st) \<longrightarrow> \<not> finished (c_pc (calls st ! k)))
     \<and> (\<forall>l r. c_reply (calls st ! k) = Some (Ok (l, r)) \<longrightarrow> l = id_of k)
     \<and> (\<forall>l r. stream_ids (c_pc (calls st ! k)) = Some (l, r) \<longrightarrow> l = id_of k)"

definition open_inv :: "mux \<Rightarrow> bool" where
  "open_inv st \<longleftrightarrow> (\<forall>k < length (calls st). call_ok st k)"

text \<open>While the ids are distinct, deleting the id of a call removes exactly the entries of the call.\<close>

lemma delete_id:
  assumes "\<forall>(l, k) \<in> set al. k < n \<and> l = id_of k" and "k < n" "n < 2 ^ 32 - 2"
  shows "snd ` set (AList.delete (id_of k) al) = snd ` set al - {k}"
proof -
  have inj: "j = k" if "(id_of k, j) \<in> set al" for j
  proof (rule id_of_inj)
    show "j < 2 ^ 32 - 2" "k < 2 ^ 32 - 2" "id_of j = id_of k" using that assms by auto
  qed
  show ?thesis
  proof (intro equalityI subsetI)
    fix j assume "j \<in> snd ` set (AList.delete (id_of k) al)"
    then obtain l where l: "(l, j) \<in> set al" "l \<noteq> id_of k" by (auto simp: set_delete)
    then show "j \<in> snd ` set al - {k}" using assms(1) by force
  next
    fix j assume "j \<in> snd ` set al - {k}"
    then obtain l where l: "(l, j) \<in> set al" "j \<noteq> k" by auto
    then have "l \<noteq> id_of k" using inj by auto
    with l show "j \<in> snd ` set (AList.delete (id_of k) al)" by (force simp: set_delete)
  qed
qed

lemma routed_maps:
  assumes "routed st"
  shows "\<forall>(l, k) \<in> set (streams st). k < length (calls st) \<and> l = id_of k"
    "\<forall>(l, k) \<in> set (pending_opens st). k < length (calls st) \<and> l = id_of k"
  using assms by (auto simp: routed_def)

lemma delete_ids:
  assumes "routed st" "few st" "k < length (calls st)"
  shows "snd ` set (AList.delete (id_of k) (streams st)) = snd ` set (streams st) - {k}"
    "snd ` set (AList.delete (id_of k) (pending_opens st)) = snd ` set (pending_opens st) - {k}"
  using delete_id [OF routed_maps(1) [OF assms(1)] assms(3)] delete_id [OF routed_maps(2) [OF assms(1)] assms(3)] assms(2)
  by (simp_all add: few_def)

lemma update_fresh: "k \<notin> fst ` set al \<Longrightarrow> AList.update k v al = al @ [(k, v)]"
  by (induction al) auto

lemma update_new:
  assumes "\<forall>(l, k) \<in> set al. k < n \<and> l = id_of k" and "n < 2 ^ 32 - 2"
  shows "snd ` set (AList.update (id_of n) n al) = insert n (snd ` set al)"
proof -
  have "id_of n \<notin> fst ` set al"
  proof
    assume "id_of n \<in> fst ` set al"
    then obtain j where j: "j < n" "id_of n = id_of j" using assms(1) by force
    with id_of_inj [of n j] assms(2) show False by simp
  qed
  then have "AList.update (id_of n) n al = al @ [(id_of n, n)]" by (rule update_fresh)
  then show ?thesis by auto
qed

section \<open>The invariant\<close>

lemma open_inv_fields [simp]:
  "open_inv (st\<lparr>inp := i\<rparr>) = open_inv st" "open_inv (st\<lparr>write_queue := q\<rparr>) = open_inv st"
  "open_inv (st\<lparr>written := w\<rparr>) = open_inv st" "open_inv (st\<lparr>writer_alive := a\<rparr>) = open_inv st"
  "open_inv (st\<lparr>dropped := d\<rparr>) = open_inv st" "open_inv (st\<lparr>reader := pc\<rparr>) = open_inv st"
  by (simp_all add: open_inv_def call_ok_def)

lemma open_inv_streams:
  assumes "open_inv st" and sub: "snd ` set m \<subseteq> snd ` set (streams st)"
  shows "open_inv (st\<lparr>streams := m\<rparr>)"
  unfolding open_inv_def
proof (intro allI impI)
  fix k assume "k < length (calls (st\<lparr>streams := m\<rparr>))"
  then have "call_ok st k" using assms(1) by (simp add: open_inv_def)
  then show "call_ok (st\<lparr>streams := m\<rparr>) k"
    using subsetD [OF sub, of k] by (simp add: call_ok_def)
qed

lemma open_inv_writer_exit [simp]: "open_inv st \<Longrightarrow> open_inv (writer_exit st)"
proof -
  assume "open_inv st"
  then have "open_inv (st\<lparr>streams := []\<rparr>)" by (rule open_inv_streams) simp
  then show ?thesis by (simp add: writer_exit_def open_inv_def call_ok_def)
qed

lemma delete_subset: "snd ` set (AList.delete l al) \<subseteq> snd ` set al"
  by (auto simp: set_delete)

text \<open>A change of call \<open>k\<close> that keeps its place and its reply.\<close>

lemma open_inv_upd:
  assumes "open_inv st"
    and "\<And>c. c = calls st ! k \<Longrightarrow> waiting (c_pc (f c)) = waiting (c_pc c) \<and> c_reply (f c) = c_reply c
        \<and> finished (c_pc (f c)) = finished (c_pc c) \<and> stream_ids (c_pc (f c)) = stream_ids (c_pc c)"
  shows "open_inv (upd_call k f st)"
  using assms by (auto simp: open_inv_def call_ok_def)

lemma open_inv_resolve:
  assumes "open_inv st" "routed st" "few st" and "\<And>l' r'. v = Ok (l', r') \<Longrightarrow> l' = l"
  shows "open_inv (resolve l v st)"
proof (cases "map_of (pending_opens st) l")
  case None
  with assms show ?thesis by (simp add: resolve_def)
next
  case (Some k)
  then have k: "k < length (calls st)" "l = id_of k"
    using routed_maps(2) [OF assms(2)] by (auto dest!: map_of_SomeD)
  then show ?thesis
    using assms(1,4) Some delete_ids(2) [OF assms(2,3) k(1)]
    by (auto simp: resolve_def open_inv_def call_ok_def)
qed

lemma open_inv_fail:
  assumes "open_inv st" "routed st" "few st" "k < length (calls st)"
  shows "open_inv (open_fail k e st)"
proof -
  have l: "c_local (calls st ! k) = id_of k" using assms(2,4) by (simp add: routed_def)
  show ?thesis
    using assms(1,4) delete_ids [OF assms(2-4)]
    by (auto simp: open_fail_def abort_open_def l open_inv_def call_ok_def)
qed

lemma fail_all_calls:
  assumes "\<forall>(l, k) \<in> set ps. k < length (calls st)"
  shows "length (calls (fail_all ps st)) = length (calls st) \<and> streams (fail_all ps st) = streams st
    \<and> (\<forall>k < length (calls st). calls (fail_all ps st) ! k =
         (if k \<in> snd ` set ps then (calls st ! k)\<lparr>c_reply := Some (Err Disconnected)\<rparr> else calls st ! k))"
  using assms
proof (induction ps st rule: fail_all.induct)
  case (2 l k ps st)
  then show ?case by (auto split: if_splits)
qed simp

lemma open_inv_exit:
  assumes "open_inv st" "routed st"
  shows "open_inv (reader_exit st)"
    and "k < length (calls st) \<Longrightarrow> waiting (c_pc (calls (reader_exit st) ! k)) \<Longrightarrow> c_reply (calls (reader_exit st) ! k) \<noteq> None"
proof -
  have "\<forall>(l, k) \<in> set (pending_opens st). k < length (calls st)" using routed_maps(2) [OF assms(2)] by auto
  note f = fail_all_calls [OF this]
  show inv: "open_inv (reader_exit st)"
    using f assms(1) by (auto simp: reader_exit_def open_inv_def call_ok_def)
  show "k < length (calls st) \<Longrightarrow> waiting (c_pc (calls (reader_exit st) ! k)) \<Longrightarrow> c_reply (calls (reader_exit st) ! k) \<noteq> None"
    using inv f by (auto simp: open_inv_def call_ok_def reader_exit_def)
qed

lemma open_inv_begin:
  assumes "open_inv st" "routed st" "few (open_begin dest st)"
  shows "open_inv (open_begin dest st)"
proof -
  let ?n = "length (calls st)"
  have n: "?n < 2 ^ 32 - 2" using assms(3) by (simp add: few_def open_begin_def Let_def)
  have l: "next_local st + 1 = id_of ?n" using assms(2) by (simp add: routed_def id_of_def algebra_simps)
  have old: "?n \<notin> snd ` set (streams st)" "?n \<notin> snd ` set (pending_opens st)"
    using routed_maps [OF assms(2)] by auto
  show ?thesis
    unfolding open_begin_def Let_def l
    using assms(1) old update_new [OF routed_maps(1) [OF assms(2)] n] update_new [OF routed_maps(2) [OF assms(2)] n]
    by (auto simp: open_inv_def call_ok_def nth_append less_Suc_eq)
qed

lemma open_inv_close_remove:
  assumes inv: "open_inv st" and "routed st" "few st" and k: "k < length (calls st)"
    and pc: "c_pc (calls st ! k) = O_closing l r"
  shows "open_inv (close_remove k l r st)"
  unfolding open_inv_def
proof (intro allI impI)
  fix j assume "j < length (calls (close_remove k l r st))"
  then have j: "j < length (calls st)" by (simp add: close_remove_def)
  have ok: "call_ok st j" "call_ok st k" using inv j k by (simp_all add: open_inv_def)
  have l: "l = id_of k" using ok(2) pc by (simp add: call_ok_def)
  have del: "snd ` set (AList.delete l (streams st)) = snd ` set (streams st) - {k}"
    unfolding l by (rule delete_ids(1) [OF assms(2-4)])
  show "call_ok (close_remove k l r st) j"
  proof (cases "j = k")
    case True
    with ok(2) pc k del show ?thesis by (simp add: call_ok_def close_remove_def set_pc_def)
  next
    case False
    with ok(1) j del show ?thesis by (simp add: call_ok_def close_remove_def)
  qed
qed

lemma calls_grow: "mux_step st e st' \<Longrightarrow> routed st \<Longrightarrow> length (calls st) \<le> length (calls st')"
proof (induction rule: mux_step.induct)
  case (frame st m i)
  have "length (calls (resolve l v st)) = length (calls st)" for l v st by (simp add: resolve_def split: option.split)
  then show ?case by (cases "command m") (simp_all add: on_message_def Let_def split: option.split)
next
  case (stop st)
  have "length (calls (fail_all ps st)) = length (calls st)" for ps st by (induction ps st rule: fail_all.induct) simp_all
  then show ?case by (simp add: reader_exit_def)
next
  case (reply_stop st m st')
  have "length (calls (fail_all ps st)) = length (calls st)" for ps st by (induction ps st rule: fail_all.induct) simp_all
  with reply_stop show ?case by (auto simp: reader_reply_def reader_exit_def)
next
  case (finish k st)
  then show ?case
    by (simp add: open_finish_def open_fail_def abort_open_def split: option.split sum.split prod.split)
qed (auto simp: reader_deliver_def reader_reply_def writer_exit_def open_begin_def Let_def open_send_def open_fail_def
    abort_open_def stream_read_def stream_poll_write_def close_remove_def close_send_def
    dest!: writer_take_SomeD split: if_splits prod.splits)

lemma open_inv_step:
  "mux_step st e st' \<Longrightarrow> routed st \<Longrightarrow> few st' \<Longrightarrow> open_inv st \<Longrightarrow> open_inv st'"
proof (induction rule: mux_step.induct)
  case (frame st m i)
  let ?st = "st\<lparr>inp := i\<rparr>"
  have few: "few ?st"
    using calls_grow [OF mux_step.frame [OF frame.hyps] frame.prems(1)] frame.prems(2) by (simp add: few_def)
  have r: "open_inv (resolve (arg1 m) v ?st)" if "\<And>l' r'. v = Ok (l', r') \<Longrightarrow> l' = arg1 m" for v
    using frame.prems few that by (intro open_inv_resolve) auto
  show ?case
  proof (cases "command m")
    case Write
    with frame.prems show ?thesis by (simp add: on_message_def Let_def split: option.split)
  next
    case Close
    have "open_inv (resolve (arg1 m) (Err (InvalidResponse ''CLSE on OPEN'')) ?st)" by (rule r) simp
    from open_inv_streams [OF this delete_subset] Close show ?thesis by (simp add: on_message_def Let_def)
  next
    case Okay
    have "open_inv (resolve (arg1 m) (Ok (arg1 m, arg0 m)) ?st)" by (rule r) simp
    with Okay show ?thesis by (simp add: on_message_def Let_def)
  next
    case Fail
    have "open_inv (resolve (arg1 m) (Err e) ?st)" for e by (rule r) simp
    with Fail show ?thesis by (simp add: on_message_def Let_def)
  qed (use frame.prems in \<open>simp_all add: on_message_def Let_def\<close>)
next
  case (stop st)
  then show ?case by (simp add: open_inv_exit)
next
  case (deliver st l r k p st')
  have "open_inv (st\<lparr>streams := AList.delete l (streams st)\<rparr>)"
    by (rule open_inv_streams [OF deliver.prems(3) delete_subset])
  moreover have "open_inv (upd_call k (\<lambda>c. c\<lparr>c_queue := c_queue c @ [p]\<rparr>) st)"
    by (rule open_inv_upd [OF deliver.prems(3)]) simp
  ultimately show ?case using deliver.hyps(2) by (auto simp: reader_deliver_def split: if_splits)
next
  case (reply st m st')
  then show ?case by (auto simp: reader_reply_def split: if_splits)
next
  case (reply_stop st m st')
  then show ?case by (auto simp: reader_reply_def open_inv_exit)
next
  case (wr st f st')
  then show ?case by (auto dest: writer_take_SomeD)
next
  case (wr_fail st f st')
  then show ?case by (auto dest!: writer_take_SomeD)
next
  case (wr_panic st f st')
  then show ?case by (auto dest: writer_take_SomeD)
next
  case (wr_close st)
  then show ?case by simp
next
  case (open_call st dest)
  then show ?case by (simp add: open_inv_begin)
next
  case (send k st dest st')
  have few: "few st" using calls_grow [OF mux_step.send [OF send.hyps] send.prems(1)] send.prems(2) by (simp add: few_def)
  show ?case
  proof (cases "writer_alive st")
    case True
    have "open_inv (upd_call k (set_pc O_wait) st)"
      using send.prems(3) send.hyps(2) by (intro open_inv_upd) (auto simp: set_pc_def)
    with send.hyps(3) True show ?thesis by (auto simp: open_send_def split: if_splits)
  next
    case False
    with send few show ?thesis by (auto simp: open_send_def intro: open_inv_fail)
  qed
next
  case (finish k st)
  have few: "few st"
    using calls_grow [OF mux_step.finish [OF finish.hyps] finish.prems(1)] finish.prems(2) by (simp add: few_def)
  have "open_inv (upd_call k (set_pc (O_open l r)) st)" if "c_reply (calls st ! k) = Some (Ok (l, r))" for l r
    using that finish by (auto simp: open_inv_def call_ok_def set_pc_def)
  with finish few show ?case
    by (auto simp: open_finish_def intro: open_inv_fail split: option.split sum.split prod.split)
next
  case (read k st room b st')
  then show ?case by (auto simp: stream_read_def intro!: open_inv_upd split: prod.splits)
next
  case (send_data k st l r buf n st')
  then show ?case by (auto simp: stream_poll_write_def Let_def split: if_splits)
next
  case (shutdown k st l r)
  then show ?case by (intro open_inv_upd) (auto simp: set_pc_def)
next
  case (drop k st)
  then show ?case by (intro open_inv_upd) (auto simp: drop_stream_def split: call_pc.splits)
next
  case (close1 k st l r)
  have few: "few st"
    using calls_grow [OF mux_step.close1 [OF close1.hyps] close1.prems(1)] close1.prems(2) by (simp add: few_def)
  show ?case by (rule open_inv_close_remove [OF close1.prems(3,1) few close1.hyps])
next
  case (close2 k st l r st')
  have "open_inv (upd_call k (set_pc O_closed) st)"
    using close2 by (auto simp: open_inv_def call_ok_def set_pc_def)
  with close2.hyps(3) show ?case by (auto simp: close_send_def split: if_splits)
qed simp_all

lemma open_inv_run: "mux_run i evs st \<Longrightarrow> few st \<Longrightarrow> open_inv st"
proof (induction rule: mux_run.induct)
  case start
  show ?case by (simp add: open_inv_def from_parts_def)
next
  case (more evs st e st')
  note r = routed_run [OF more.hyps(1)]
  have "few st" using calls_grow [OF more.hyps(2) r] more.prems by (simp add: few_def)
  with more.IH open_inv_step [OF more.hyps(2) r more.prems] show ?case by simp
qed

text \<open>When the reader ends, every call that still waits has its answer.\<close>

lemma stop_answers:
  "mux_step st e st' \<Longrightarrow> e = Ev_stop \<Longrightarrow> routed st \<Longrightarrow> open_inv st \<Longrightarrow> k < length (calls st') \<Longrightarrow>
   waiting (c_pc (calls st' ! k)) \<Longrightarrow> c_reply (calls st' ! k) \<noteq> None"
proof (induction rule: mux_step.induct)
  case (stop st)
  have "length (calls (fail_all ps st)) = length (calls st)" for ps st by (induction ps st rule: fail_all.induct) simp_all
  with stop show ?case using open_inv_exit(2) [of st k] by (simp add: reader_exit_def)
next
  case (reply_stop st m st')
  have "length (calls (fail_all ps st)) = length (calls st)" for ps st by (induction ps st rule: fail_all.induct) simp_all
  with reply_stop show ?case using open_inv_exit(2) [of st k] by (auto simp: reader_reply_def reader_exit_def)
qed (auto split: if_splits)

end
