(* ===== verification/Adb_Properties.thy ===== *)
theory Adb_Properties
  imports Adb_Opens
begin

text \<open>
  The properties of the ADB layer: the message codec, the handshake, the public key sent to
  the phone, and the multiplexed connection. Small concrete runs show that their hypotheses
  can hold.
\<close>

section \<open>Messages\<close>

text \<open>
  C19. The message codec is exact: \<open>decode\<close> accepts a header and a payload precisely when they
  are what \<open>try_encode\<close> makes of the message, and a message with one damaged payload byte is
  rejected by the checksum.
\<close>

theorem decode_accepts_encodings:
  assumes "length h = HEADER_LEN"
  shows "(decode h p = Ok m \<longleftrightarrow> try_encode m = Ok (h @ p))
    \<and> (decode h p = Ok m \<longrightarrow> i < length p \<longrightarrow> b \<noteq> p ! i \<longrightarrow> \<not> is_ok (decode h (p[i := b])))"
  using decode_iff [OF assms] damaged_byte_rejected [OF _ _ _ assms] by blast

definition demo_message :: message where
  "demo_message = new_message Write 1 2 [7]"

lemma demo_decodes: "decode (header_of demo_message) [7] = Ok demo_message"
  using decode_header_of [of demo_message] by (simp add: demo_message_def new_message_def)

theorem decode_accepts_encodings_witness:
  "try_encode demo_message = Ok (header_of demo_message @ [7])
   \<and> \<not> is_ok (decode (header_of demo_message) [8])"
proof -
  have h: "length (header_of demo_message) = HEADER_LEN" by simp
  from decode_accepts_encodings [OF h, of "[7]" demo_message 0 8] demo_decodes show ?thesis by simp
qed

section \<open>Authentication\<close>

text \<open>
  C18. The handshake ends, whatever the device does with the tokens it sends: a device that
  sends up to six tokens and then CNXN is connected, one that sends more is refused, the host
  answers the tokens with a signature and its public key in turn, and the bytes after CNXN are
  left for the connection.
\<close>

theorem handshake_bounds_tokens:
  assumes W: "takes_all W out" and ts: "good_tokens R k ts" and c: "small c" "command c = Connect"
    and banner: "length serial + length version < 1000" and i: "rd_bytes i = wire (ts @ [c]) @ rest"
  shows "\<exists>i' w'. open_inner R W version serial (Some k) (i, w) =
        Returns (if length ts \<le> 6 then Ok () else Err Unauthorized, i', w')
      \<and> (length ts \<le> 6 \<longrightarrow> i' = i\<lparr>rd_bytes := rest\<rparr>)
      \<and> out w' = out w @ wire (connect_message version serial # answers R k (take 6 ts))"
  by (rule handshake_outcome [OF assms])

definition log_sink :: "bytes sink" where
  "log_sink = \<lparr>write_all = \<lambda>b w. Returns (Ok (), w @ b), flush = \<lambda>w. Returns (Ok (), w)\<rparr>"

definition demo_rsa :: "unit rsa_lib" where
  "demo_rsa = \<lparr>rsa_from_pkcs8_der = \<lambda>_. Ok (), rsa_from_pkcs8_pem = \<lambda>_. Ok (), rsa_from_pkcs1_pem = \<lambda>_. Ok (),
     rsa_from_openssh = \<lambda>_. Err '''', rsa_to_pkcs8_pem = \<lambda>_. Ok '''', rsa_to_pkcs8_der = \<lambda>_. Ok [],
     rsa_der_to_pem = \<lambda>_. Ok '''', rsa_n = \<lambda>_. [0xC1, 5], rsa_e = \<lambda>_. [1, 0, 1], rsa_new = Ok (),
     rsa_sign_sha1 = \<lambda>_ t. t\<rparr>"

definition demo_key :: adb_key where
  "demo_key = \<lparr>pkcs8_der = [], ssh_pub = [0], key_path = ''k''\<rparr>"

definition token_message :: message where "token_message = new_message Auth AUTH_TOKEN 0 [1, 2, 3]"
definition cnxn_message :: message where "cnxn_message = new_message Connect ADB_VERSION 4096 []"

lemma log_sink_takes: "takes_all log_sink (\<lambda>w. w)"
  by (simp add: takes_all_def log_sink_def)

lemma demo_tokens: "good_tokens demo_rsa demo_key [token_message]"
  by (simp add: good_tokens_def is_token_def can_sign_def sign_def small_def HANDSHAKE_PAYLOAD_def
      token_message_def new_message_def demo_rsa_def demo_key_def)

theorem handshake_bounds_tokens_witness:
  "\<exists>i' w'. open_inner demo_rsa log_sink ''1'' ''s'' (Some demo_key)
      (\<lparr>rd_bytes = wire [token_message, cnxn_message] @ [9], rd_end = At_Eof\<rparr>, []) = Returns (Ok (), i', w')
    \<and> rd_bytes i' = [9]"
proof -
  have c: "small cnxn_message" "command cnxn_message = Connect"
    by (simp_all add: small_def cnxn_message_def new_message_def)
  from handshake_bounds_tokens [OF log_sink_takes demo_tokens c, of "''s''" "''1''"
      "\<lparr>rd_bytes = wire [token_message, cnxn_message] @ [9], rd_end = At_Eof\<rparr>" "[9]" "[]"]
  show ?thesis by (auto simp del: wire_simps(2))
qed

text \<open>
  C31. The public key the phone is shown is the key the host signs with: up to the space the
  text is base64 of an SSH blob whose exponent and modulus are those of the stored private
  key, and the text is terminated by a NUL.
\<close>

theorem public_key_text_decodes:
  assumes "ssh_pub_from_pkcs8 R env der = Ok pub"
    and "\<And>k. rsa_from_pkcs8_der R der = Ok k \<Longrightarrow> length (rsa_e R k) < 2 ^ 32 - 1 \<and> length (rsa_n R k) < 2 ^ 32 - 1"
  shows "\<exists>k blob r e r' n. rsa_from_pkcs8_der R der = Ok k
      \<and> base64_decode (takeWhile (\<lambda>c. c \<noteq> CHR '' '') (from_bytes pub)) = Some blob
      \<and> read_ssh_string blob = Some (as_bytes ''ssh-rsa'', r)
      \<and> read_ssh_string r = Some (e, r') \<and> read_ssh_string r' = Some (n, [])
      \<and> be_nat e = be_nat (rsa_e R k) \<and> be_nat n = be_nat (rsa_n R k) \<and> last pub = 0"
  by (rule ssh_pub_reads [OF assms])

definition demo_env :: key_env where
  "demo_env = \<lparr>env_xdg_data_home = None, env_data_dir = None, env_home_dir = None, env_user = Some ''u'',
     env_logname = None, env_hostname = Some ''h'', file_hostname = None, file_etc_hostname = None\<rparr>"

theorem public_key_text_decodes_witness:
  "\<exists>pub k blob r e r' n. ssh_pub_from_pkcs8 demo_rsa demo_env [] = Ok pub
      \<and> rsa_from_pkcs8_der demo_rsa [] = Ok k
      \<and> base64_decode (takeWhile (\<lambda>c. c \<noteq> CHR '' '') (from_bytes pub)) = Some blob
      \<and> read_ssh_string blob = Some (as_bytes ''ssh-rsa'', r)
      \<and> read_ssh_string r = Some (e, r') \<and> read_ssh_string r' = Some (n, [])
      \<and> be_nat e = be_nat [1, 0, 1] \<and> be_nat n = be_nat [0xC1, 5] \<and> last pub = 0"
proof -
  obtain pub where pub: "ssh_pub_from_pkcs8 demo_rsa demo_env [] = Ok pub"
    by (simp add: ssh_pub_from_pkcs8_def Let_def demo_rsa_def)
  have "length (rsa_e demo_rsa k) < 2 ^ 32 - 1 \<and> length (rsa_n demo_rsa k) < 2 ^ 32 - 1" for k
    by (simp add: demo_rsa_def)
  from public_key_text_decodes [OF pub this] pub show ?thesis
    by (intro exI [of _ pub]) (simp add: demo_rsa_def)
qed

section \<open>The connection\<close>

text \<open>
  C5. However the tasks of a connection interleave, a stream gives its reader exactly the
  data delivered to it, in order: what was read followed by what is still unread is what was
  delivered; deliveries are among the WRTE frames that carry the id of the stream, in their
  order; and as long as the writer lives there is one OKAY for every delivery, in order.
\<close>

theorem streams_deliver_in_order:
  assumes "mux_run i evs st"
  shows "concat (map (ev_read k) evs) @ unread_of k st = concat (concat (map (ev_chunk k) evs))
    \<and> subseq (concat (map (ev_chunk k) evs)) (concat (map (ev_frame k) evs))
    \<and> (writer_alive st \<longrightarrow> okays st = concat (map ev_ack evs))"
proof -
  have "subseq (concat (map (ev_chunk k) evs)) (concat (map (ev_chunk k) evs) @ in_flight k (reader st))"
    by (rule subseq_rev_drop_many) simp
  also note delivered_frames [OF assms, of k]
  finally show ?thesis
    using delivered_is_read [OF assms, of k] deliveries_acknowledged [OF assms] by (simp add: concat_chunks)
qed

text \<open>
  C32. When the reader task ends, every call of \<open>open_stream\<close> that still waits has its answer, so
  that none sits out its deadline.
\<close>

theorem reader_end_answers_opens:
  assumes run: "mux_run i evs st" and stop: "mux_step st Ev_stop st'" and few: "few st'"
    and k: "k < length (calls st')" "waiting (c_pc (calls st' ! k))"
  shows "c_reply (calls st' ! k) \<noteq> None"
proof -
  note r = routed_run [OF run]
  have "few st" using calls_grow [OF stop r] few by (simp add: few_def)
  from stop_answers [OF stop refl r open_inv_run [OF run this] k] show ?thesis .
qed

lemma read_frame_wire:
  assumes "length (payload m) \<le> MAX_PAYLOAD" and "rd_bytes i = wire (m # ms) @ rest"
  shows "read_frame i = Fr_msg m (i\<lparr>rd_bytes := wire ms @ rest\<rparr>)"
proof -
  have len: "length (payload m) < 2 ^ 32" using assms(1) by (simp add: MAX_PAYLOAD_def)
  have "read_exact HEADER_LEN i = Returns (Ok (header_of m), i\<lparr>rd_bytes := payload m @ wire ms @ rest\<rparr>)"
    using assms(2) by (simp add: read_exact_def)
  moreover have "read_exact (length (payload m)) (i\<lparr>rd_bytes := payload m @ wire ms @ rest\<rparr>) =
      Returns (Ok (payload m), i\<lparr>rd_bytes := wire ms @ rest\<rparr>)"
    by (simp add: read_exact_def)
  ultimately show ?thesis
    using len assms(1) decode_header_of [of m] by (simp add: read_frame_def Let_def)
qed

text \<open>
  C40. A frame of a size the host itself has announced ends the connection: CNXN advertises
  payloads of up to 1 MiB, the reader gives up on a frame of more than 256 KiB.
\<close>

theorem announced_payload_ends_connection:
  assumes "MAX_PAYLOAD < length (payload m)" and "length (payload m) \<le> unat (arg1 (connect_message version serial))"
    and "rd_bytes i = wire [m] @ rest"
  shows "read_frame i = Fr_stop"
proof -
  have len: "length (payload m) < 2 ^ 32" using assms(2) by (simp add: connect_message_def new_message_def)
  have "read_exact HEADER_LEN i = Returns (Ok (header_of m), i\<lparr>rd_bytes := payload m @ rest\<rparr>)"
    using assms(3) by (simp add: read_exact_def)
  then show ?thesis using len assms(1) by (simp add: read_frame_def Let_def)
qed

theorem announced_payload_ends_connection_witness:
  "read_frame \<lparr>rd_bytes = wire [new_message Write 1 2 (replicate 300000 0)] @ [], rd_end = At_Silence\<rparr> = Fr_stop"
  by (rule announced_payload_ends_connection [of "new_message Write 1 2 (replicate 300000 0)" "''1''" "''s''" _ "[]"])
    (simp_all add: MAX_PAYLOAD_def connect_message_def new_message_def del: wire_simps)

text \<open>A run: a stream is opened and the first data of the phone arrives.\<close>

definition early_data :: message where "early_data = new_message Write 9 2 [7]"

definition demo_input :: input where "demo_input = \<lparr>rd_bytes = wire [early_data], rd_end = At_Eof\<rparr>"


definition demo_call :: "bytes list \<Rightarrow> call" where
  "demo_call q = \<lparr>c_local = 2, c_reply = None, c_queue = q, c_incoming = None, c_receiver = True, c_pc = O_send ''x''\<rparr>"

definition demo_mux :: "bytes list \<Rightarrow> bytes \<Rightarrow> reader_pc \<Rightarrow> mux" where
  "demo_mux q b pc =
     \<lparr>next_local = 2, streams = [(2, 0)], pending_opens = [(2, 0)], calls = [demo_call q], write_queue = [],
      written = [], writer_alive = True, reader = pc, inp = \<lparr>rd_bytes = b, rd_end = At_Eof\<rparr>, dropped = False\<rparr>"

lemma demo_opened: "mux_run demo_input [Ev_internal] (demo_mux [] (wire [early_data]) R_read)"
proof -
  have "open_begin ''x'' (from_parts demo_input) = demo_mux [] (wire [early_data]) R_read"
    by (simp add: open_begin_def Let_def from_parts_def demo_mux_def demo_call_def demo_input_def)
  moreover have "mux_step (from_parts demo_input) Ev_internal (open_begin ''x'' (from_parts demo_input))"
    by (rule mux_step.open_call) (simp add: from_parts_def)
  ultimately show ?thesis using mux_run.more [OF mux_run.start, of demo_input Ev_internal] by simp
qed

lemma demo_delivered:
  "mux_run demo_input [Ev_internal, Ev_frame early_data, Ev_deliver 2 9 0 [7]]
     (demo_mux [[7]] [] (R_reply (new_message Okay 2 9 [])))"
proof -
  let ?s = "demo_mux [] (wire [early_data]) R_read" and ?t = "demo_mux [] [] (R_deliver 2 9 0 [7])"
  have "read_frame (inp ?s) = Fr_msg early_data \<lparr>rd_bytes = [], rd_end = At_Eof\<rparr>"
    using read_frame_wire [of early_data "inp ?s" "[]" "[]"]
    by (simp add: demo_mux_def early_data_def new_message_def MAX_PAYLOAD_def)
  then have "mux_step ?s (Ev_frame early_data) (on_message early_data (?s\<lparr>inp := \<lparr>rd_bytes = [], rd_end = At_Eof\<rparr>\<rparr>))"
    by (intro mux_step.frame) (simp add: demo_mux_def)
  moreover have "on_message early_data (?s\<lparr>inp := \<lparr>rd_bytes = [], rd_end = At_Eof\<rparr>\<rparr>) = ?t"
    by (simp add: on_message_def Let_def early_data_def new_message_def demo_mux_def)
  ultimately have 1: "mux_run demo_input [Ev_internal, Ev_frame early_data] ?t"
    using mux_run.more [OF demo_opened, of "Ev_frame early_data" ?t] by simp
  have "mux_step ?t (if c_receiver (calls ?t ! 0) then Ev_deliver 2 9 0 [7] else Ev_internal)
      (demo_mux [[7]] [] (R_reply (new_message Okay 2 9 [])))"
    by (rule mux_step.deliver)
      (simp_all add: demo_mux_def demo_call_def reader_deliver_def DATA_CAPACITY_def upd_call_def)
  then have "mux_step ?t (Ev_deliver 2 9 0 [7]) (demo_mux [[7]] [] (R_reply (new_message Okay 2 9 [])))"
    by (simp add: demo_mux_def demo_call_def)
  from mux_run.more [OF 1 this] show ?thesis by simp
qed

theorem streams_deliver_in_order_witness:
  "unread_of 0 (demo_mux [[7]] [] (R_reply (new_message Okay 2 9 []))) = [7]
   \<and> okays (demo_mux [[7]] [] (R_reply (new_message Okay 2 9 []))) = [new_message Okay 2 9 []]"
  using streams_deliver_in_order [OF demo_delivered, of 0] by (simp add: demo_mux_def)

theorem reader_end_answers_opens_witness:
  "c_reply (calls (reader_exit (demo_mux [] (wire [early_data]) R_read\<lparr>dropped := True\<rparr>)) ! 0) \<noteq> None"
proof (rule reader_end_answers_opens)
  let ?s = "demo_mux [] (wire [early_data]) R_read\<lparr>dropped := True\<rparr>"
  show "mux_run demo_input ([Ev_internal] @ [Ev_internal]) ?s"
    by (rule mux_run.more [OF demo_opened mux_step.drop_connection])
  show "mux_step ?s Ev_stop (reader_exit ?s)" by (rule mux_step.stop) (simp_all add: demo_mux_def)
  show "few (reader_exit ?s)" "0 < length (calls (reader_exit ?s))"
    "waiting (c_pc (calls (reader_exit ?s) ! 0))"
    by (simp_all add: few_def reader_exit_def demo_mux_def demo_call_def upd_call_def)
qed

end
