(* ===== verification/Pair_Spake2.thy ===== *)
theory Pair_Spake2
  imports Prelude
begin

text \<open>
  The password-authenticated key exchange of wireless pairing (\<open>adb-pairing/src/spake2.rs\<close>).
  Points of the curve are elements of an abelian group \<open>'p\<close>; compression, the base point,
  SHA-512, the reduction of 64 bytes modulo the group order and the random bytes are
  parameters. The lemmas show what the byte arithmetic computes, that the password scalar is a
  multiple of eight, and that two sides with the same password agree on the secret.
\<close>

section \<open>Errors\<close>

datatype pair_error =
    CodeMismatch | Io string | Tls string | Protocol string | Key string | Timeout | Other string

fun pair_error_display :: "pair_error \<Rightarrow> string" where
  "pair_error_display CodeMismatch = ''the pairing code did not match''"
| "pair_error_display (Io e) = ''io: '' @ e"
| "pair_error_display (Tls e) = ''tls: '' @ e"
| "pair_error_display (Protocol e) = ''protocol: '' @ e"
| "pair_error_display (Key e) = ''key: '' @ e"
| "pair_error_display Timeout = ''timed out''"
| "pair_error_display (Other e) = e"

section \<open>Wide scalars\<close>

definition M_ENCODED :: bytes where
  "M_ENCODED =
     [0x5a, 0xda, 0x7e, 0x4b, 0xf6, 0xdd, 0xd9, 0xad, 0xb6, 0x62, 0x6d, 0x32, 0x13, 0x1c, 0x6b, 0x5c,
      0x51, 0xa1, 0xe3, 0x47, 0xa3, 0x47, 0x8f, 0x53, 0xcf, 0xcf, 0x44, 0x1b, 0x88, 0xee, 0xd1, 0x2e]"

definition N_ENCODED :: bytes where
  "N_ENCODED =
     [0x10, 0xe3, 0xdf, 0x0a, 0xe3, 0x7d, 0x8e, 0x7a, 0x99, 0xb5, 0xfe, 0x74, 0xb4, 0x46, 0x72, 0x10,
      0x3d, 0xbd, 0xdc, 0xbd, 0x06, 0xaf, 0x68, 0x0d, 0x71, 0x32, 0x9a, 0x11, 0x69, 0x3b, 0xc7, 0x78]"

definition ORDER :: bytes where
  "ORDER =
     [0xed, 0xd3, 0xf5, 0x5c, 0x1a, 0x63, 0x12, 0x58, 0xd6, 0x9a, 0x7a, 0xa2, 0xde, 0xf9, 0xde, 0x14,
      0x00, 0x00, 0x00, 0x00, 0x00, 0x00, 0x00, 0x00, 0x00, 0x00, 0x00, 0x00, 0x00, 0x00, 0x00, 0x10]"

text \<open>\<open>mul_wide\<close>: one bit of the scalar, a byte, and all of it, on the pair of result and addend.\<close>

definition mul_bit :: "u8 \<Rightarrow> 'p :: ab_group_add \<times> 'p \<Rightarrow> nat \<Rightarrow> 'p \<times> 'p" where
  "mul_bit byte acc i =
     (case acc of (result, addend) \<Rightarrow>
        (if drop_bit i byte AND 1 = 1 then result + addend else result, addend + addend))"

definition mul_wide :: "'p :: ab_group_add \<Rightarrow> bytes \<Rightarrow> 'p" where
  "mul_wide point scalar = fst (foldl (\<lambda>acc byte. foldl (mul_bit byte) acc [0..<8]) (0, point) scalar)"

fun left_shift_3_carry :: "u8 \<Rightarrow> bytes \<Rightarrow> bytes" where
  "left_shift_3_carry carry [] = []"
| "left_shift_3_carry carry (byte # rest) =
     (push_bit 3 byte OR carry) # left_shift_3_carry (drop_bit 5 byte) rest"

definition left_shift_3 :: "bytes \<Rightarrow> bytes" where
  "left_shift_3 scalar = left_shift_3_carry 0 scalar"

fun add_wide_carry :: "u16 \<Rightarrow> bytes \<Rightarrow> bytes \<Rightarrow> bytes" where
  "add_wide_carry carry (d # ds) (s # ss) =
     (let sum = ucast d + ucast s + carry
      in ucast sum # add_wide_carry (drop_bit 8 sum) ds ss)"
| "add_wide_carry carry ds _ = ds"

definition add_wide :: "bytes \<Rightarrow> bytes \<Rightarrow> bytes" where
  "add_wide dest src = add_wide_carry 0 dest src"

section \<open>One side of the exchange\<close>

record 'p curve =
  compress :: "'p \<Rightarrow> bytes"
  decompress_point :: "bytes \<Rightarrow> 'p option"
  base :: 'p

record hashes =
  sha512 :: "bytes \<Rightarrow> bytes"
  sc_reduce :: "bytes \<Rightarrow> bytes"

record 'p spake2 =
  role_alice :: bool
  my_name :: bytes
  their_name :: bytes
  password_hash :: bytes
  password_scalar :: bytes
  my_msg :: bytes
  my_msg_point :: 'p
  private_scalar :: bytes
  generated :: bool

definition decompress :: "'p curve \<Rightarrow> bytes \<Rightarrow> pair_error + 'p" where
  "decompress C encoded =
     (case decompress_point C encoded of
        None \<Rightarrow> Err (Protocol ''SPAKE2 mask point does not decompress'')
      | Some p \<Rightarrow> Ok p)"

text \<open>The loop that clears the three low bits; \<open>n\<close> rounds are left.\<close>

fun clear_low_bits :: "nat \<Rightarrow> nat \<Rightarrow> bytes \<Rightarrow> bytes \<Rightarrow> bytes" where
  "clear_low_bits 0 i scalar order = scalar"
| "clear_low_bits (Suc n) i scalar order =
     clear_low_bits n (Suc i)
       (if scalar ! 0 AND push_bit i 1 \<noteq> 0 then add_wide scalar order else scalar)
       (add_wide order order)"

definition CLIENT_NAME :: bytes where "CLIENT_NAME = as_bytes ''adb pair client'' @ [0]"
definition SERVER_NAME :: bytes where "SERVER_NAME = as_bytes ''adb pair server'' @ [0]"

definition spake2_new :: "hashes \<Rightarrow> bool \<Rightarrow> bytes \<Rightarrow> ('p :: ab_group_add) spake2" where
  "spake2_new H alice password =
     (let hash = sha512 H password
      in \<lparr>role_alice = alice,
          my_name = (if alice then CLIENT_NAME else SERVER_NAME),
          their_name = (if alice then SERVER_NAME else CLIENT_NAME),
          password_hash = hash,
          password_scalar = clear_low_bits 3 0 (sc_reduce H hash) ORDER,
          my_msg = replicate 32 0, my_msg_point = 0, private_scalar = replicate 32 0,
          generated = False\<rparr>)"

text \<open>\<open>generate_msg\<close> with the 64 random bytes it read; \<open>None\<close> is a panic.\<close>

definition generate_msg ::
  "hashes \<Rightarrow> 'p curve \<Rightarrow> bytes \<Rightarrow> ('p :: ab_group_add) spake2 \<Rightarrow> (bytes \<times> 'p spake2) option" where
  "generate_msg H C random st =
     (let scalar = left_shift_3 (sc_reduce H random)
      in case decompress C (if role_alice st then M_ENCODED else N_ENCODED) of
           Inl _ \<Rightarrow> None
         | Inr mpt \<Rightarrow>
             (let point = mul_wide (base C) scalar + mul_wide mpt (password_scalar st)
              in Some (compress C point,
                       st\<lparr>private_scalar := scalar, my_msg_point := point, my_msg := compress C point,
                          generated := True\<rparr>)))"

definition length_prefixed :: "bytes \<Rightarrow> bytes" where
  "length_prefixed data = to_le64 (word_of_nat (length data)) @ data"

definition transcript :: "'p spake2 \<Rightarrow> bytes \<Rightarrow> bytes \<Rightarrow> bytes" where
  "transcript st their dh =
     (if role_alice st
      then length_prefixed (my_name st) @ length_prefixed (their_name st)
           @ length_prefixed (my_msg st) @ length_prefixed their
      else length_prefixed (their_name st) @ length_prefixed (my_name st)
           @ length_prefixed their @ length_prefixed (my_msg st))
     @ length_prefixed dh @ length_prefixed (password_hash st)"

definition process_msg :: "hashes \<Rightarrow> 'p curve \<Rightarrow> bytes \<Rightarrow> ('p :: ab_group_add) spake2 \<Rightarrow> pair_error + bytes" where
  "process_msg H C their st =
     (if \<not> generated st then Err (Protocol ''process before generate'')
      else case decompress_point C their of
             None \<Rightarrow> Err (Protocol ''peer point not on curve'')
           | Some their_point \<Rightarrow>
               bind_result (decompress C (if role_alice st then N_ENCODED else M_ENCODED)) (\<lambda>mpt.
                 let unmasked = their_point - mul_wide mpt (password_scalar st);
                     dh = mul_wide unmasked (private_scalar st)
                 in Ok (sha512 H (transcript st their (compress C dh)))))"

section \<open>What the byte arithmetic computes\<close>

text \<open>Adding a point to itself \<open>n\<close> times.\<close>

fun nmul :: "nat \<Rightarrow> 'p :: ab_group_add \<Rightarrow> 'p" where
  "nmul 0 p = 0"
| "nmul (Suc n) p = p + nmul n p"

lemma nmul_add: "nmul (m + n) p = nmul m p + nmul n p"
  by (induction m) (simp_all add: add.assoc)

lemma nmul_plus: "nmul n (p + q) = nmul n p + nmul n q"
  by (induction n) (simp_all add: algebra_simps)

lemma nmul_mult: "nmul (m * n) p = nmul m (nmul n p)"
  by (induction m) (simp_all add: nmul_add)

lemma nmul_commute: "nmul m (nmul n p) = nmul n (nmul m p)"
  by (metis mult.commute nmul_mult)

lemma nmul_double: "nmul (2 * n) p = nmul n (p + p)"
  by (metis mult.commute nmul_mult nmul_plus mult_2 nmul_add)

lemma low_bit_test: "(drop_bit k (byte :: u8) AND 1 = 1) = bit (unat byte) k"
proof -
  have "(drop_bit k byte AND 1 = 1) = odd (drop_bit k byte)"
    by (simp add: and_one_eq odd_iff_mod_2_eq_one)
  also have "\<dots> = bit byte k" by (simp add: bit_iff_odd_drop_bit)
  also have "\<dots> = bit (unat byte) k" by (simp add: bit_unsigned_iff)
  finally show ?thesis .
qed

lemma mul_bits:
  "foldl (mul_bit byte) (r, a) [0..<k] = (r + nmul (take_bit k (unat byte)) a, nmul (2 ^ k) a)"
proof (induction k)
  case (Suc k)
  have "nmul (2 ^ Suc k) a = nmul (2 ^ k) a + nmul (2 ^ k) a"
    by (simp add: mult_2 nmul_add)
  with Suc show ?case
    by (simp add: mul_bit_def low_bit_test take_bit_Suc_from_most nmul_add algebra_simps del: power_Suc)
qed simp

lemma mul_byte: "foldl (mul_bit byte) (r, a) [0..<8] = (r + nmul (unat byte) a, nmul 256 a)"
proof -
  have "take_bit 8 (unat byte) = unat byte"
    using unsigned_less [of byte, where 'a = nat] by (simp add: take_bit_nat_eq_self)
  then show ?thesis by (simp add: mul_bits)
qed

lemma mul_bytes:
  "fst (foldl (\<lambda>acc byte. foldl (mul_bit byte) acc [0..<8]) (r, a) bs) = r + nmul (le_nat bs) a"
proof (induction bs arbitrary: r a)
  case (Cons b bs)
  have "nmul (unat b + 256 * le_nat bs) a = nmul (unat b) a + nmul (le_nat bs) (nmul 256 a)"
    by (simp only: nmul_add nmul_mult nmul_commute [of 256])
  then show ?case by (simp add: mul_byte Cons add.assoc del: upt_rec_numeral)
qed simp

lemma mul_wide_nmul: "mul_wide p scalar = nmul (le_nat scalar) p"
  by (simp add: mul_wide_def mul_bytes del: upt_rec_numeral)

lemma length_left_shift_3_carry [simp]: "length (left_shift_3_carry c bs) = length bs"
  by (induction bs arbitrary: c) simp_all

lemma or_low_bits:
  fixes a c :: nat
  assumes "c < 8"
  shows "8 * a OR c = 8 * a + c"
proof -
  have c: "take_bit 3 c = c" using assms by (simp add: take_bit_nat_eq_self)
  have "\<not> bit c n" if "3 \<le> n" for n
    using that bit_take_bit_iff [of 3 c n] unfolding c by simp
  moreover have "8 * a = push_bit 3 a" by (simp add: push_bit_eq_mult)
  ultimately show ?thesis
    by (intro disjunctive_add_eq_or [symmetric] bit_eqI)
      (auto simp: bit_simps)
qed

lemma shift_or_carry:
  assumes "unat c < 8"
  shows "unat (push_bit 3 (b :: u8) OR c) + 256 * unat (drop_bit 5 b) = 8 * unat b + unat c"
proof -
  have b: "unat b < 256" using unsigned_less [of b, where 'a = nat] by simp
  have "unat (push_bit 3 b) = 8 * (unat b mod 32)"
    unfolding unsigned_push_bit_eq by (simp add: push_bit_eq_mult take_bit_eq_mod mult_mod_right mult.commute)
  then have "unat (push_bit 3 b OR c) = 8 * (unat b mod 32) + unat c"
    using assms by (simp add: unsigned_or_eq or_low_bits)
  moreover have "unat (drop_bit 5 b) = unat b div 32"
    unfolding unsigned_drop_bit_eq using b by (simp add: drop_bit_eq_div take_bit_nat_eq_self)
  ultimately show ?thesis using mod_mult_div_eq [of "unat b" 32] by linarith
qed

lemma shift_carry_small: "unat (drop_bit 5 (b :: u8)) < 8"
  unfolding unsigned_drop_bit_eq using unsigned_less [of b, where 'a = nat]
  by (simp add: drop_bit_eq_div take_bit_nat_eq_self less_mult_imp_div_less)

lemma low_digit_mod:
  fixes l x m :: nat
  assumes "l < 256"
  shows "l + 256 * (x mod m) = (l + 256 * x) mod (256 * m)"
  using assms by (simp add: mod_mult2_eq)

lemma left_shift_3_carry_value:
  "unat c < 8 \<Longrightarrow>
     le_nat (left_shift_3_carry c bs) = (8 * le_nat bs + unat c) mod 256 ^ length bs"
proof (induction bs arbitrary: c)
  case (Cons b bs)
  let ?d = "unat (drop_bit 5 b)" and ?l = "unat (push_bit 3 b OR c)"
  have l: "?l < 256" using unsigned_less [of "push_bit 3 b OR c", where 'a = nat] by simp
  have "le_nat (left_shift_3_carry c (b # bs))
        = ?l + 256 * ((8 * le_nat bs + ?d) mod 256 ^ length bs)"
    using Cons.IH [OF shift_carry_small] by simp
  also have "\<dots> = (?l + 256 * (8 * le_nat bs + ?d)) mod (256 * 256 ^ length bs)"
    using l by (rule low_digit_mod)
  also have "?l + 256 * (8 * le_nat bs + ?d) = 8 * (unat b + 256 * le_nat bs) + unat c"
    using shift_or_carry [OF Cons.prems, of b] by simp
  finally show ?case by simp
qed simp


lemma left_shift_3_value: "le_nat (left_shift_3 bs) = (8 * le_nat bs) mod 256 ^ length bs"
  by (simp add: left_shift_3_def left_shift_3_carry_value)

lemma length_add_wide_carry [simp]: "length (add_wide_carry c ds ss) = length ds"
  by (induction c ds ss rule: add_wide_carry.induct) (simp_all add: Let_def)

lemma length_add_wide [simp]: "length (add_wide ds ss) = length ds"
  by (simp add: add_wide_def)

lemma add_digit:
  fixes d s :: u8 and c :: u16
  assumes "unat c \<le> 1"
  defines "w \<equiv> (ucast d :: u16) + ucast s + c"
  shows "unat (ucast w :: u8) + 256 * unat (drop_bit 8 w) = unat d + unat s + unat c"
    and "unat (drop_bit 8 w) \<le> 1"
proof -
  have d: "unat d < 256" and s: "unat s < 256"
    using unsigned_less [of d, where 'a = nat] unsigned_less [of s, where 'a = nat] by simp_all
  have "unat ((ucast d :: u16) + ucast s) = unat d + unat s"
  proof -
    have "unat d mod 65536 = unat d" "unat s mod 65536 = unat s"
      and "(unat d + unat s) mod 65536 = unat d + unat s"
      using d s by - (rule mod_less, linarith)+
    then show ?thesis by (simp add: unat_word_ariths(1) unsigned_ucast_eq take_bit_eq_mod)
  qed
  moreover have "(unat d + unat s + unat c) mod 65536 = unat d + unat s + unat c"
    using d s assms(1) by - (rule mod_less, linarith)
  ultimately have w: "unat w = unat d + unat s + unat c"
    by (simp add: w_def unat_word_ariths(1))
  have hi: "unat (drop_bit 8 w) = unat w div 256"
    unfolding unsigned_drop_bit_eq using unsigned_less [of w, where 'a = nat]
    by (simp add: drop_bit_eq_div take_bit_nat_eq_self)
  have lo: "unat (ucast w :: u8) = unat w mod 256"
    by (simp add: unsigned_ucast_eq take_bit_eq_mod)
  show "unat (ucast w :: u8) + 256 * unat (drop_bit 8 w) = unat d + unat s + unat c"
    using hi lo w by simp
  show "unat (drop_bit 8 w) \<le> 1" unfolding hi w using d s assms(1) by linarith
qed

lemma add_wide_carry_value:
  "length ds = length ss \<Longrightarrow> unat c \<le> 1 \<Longrightarrow>
     le_nat (add_wide_carry c ds ss) = (le_nat ds + le_nat ss + unat c) mod 256 ^ length ds"
proof (induction c ds ss rule: add_wide_carry.induct)
  case (1 c d ds s ss)
  define w where "w = (ucast d :: u16) + ucast s + c"
  note dig = add_digit [OF 1(3), of d s, folded w_def]
  let ?l = "unat (ucast w :: u8)" and ?h = "unat (drop_bit 8 w)"
  have l: "?l < 256" using unsigned_less [of "ucast w :: u8", where 'a = nat] by simp
  have "le_nat (add_wide_carry (drop_bit 8 w) ds ss)
        = (le_nat ds + le_nat ss + ?h) mod 256 ^ length ds"
    using 1 dig(2) by (simp add: w_def)
  then have "le_nat (add_wide_carry c (d # ds) (s # ss))
        = ?l + 256 * ((le_nat ds + le_nat ss + ?h) mod 256 ^ length ds)"
    by (simp add: Let_def w_def)
  also have "\<dots> = (?l + 256 * (le_nat ds + le_nat ss + ?h)) mod (256 * 256 ^ length ds)"
    using l by (rule low_digit_mod)
  also have "?l + 256 * (le_nat ds + le_nat ss + ?h)
             = (unat d + 256 * le_nat ds) + (unat s + 256 * le_nat ss) + unat c"
    using dig(1) by simp
  finally show ?case by simp
qed simp_all

lemma add_wide_value:
  "length ds = length ss \<Longrightarrow>
     le_nat (add_wide ds ss) = (le_nat ds + le_nat ss) mod 256 ^ length ds"
  by (simp add: add_wide_def add_wide_carry_value)

section \<open>The password scalar\<close>

definition L :: nat where "L = le_nat ORDER"

lemma length_ORDER [simp]: "length ORDER = 32"
  by (simp add: ORDER_def)

lemma L_value: "L = 2 ^ 252 + 27742317777221228363667143404754949101"
  by (simp add: L_def ORDER_def)

lemma low_bit_of_first:
  assumes "s \<noteq> []" "i < 8"
  shows "(s ! 0 AND push_bit i 1 \<noteq> 0) = odd (le_nat s div 2 ^ i)"
proof -
  obtain b bs where s: "s = b # bs" using assms by (cases s) auto
  have "(b AND push_bit i 1 \<noteq> 0) = bit b i"
    using assms(2) by (simp add: and_exp_eq_0_iff_not_bit push_bit_of_1)
  also have "\<dots> = odd (unat b div 2 ^ i)"
    using assms(2) bit_unsigned_iff [of b i, where 'a = nat] by (simp add: bit_iff_odd [of "unat b"])
  also have "\<dots> = odd ((unat b + 256 * le_nat bs) div 2 ^ i)"
  proof -
    have "(256 :: nat) = 2 ^ i * 2 ^ (8 - i)" using assms(2) by (simp flip: power_add)
    then have "(unat b + 256 * le_nat bs) div 2 ^ i
               = (unat b + 2 ^ i * (2 ^ (8 - i) * le_nat bs)) div 2 ^ i"
      by (simp only: mult.assoc)
    also have "\<dots> = unat b div 2 ^ i + 2 ^ (8 - i) * le_nat bs" by simp
    finally have "(unat b + 256 * le_nat bs) div 2 ^ i = unat b div 2 ^ i + 2 ^ (8 - i) * le_nat bs" .
    then show ?thesis using assms(2) by simp
  qed
  finally show ?thesis by (simp add: s)
qed

lemma L_facts: "odd L" "8 * L + 2 ^ 253 < 256 ^ 32"
  by (simp_all add: L_value)

text \<open>\<open>cleared i r k s\<close>: after \<open>i\<close> rounds the scalar is the start value plus \<open>k\<close> times the constant.\<close>

definition cleared :: "nat \<Rightarrow> nat \<Rightarrow> nat \<Rightarrow> bytes \<Rightarrow> bool" where
  "cleared i r k s \<longleftrightarrow> length s = 32 \<and> le_nat s = r + k * L \<and> k < 2 ^ i \<and> 2 ^ i dvd le_nat s"

lemma clear_step:
  assumes s: "cleared i r k s" and r: "r < 2 ^ 253" and i: "i < 3"
    and ord: "length ord = 32" "le_nat ord = 2 ^ i * L"
  shows "\<exists>k'. cleared (Suc i) r k' (if s ! 0 AND push_bit i 1 \<noteq> 0 then add_wide s ord else s)"
proof -
  have len: "length s = 32" and val: "le_nat s = r + k * L" and k: "k < 2 ^ i" and "2 ^ i dvd le_nat s"
    using s unfolding cleared_def by blast+
  then obtain q where q: "le_nat s = 2 ^ i * q" by blast
  have test: "(s ! 0 AND push_bit i 1 \<noteq> 0) = odd q"
  proof -
    have "s \<noteq> []" "i < 8" using len i by auto
    from low_bit_of_first [OF this] q show ?thesis by simp
  qed
  have "(k + 2 ^ i) * L \<le> 8 * L"
  proof (rule mult_right_mono)
    have "(2 :: nat) ^ Suc i \<le> 2 ^ 3" using i by (intro power_increasing) auto
    then show "k + 2 ^ i \<le> 8" using k by simp
  qed simp
  then have "le_nat s + 2 ^ i * L < 256 ^ 32"
    using L_facts(2) r val by (simp add: distrib_right)
  then have add: "le_nat (add_wide s ord) = le_nat s + 2 ^ i * L"
    using len ord by (simp add: add_wide_value)
  show ?thesis
  proof (cases "odd q")
    case True
    then have "even (q + L)" using L_facts(1) by simp
    then have "2 * 2 ^ i dvd 2 ^ i * (q + L)" by (metis dvd_refl mult.commute mult_dvd_mono)
    then have "cleared (Suc i) r (k + 2 ^ i) (add_wide s ord)"
      using len k by (simp add: cleared_def add val [symmetric] q [symmetric] distrib_left)
        (simp add: val distrib_right)
    then show ?thesis using True test by auto
  next
    case False
    then have "2 * 2 ^ i dvd le_nat s" by (simp add: q mult.commute)
    then have "cleared (Suc i) r k s" using len k by (simp add: cleared_def val)
    then show ?thesis using False test by auto
  qed
qed

lemma clear_low_bits_cleared:
  "cleared i r k s \<Longrightarrow> r < 2 ^ 253 \<Longrightarrow> i + n \<le> 3 \<Longrightarrow> length ord = 32 \<Longrightarrow> le_nat ord = 2 ^ i * L \<Longrightarrow>
     \<exists>k'. cleared (i + n) r k' (clear_low_bits n i s ord)"
proof (induction n arbitrary: i k s ord)
  case (Suc n)
  have i: "i < 3" using Suc.prems(3) by simp
  obtain k' where k': "cleared (Suc i) r k' (if s ! 0 AND push_bit i 1 \<noteq> 0 then add_wide s ord else s)"
    using clear_step [OF Suc.prems(1,2) i Suc.prems(4,5)] by blast
  have "2 ^ Suc i * L \<le> 8 * L"
    using power_increasing [of "Suc i" 3 "2 :: nat"] i by simp
  then have "2 * (2 ^ i * L) < 256 ^ 32" using L_facts(2) unfolding power_Suc mult.assoc by linarith
  then have "le_nat (add_wide ord ord) = 2 ^ Suc i * L"
    using Suc.prems(4,5) by (simp add: add_wide_value flip: mult_2)
  then show ?case
    using Suc.IH [OF k' Suc.prems(2), of "add_wide ord ord"] Suc.prems(3,4) by simp
qed (auto)

text \<open>The order of the prime-order subgroup of Ed25519.\<close>

definition ed25519_order :: nat where
  "ed25519_order = 2 ^ 252 + 27742317777372353535851937790883648493"

lemma password_scalar_form:
  assumes "length (sc_reduce H h) = 32" "le_nat (sc_reduce H h) < ed25519_order"
  obtains k where "cleared 3 (le_nat (sc_reduce H h)) k (clear_low_bits 3 0 (sc_reduce H h) ORDER)"
proof -
  have "cleared 0 (le_nat (sc_reduce H h)) 0 (sc_reduce H h)"
    using assms by (simp add: cleared_def)
  moreover have "le_nat (sc_reduce H h) < 2 ^ 253"
    using assms(2) by (simp add: ed25519_order_def)
  ultimately show ?thesis
    using clear_low_bits_cleared [of 0 _ 0 _ 3 ORDER] that by (auto simp: L_def)
qed

lemma L_multiple_mod_order:
  assumes "k < 8"
  shows "(r + k * L) mod ed25519_order = r mod ed25519_order \<longleftrightarrow> k = 0"
proof
  let ?d = "ed25519_order - L"
  assume "(r + k * L) mod ed25519_order = r mod ed25519_order"
  then have "ed25519_order dvd k * L" by (metis add_diff_cancel_left' le_add1 mod_eq_dvd_iff_nat)
  moreover have "k * ed25519_order = k * L + k * ?d"
    by (simp add: L_value ed25519_order_def)
  ultimately have "ed25519_order dvd k * ?d"
    by (metis dvd_add_right_iff dvd_triv_right)
  moreover have "k * ?d < ed25519_order"
  proof -
    have "k * ?d \<le> 7 * ?d" using assms by simp
    then show ?thesis by (simp add: L_value ed25519_order_def)
  qed
  ultimately have "k * ?d = 0" by (metis dvd_imp_le not_le not_gr_zero)
  then show "k = 0" by (simp add: L_value ed25519_order_def)
qed simp

section \<open>Agreement\<close>

lemma nmul_diff: "nmul n (p - q) = nmul n p - nmul n (q :: 'p :: ab_group_add)"
  using nmul_plus [of n "p - q" q] by (simp add: algebra_simps)

lemma process_generated:
  assumes "\<And>p. decompress_point C (compress C p) = Some p"
    and "decompress_point C (if role_alice a then N_ENCODED else M_ENCODED) = Some q"
    and "generated a" "private_scalar a = x"
    and "msg = compress C (nmul y (base C) + nmul (le_nat (password_scalar a)) q)"
  shows "process_msg H C msg a
         = Ok (sha512 H (transcript a msg (compress C (nmul (le_nat x) (nmul y (base C))))))"
  using assms by (simp add: process_msg_def decompress_def mul_wide_nmul)

lemma generate_msg_total:
  assumes "decompress_point C (if role_alice st then M_ENCODED else N_ENCODED) = Some q"
  shows "\<exists>msg st'. generate_msg H C r st = Some (msg, st')"
  using assms by (simp add: generate_msg_def decompress_def Let_def)

lemma role_spake2_new [simp]: "role_alice (spake2_new H alice pw) = alice"
  by (simp add: spake2_new_def Let_def)

lemma password_scalar_residue:
  assumes "length (sc_reduce H h) = 32" and "le_nat (sc_reduce H h) = le_nat h mod ed25519_order"
  defines "s \<equiv> le_nat (clear_low_bits 3 0 (sc_reduce H h) ORDER)"
  shows "8 dvd s" and "s mod ed25519_order = le_nat h mod ed25519_order \<longleftrightarrow> 8 dvd le_nat h mod ed25519_order"
proof -
  let ?r = "le_nat h mod ed25519_order"
  have r: "?r < ed25519_order" by (simp add: ed25519_order_def)
  obtain k where k: "cleared 3 ?r k (clear_low_bits 3 0 (sc_reduce H h) ORDER)"
    using password_scalar_form [OF assms(1)] assms(2) r by metis
  then have "s = ?r + k * L \<and> k < 2 ^ 3 \<and> 2 ^ 3 dvd s" unfolding cleared_def s_def by blast
  then have s: "s = ?r + k * L" and k8: "k < 2 ^ 3" and dvd3: "2 ^ 3 dvd s" by blast+
  from k8 have "k < 8" by simp
  from dvd3 have dvd: "8 dvd s" by simp
  show "8 dvd s" by (rule dvd)
  have "s mod ed25519_order = ?r \<longleftrightarrow> k = 0"
    using L_multiple_mod_order [OF \<open>k < 8\<close>, of ?r] by (simp add: s)
  also have "\<dots> \<longleftrightarrow> 8 dvd ?r"
  proof
    assume "8 dvd ?r"
    then have "8 dvd k * L" using dvd unfolding s by (metis dvd_add_right_iff)
    moreover have "coprime 8 L" using L_facts(1) coprime_power_left_iff [of 2 3 L] by simp
    ultimately have "8 dvd k" by (simp add: coprime_dvd_mult_left_iff)
    then show "k = 0" using \<open>k < 8\<close> by (metis dvd_imp_le not_le not_gr_zero)
  next
    assume "k = 0" then show "8 dvd ?r" using dvd by (simp add: s)
  qed
  finally show "s mod ed25519_order = ?r \<longleftrightarrow> 8 dvd ?r" .
qed

section \<open>A peer with a scalar of its own\<close>

text \<open>
  The peer may use another scalar for the same password, as long as the two act alike on the mask
  points. Two multiples of eight with the same residue modulo the order of Ed25519 do, in a group
  of eight times that many elements.
\<close>

lemma nmul_mod:
  assumes "nmul m p = (0 :: 'p :: ab_group_add)"
  shows "nmul a p = nmul (a mod m) p"
proof -
  have zero: "nmul k (0 :: 'p) = 0" for k by (induction k) simp_all
  have "nmul a p = nmul (a div m * m + a mod m) p" by simp
  also have "\<dots> = nmul (a div m) (nmul m p) + nmul (a mod m) p" by (simp only: nmul_add nmul_mult)
  finally show ?thesis by (simp add: assms zero)
qed

lemma residue_of_product:
  fixes d a b q :: nat
  assumes "coprime d q" "d dvd a" "d dvd b" "a mod q = b mod q"
  shows "a mod (d * q) = b mod (d * q)"
proof -
  have "a mod (d * q) = b mod (d * q)" if "b \<le> a" "d dvd a" "d dvd b" "a mod q = b mod q" for a b
  proof -
    have "q dvd a - b" using that(1,4) by (metis mod_eq_dvd_iff_nat)
    moreover have "d dvd a - b" using that(2,3) by (rule dvd_diff_nat)
    ultimately have "d * q dvd a - b" using assms(1) by (metis divides_mult)
    then show ?thesis using that(1) by (metis mod_eq_dvd_iff_nat)
  qed
  then show ?thesis using assms(2-4) by (metis nat_le_linear)
qed

lemma same_residue_acts_alike:
  assumes "nmul (8 * ed25519_order) p = 0" and "8 dvd a" "8 dvd b"
    and "a mod ed25519_order = b mod ed25519_order"
  shows "nmul a p = nmul b p"
proof -
  have "coprime (8 :: nat) ed25519_order"
    using coprime_power_left_iff [of 2 3 ed25519_order] by (simp add: ed25519_order_def)
  then have "a mod (8 * ed25519_order) = b mod (8 * ed25519_order)"
    by (rule residue_of_product [OF _ assms(2-4)])
  then show ?thesis
    using nmul_mod [OF assms(1), of a] nmul_mod [OF assms(1), of b] by simp
qed

lemma process_msg_of_peer:
  assumes "\<And>p. decompress_point C (compress C p) = Some p"
    and "decompress_point C M_ENCODED = Some m" "decompress_point C N_ENCODED = Some n"
    and "generate_msg H C r (spake2_new H True pw) = Some (ma, a)"
    and "nmul w m = nmul (le_nat (password_scalar (spake2_new H True pw :: 'p :: ab_group_add spake2))) m"
    and "nmul w n = nmul (le_nat (password_scalar (spake2_new H True pw :: 'p spake2))) n"
    and "mb = compress C (nmul y (base C) + nmul w n)"
    and "decompress_point C ma = Some pa"
  shows "process_msg H C mb a
    = Ok (sha512 H (length_prefixed CLIENT_NAME @ length_prefixed SERVER_NAME
        @ length_prefixed ma @ length_prefixed mb
        @ length_prefixed (compress C (nmul y (pa - nmul w m))) @ length_prefixed (sha512 H pw)))"
proof -
  let ?s = "password_scalar (spake2_new H True pw :: 'p spake2)"
  have a: "generated a" "role_alice a" "password_scalar a = ?s" "my_msg a = ma" "my_name a = CLIENT_NAME"
    "their_name a = SERVER_NAME" "password_hash a = sha512 H pw"
    and ma: "ma = compress C (nmul (le_nat (private_scalar a)) (base C) + nmul (le_nat ?s) m)"
    using assms(4) by (auto simp: generate_msg_def decompress_def Let_def assms(2) spake2_new_def mul_wide_nmul)
  have "pa = nmul (le_nat (private_scalar a)) (base C) + nmul w m"
    using assms(1,5,8) ma by simp
  then have "nmul y (pa - nmul w m) = nmul (le_nat (private_scalar a)) (nmul y (base C))"
    by (simp add: nmul_commute)
  then show ?thesis
    using process_generated [OF assms(1), where a = a and q = n and msg = mb and H = H and y = y] a assms(3,6,7)
    by (simp add: transcript_def)
qed

end
