(* ===== verification/Pair_Packet.thy ===== *)
theory Pair_Packet
  imports Pair_Spake2
begin

text \<open>
  The messages of wireless pairing: the packet header and the \<open>PeerInfo\<close> record
  (\<open>adb-pairing/src/packet.rs\<close>), the QR payload (\<open>qr.rs\<close>) and the cipher that carries \<open>PeerInfo\<close>
  (\<open>cipher.rs\<close>), with HKDF and AES-128-GCM as parameters. Headers and records are read back as
  written, the QR payload names exactly one session, and a record sealed on one side opens on
  the other, in order.
\<close>

section \<open>Packets\<close>

definition VERSION :: u8 where "VERSION = 1"
definition TYPE_SPAKE2_MSG :: u8 where "TYPE_SPAKE2_MSG = 0"
definition TYPE_PEER_INFO :: u8 where "TYPE_PEER_INFO = 1"
definition HEADER_LEN :: nat where "HEADER_LEN = 6"
definition MAX_PAYLOAD :: u32 where "MAX_PAYLOAD = 16384"
definition PEER_INFO_SIZE :: nat where "PEER_INFO_SIZE = 8192"

lemmas pair_consts =
  VERSION_def TYPE_SPAKE2_MSG_def TYPE_PEER_INFO_def HEADER_LEN_def MAX_PAYLOAD_def PEER_INFO_SIZE_def

definition encode_header :: "u8 \<Rightarrow> nat \<Rightarrow> pair_error + bytes" where
  "encode_header packet_type payload_len =
     (if payload_len = 0 \<or> payload_len > unat MAX_PAYLOAD then Err (Protocol ''bad payload length'')
      else Ok ([VERSION, packet_type] @ to_be32 (word_of_nat payload_len)))"

definition decode_header :: "bytes \<Rightarrow> pair_error + (u8 \<times> nat)" where
  "decode_header header =
     (if header ! 0 \<noteq> VERSION then Err (Protocol ''bad pairing packet version'')
      else if header ! 1 \<noteq> TYPE_SPAKE2_MSG \<and> header ! 1 \<noteq> TYPE_PEER_INFO
      then Err (Protocol ''unknown pairing packet type'')
      else let len = unat (from_be32 [header ! 2, header ! 3, header ! 4, header ! 5])
           in if len = 0 \<or> len > unat MAX_PAYLOAD then Err (Protocol ''bad pairing packet length'')
              else Ok (header ! 1, len))"

definition peer_info :: "string \<Rightarrow> pair_error + bytes" where
  "peer_info public_key =
     (let data = as_bytes public_key
      in if length data \<ge> PEER_INFO_SIZE - 1 then Err (Protocol ''public key too long for PeerInfo'')
         else Ok (0 # data @ replicate (PEER_INFO_SIZE - 1 - length data) 0))"

definition parse_peer_info :: "bytes \<Rightarrow> pair_error + (u8 \<times> bytes)" where
  "parse_peer_info record_bytes =
     (if length record_bytes \<noteq> PEER_INFO_SIZE then Err (Protocol ''PeerInfo has wrong size'')
      else Ok (record_bytes ! 0, rev (dropWhile (\<lambda>b. b = 0) (rev (drop 1 record_bytes)))))"

lemma length_4E:
  assumes "length xs = 4"
  obtains a b c d where "xs = [a, b, c, d]"
  using assms that by (auto simp: length_Suc_conv numeral_eq_Suc)

lemma decode_encode_header:
  assumes "encode_header ty n = Ok h" "ty = TYPE_SPAKE2_MSG \<or> ty = TYPE_PEER_INFO"
  shows "length h = HEADER_LEN" "decode_header h = Ok (ty, n)"
proof -
  have n: "0 < n" "n \<le> 16384" and h: "h = [VERSION, ty] @ to_be32 (word_of_nat n)"
    using assms(1) by (auto simp: encode_header_def MAX_PAYLOAD_def split: if_splits)
  obtain a b c d where abcd: "to_be32 (word_of_nat n) = [a, b, c, d]"
    using be32.enc_length by (rule length_4E)
  then have "from_be32 [a, b, c, d] = (word_of_nat n :: u32)" by (metis be32.dec_enc)
  then show "length h = HEADER_LEN" "decode_header h = Ok (ty, n)"
    using n assms(2) by (auto simp: h abcd decode_header_def HEADER_LEN_def MAX_PAYLOAD_def Let_def)
qed

lemma encode_decode_header:
  assumes "length h = HEADER_LEN" "decode_header h = Ok (ty, n)"
  shows "encode_header ty n = Ok h"
proof -
  obtain v t a b c d where h: "h = [v, t, a, b, c, d]"
    using assms(1) by (auto simp: length_Suc_conv numeral_eq_Suc HEADER_LEN_def)
  have "v = VERSION" "t = ty" "n = unat (from_be32 [a, b, c, d])" "0 < n" "n \<le> unat MAX_PAYLOAD"
    using assms(2) by (auto simp: h decode_header_def Let_def split: if_splits)
  then show ?thesis using be32.enc_dec [of "[a, b, c, d]"] by (simp add: encode_header_def h)
qed

lemma length_peer_info: "peer_info key = Ok info \<Longrightarrow> length info = PEER_INFO_SIZE"
  by (auto simp: peer_info_def PEER_INFO_SIZE_def Let_def split: if_splits)

lemma dropWhile_zeros: "dropWhile (\<lambda>b. b = 0) (replicate n 0 @ xs) = dropWhile (\<lambda>b. b = 0) (xs :: bytes)"
  by (induction n) simp_all

lemma parse_peer_info_of_key:
  assumes "peer_info key = Ok info" "key = '''' \<or> last (as_bytes key) \<noteq> 0"
  shows "parse_peer_info info = Ok (0, as_bytes key)"
proof -
  have info: "info = 0 # as_bytes key @ replicate (PEER_INFO_SIZE - 1 - length key) 0"
    using assms(1) by (auto simp: peer_info_def Let_def split: if_splits)
  have "dropWhile (\<lambda>b. b = 0) (rev (as_bytes key)) = rev (as_bytes key)"
    using assms(2) by (cases "as_bytes key" rule: rev_cases) (auto simp: as_bytes_def)
  then show ?thesis
    using length_peer_info [OF assms(1)] by (simp add: parse_peer_info_def info dropWhile_zeros)
qed

section \<open>QR sessions\<close>

definition INSTANCE_PREFIX :: string where "INSTANCE_PREFIX = ''studio-''"
definition INSTANCE_SUFFIX_LEN :: nat where "INSTANCE_SUFFIX_LEN = 10"
definition PASSWORD_LEN :: nat where "PASSWORD_LEN = 16"

definition ALPHABET :: string where
  "ALPHABET = ''ABCDEFGHIJKLMNOPQRSTUVWXYZabcdefghijklmnopqrstuvwxyz0123456789''"

record QrSession =
  qr_instance :: string
  qr_password :: string

text \<open>\<open>random\<close>, with the bytes read from \<open>/dev/urandom\<close>.\<close>

definition qr_random :: "bytes \<Rightarrow> string" where
  "qr_random buf = map (\<lambda>b. ALPHABET ! (unat b mod length ALPHABET)) buf"

definition new_session :: "bytes \<Rightarrow> bytes \<Rightarrow> QrSession" where
  "new_session buf buf' = \<lparr>qr_instance = INSTANCE_PREFIX @ qr_random buf, qr_password = qr_random buf'\<rparr>"

definition payload :: "QrSession \<Rightarrow> string" where
  "payload session =
     ''WIFI:T:ADB;S:'' @ qr_instance session @ '';P:'' @ qr_password session @ '';;''"

definition describe :: "QrSession \<Rightarrow> string" where
  "describe session =
     ''Instance '' @ qr_instance session @ ''  '' @ map char_of_byte [0xC2, 0xB7] @ ''  Password ''
     @ qr_password session"

text \<open>How a scanner reads the payload back: the fields between the semicolons.\<close>

definition scan :: "string \<Rightarrow> QrSession option" where
  "scan s =
     (case split_on (CHR '';'') s of
        t # i # p # _ \<Rightarrow>
          if t = ''WIFI:T:ADB'' \<and> take 2 i = ''S:'' \<and> take 2 p = ''P:''
          then Some \<lparr>qr_instance = drop 2 i, qr_password = drop 2 p\<rparr> else None
      | _ \<Rightarrow> None)"

lemma scan_payload:
  assumes "CHR '';'' \<notin> set (qr_instance q)" "CHR '';'' \<notin> set (qr_password q)"
  shows "scan (payload q) = Some q"
proof -
  have "payload q = ''WIFI:T:ADB'' @ CHR '';'' # (''S:'' @ qr_instance q) @ CHR '';''
          # (''P:'' @ qr_password q) @ CHR '';'' # '';''"
    by (simp add: payload_def)
  then have "split_on (CHR '';'') (payload q)
      = ''WIFI:T:ADB'' # (''S:'' @ qr_instance q) # (''P:'' @ qr_password q) # split_on (CHR '';'') '';''"
    using assms by (simp only: split_on_sep) (simp add: split_on_none split_on_sep)
  then show ?thesis by (simp add: scan_def)
qed

lemma qr_random_alphabet: "set (qr_random buf) \<subseteq> set ALPHABET"
proof -
  have "0 < length ALPHABET" by (simp add: ALPHABET_def)
  then show ?thesis by (auto simp: qr_random_def)
qed

lemma no_separator: "CHR '';'' \<notin> set (qr_random buf)"
proof -
  have "CHR '';'' \<notin> set ALPHABET" by (simp add: ALPHABET_def)
  then show ?thesis using qr_random_alphabet [of buf] by blast
qed

lemma scan_new_session: "scan (payload (new_session buf buf')) = Some (new_session buf buf')"
  by (rule scan_payload) (simp_all add: new_session_def INSTANCE_PREFIX_def no_separator)

section \<open>The cipher\<close>

record aead =
  hkdf_expand :: "bytes \<Rightarrow> bytes \<Rightarrow> bytes"
  gcm_seal :: "bytes \<Rightarrow> bytes \<Rightarrow> bytes \<Rightarrow> bytes"
  gcm_open :: "bytes \<Rightarrow> bytes \<Rightarrow> bytes \<Rightarrow> bytes option"

definition HKDF_INFO :: bytes where "HKDF_INFO = as_bytes ''adb pairing_auth aes-128-gcm key''"

definition derive_key :: "aead \<Rightarrow> bytes \<Rightarrow> bytes" where
  "derive_key A shared_secret = hkdf_expand A shared_secret HKDF_INFO"

definition cipher_nonce :: "u64 \<Rightarrow> bytes" where
  "cipher_nonce sequence = to_le64 sequence @ replicate 4 0"

record PairingCipher =
  enc_key :: bytes
  dec_key :: bytes
  enc_sequence :: u64
  dec_sequence :: u64

definition cipher_new :: "aead \<Rightarrow> bytes \<Rightarrow> PairingCipher" where
  "cipher_new A shared_secret =
     (let key = derive_key A shared_secret
      in \<lparr>enc_key = key, dec_key = key, enc_sequence = 0, dec_sequence = 0\<rparr>)"

definition cipher_encrypt :: "aead \<Rightarrow> bytes \<Rightarrow> PairingCipher \<Rightarrow> bytes \<times> PairingCipher" where
  "cipher_encrypt A plaintext c =
     (gcm_seal A (enc_key c) (cipher_nonce (enc_sequence c)) plaintext,
      c\<lparr>enc_sequence := enc_sequence c + 1\<rparr>)"

definition cipher_decrypt :: "aead \<Rightarrow> bytes \<Rightarrow> PairingCipher \<Rightarrow> (pair_error + bytes) \<times> PairingCipher" where
  "cipher_decrypt A ciphertext c =
     (case gcm_open A (dec_key c) (cipher_nonce (dec_sequence c)) ciphertext of
        None \<Rightarrow> (Err CodeMismatch, c)
      | Some plaintext \<Rightarrow> (Ok plaintext, c\<lparr>dec_sequence := dec_sequence c + 1\<rparr>))"

text \<open>Sealing a list of records in turn, and opening a list of records in turn.\<close>

fun encrypt_all :: "aead \<Rightarrow> bytes list \<Rightarrow> PairingCipher \<Rightarrow> bytes list" where
  "encrypt_all A [] c = []"
| "encrypt_all A (p # ps) c = (case cipher_encrypt A p c of (s, c') \<Rightarrow> s # encrypt_all A ps c')"

fun decrypt_all :: "aead \<Rightarrow> bytes list \<Rightarrow> PairingCipher \<Rightarrow> (pair_error + bytes) list" where
  "decrypt_all A [] c = []"
| "decrypt_all A (s # ss) c = (case cipher_decrypt A s c of (r, c') \<Rightarrow> r # decrypt_all A ss c')"

lemma nonce_distinct: "cipher_nonce m = cipher_nonce n \<longleftrightarrow> m = n"
  by (simp add: cipher_nonce_def le64.enc_inj)

lemma length_nonce: "length (cipher_nonce n) = 12"
  by (simp add: cipher_nonce_def)

lemma decrypt_all_encrypt_all:
  assumes "\<And>k n p. gcm_open A k n (gcm_seal A k n p) = Some p"
  shows "dec_key d = enc_key c \<Longrightarrow> dec_sequence d = enc_sequence c \<Longrightarrow>
    decrypt_all A (encrypt_all A ps c) d = map Ok ps"
  by (induction ps arbitrary: c d) (simp_all add: cipher_encrypt_def cipher_decrypt_def assms)

text \<open>A record that does not open leaves the receiver where it was.\<close>

lemma decrypt_failure_keeps_cipher:
  "cipher_decrypt A s c = (Err e, c') \<Longrightarrow> e = CodeMismatch \<and> c' = c"
  by (auto simp: cipher_decrypt_def split: option.splits)

end
