(* ===== verification/Pair_Client.thy ===== *)
theory Pair_Client
  imports Pair_Packet
begin

text \<open>
  The pairing client (\<open>adb-pairing/src/client.rs\<close>): reading and writing exactly the bytes asked for
  over the TLS stream, and the pairing dialogue. The stream, its clock, connecting and the TLS
  handshake with its exporter are parameters. The lemmas show that the loops end, what they
  return, that the client stops at the first refused step, and what it returns and sends when the
  phone's message leads to the phone's key.
\<close>

text \<open>An I/O error: its kind, as far as the code asks, with its text.\<close>

datatype io_error = UnexpectedEof string | OtherIo string

fun io_to_string :: "io_error \<Rightarrow> string" where
  "io_to_string (UnexpectedEof e) = e"
| "io_to_string (OtherIo e) = e"

fun read_failure :: "io_error \<Rightarrow> pair_error" where
  "read_failure (UnexpectedEof e) = Io ''peer closed during pairing''"
| "read_failure (OtherIo e) = Io e"

text \<open>
  The stream: the clock, a read of at most so many bytes, a write that says how many bytes it
  took, and everything up to the exporter.
\<close>

record 't tls_stream =
  tls_now :: "'t \<Rightarrow> nat \<times> 't"
  tls_read :: "nat \<Rightarrow> 't \<Rightarrow> (io_error + bytes) \<times> 't"
  tls_write :: "bytes \<Rightarrow> 't \<Rightarrow> (io_error + nat) \<times> 't"
  tls_establish :: "'t \<Rightarrow> (pair_error + bytes) \<times> 't"

definition peer_closed :: pair_error where
  "peer_closed = Io ''peer closed during pairing''"

function read_exact_from :: "'t tls_stream \<Rightarrow> nat \<Rightarrow> nat \<Rightarrow> bytes \<Rightarrow> 't \<Rightarrow> (pair_error + bytes) \<times> 't" where
  "read_exact_from T n deadline acc t =
     (if n \<le> length acc then (Ok acc, t)
      else case tls_now T t of (now, t1) \<Rightarrow>
        if now > deadline then (Err Timeout, t1)
        else case tls_read T (n - length acc) t1 of
          (Inl e, t2) \<Rightarrow> (Err (read_failure e), t2)
        | (Inr bs, t2) \<Rightarrow>
            if bs = [] then (Err peer_closed, t2)
            else read_exact_from T n deadline (acc @ take (n - length acc) bs) t2)"
  by pat_completeness auto
termination
  by (relation "measure (\<lambda>(T, n, deadline, acc, t). n - length acc)") (auto simp: min_def simp flip: length_greater_0_conv)

definition read_exact :: "'t tls_stream \<Rightarrow> nat \<Rightarrow> nat \<Rightarrow> 't \<Rightarrow> (pair_error + bytes) \<times> 't" where
  "read_exact T n deadline t = read_exact_from T n deadline [] t"

function write_all :: "'t tls_stream \<Rightarrow> bytes \<Rightarrow> nat \<Rightarrow> 't \<Rightarrow> (pair_error + unit) \<times> 't" where
  "write_all T buf deadline t =
     (if buf = [] then (Ok (), t)
      else case tls_now T t of (now, t1) \<Rightarrow>
        if now > deadline then (Err Timeout, t1)
        else case tls_write T buf t1 of
          (Inl e, t2) \<Rightarrow> (Err (Io (io_to_string e)), t2)
        | (Inr n, t2) \<Rightarrow>
            if n = 0 then (Err peer_closed, t2) else write_all T (drop n buf) deadline t2)"
  by pat_completeness auto
termination
  by (relation "measure (\<lambda>(T, buf, deadline, t). length buf)") auto

declare read_exact_from.simps [simp del] write_all.simps [simp del]

text \<open>The question mark operator on a call that also changes the stream.\<close>

definition then_io :: "('e + 'a) \<times> 't \<Rightarrow> ('a \<Rightarrow> 't \<Rightarrow> ('e + 'b) \<times> 't) \<Rightarrow> ('e + 'b) \<times> 't" where
  "then_io r f = (case r of (Inl e, t) \<Rightarrow> (Inl e, t) | (Inr a, t) \<Rightarrow> f a t)"

text \<open>A packet of the given type: header, check of the type, payload.\<close>

definition read_packet ::
  "'t tls_stream \<Rightarrow> u8 \<Rightarrow> string \<Rightarrow> nat \<Rightarrow> 't \<Rightarrow> (pair_error + bytes) \<times> 't" where
  "read_packet T want complaint deadline t =
     then_io (read_exact T HEADER_LEN deadline t) (\<lambda>header t.
       then_io (decode_header header, t) (\<lambda>(kind, len) t.
         if kind \<noteq> want then (Err (Protocol complaint), t)
         else read_exact T len deadline t))"

definition write_packet ::
  "'t tls_stream \<Rightarrow> u8 \<Rightarrow> bytes \<Rightarrow> nat \<Rightarrow> 't \<Rightarrow> (pair_error + unit) \<times> 't" where
  "write_packet T kind body deadline t =
     then_io (encode_header kind (length body), t) (\<lambda>header t.
       then_io (write_all T header deadline t) (\<lambda>_ t.
         write_all T body deadline t))"

record 'p crypto =
  cr_hash :: hashes
  cr_curve :: "'p curve"
  cr_aead :: aead

text \<open>
  \<open>pair\<close>: \<open>None\<close> is the panic of a mask point that does not decompress. \<open>random\<close> is what
  \<open>generate_msg\<close> reads.
\<close>

definition pair ::
  "'t tls_stream \<Rightarrow> ('p :: ab_group_add) crypto \<Rightarrow> bytes \<Rightarrow> bytes \<Rightarrow> string \<Rightarrow> nat \<Rightarrow> 't
     \<Rightarrow> ((pair_error + bytes) \<times> 't) option" where
  "pair T X random password pubkey timeout t0 =
     (case tls_now T t0 of (now, t) \<Rightarrow>
      let deadline = now + timeout; H = cr_hash X; C = cr_curve X; A = cr_aead X
      in case tls_establish T t of
        (Inl e, t) \<Rightarrow> Some (Err e, t)
      | (Inr exporter, t) \<Rightarrow>
         (case generate_msg H C random (spake2_new H True (password @ exporter)) of
            None \<Rightarrow> None
          | Some (msg, spake) \<Rightarrow> Some
             (then_io (write_packet T TYPE_SPAKE2_MSG msg deadline t) (\<lambda>_ t.
              then_io (read_packet T TYPE_SPAKE2_MSG ''expected a SPAKE2 message'' deadline t) (\<lambda>their_msg t.
              if length their_msg \<noteq> 32 then (Err (Protocol ''SPAKE2 message has wrong size''), t)
              else then_io (process_msg H C their_msg spake, t) (\<lambda>shared t.
              let cipher = cipher_new A shared
              in then_io (peer_info pubkey, t) (\<lambda>ours t.
              case cipher_encrypt A ours cipher of (sealed, cipher) \<Rightarrow>
              then_io (write_packet T TYPE_PEER_INFO sealed deadline t) (\<lambda>_ t.
              then_io (read_packet T TYPE_PEER_INFO ''expected PeerInfo'' deadline t) (\<lambda>sealed t.
              then_io (fst (cipher_decrypt A sealed cipher), t) (\<lambda>plain t.
              if length plain \<noteq> PEER_INFO_SIZE then (Err (Protocol ''PeerInfo has wrong size''), t)
              else (Ok plain, t)))))))))))"

section \<open>The loops\<close>

lemma then_io_simps [simp]:
  "then_io (Inl e, t) f = (Inl e, t)"
  "then_io (Inr a, t) f = f a t"
  by (simp_all add: then_io_def)

lemma then_io_Ok: "fst (then_io r f) = Ok b \<longleftrightarrow> (\<exists>a t. r = (Ok a, t) \<and> fst (f a t) = Ok b)"
  by (auto simp: then_io_def split: prod.splits sum.splits)

lemma read_exact_from_length:
  "length acc \<le> n \<Longrightarrow> read_exact_from T n deadline acc t = (Ok bs, t') \<Longrightarrow> length bs = n"
proof (induction T n deadline acc t rule: read_exact_from.induct)
  case (1 T n deadline acc t)
  show ?case
  proof (cases "n \<le> length acc")
    case True
    then show ?thesis using 1(2,3) by (subst (asm) read_exact_from.simps) auto
  next
    case False
    obtain now t1 where now: "tls_now T t = (now, t1)" by force
    obtain chunk t2 where chunk: "\<not> now > deadline" "tls_read T (n - length acc) t1 = (Inr chunk, t2)" "chunk \<noteq> []"
      and rest: "read_exact_from T n deadline (acc @ take (n - length acc) chunk) t2 = (Ok bs, t')"
      using 1(3) False now
      by (subst (asm) read_exact_from.simps) (auto split: prod.splits sum.splits if_splits)
    show ?thesis
      using 1(1) [OF False now [symmetric] chunk(1) chunk(2) [symmetric] refl chunk(3) _ rest] False by simp
  qed
qed

lemma read_exact_length: "read_exact T n deadline t = (Ok bs, t') \<Longrightarrow> length bs = n"
  using read_exact_from_length [of "[]" n T deadline t bs t'] by (simp add: read_exact_def)

section \<open>A link that delivers\<close>

text \<open>
  What the client may expect of a working connection that does not pass the deadline: a read
  hands over a non-empty front part of what the peer sent, a write takes a non-empty front part
  of what it is given.
\<close>

definition delivers ::
  "'t tls_stream \<Rightarrow> ('t \<Rightarrow> bytes) \<Rightarrow> ('t \<Rightarrow> bytes) \<Rightarrow> nat \<Rightarrow> bool" where
  "delivers T inbox outbox deadline \<longleftrightarrow>
     (\<forall>t. \<exists>now t'. tls_now T t = (now, t') \<and> now \<le> deadline \<and> inbox t' = inbox t \<and> outbox t' = outbox t)
     \<and> (\<forall>n t. 0 < n \<longrightarrow> inbox t \<noteq> [] \<longrightarrow>
          (\<exists>bs t'. tls_read T n t = (Ok bs, t') \<and> bs \<noteq> [] \<and> length bs \<le> n
                   \<and> inbox t = bs @ inbox t' \<and> outbox t' = outbox t))
     \<and> (\<forall>buf t. buf \<noteq> [] \<longrightarrow>
          (\<exists>n t'. tls_write T buf t = (Ok n, t') \<and> 0 < n \<and> n \<le> length buf
                  \<and> outbox t' = outbox t @ take n buf \<and> inbox t' = inbox t))"

lemma delivers_now:
  assumes "delivers T inbox outbox deadline"
  obtains now t' where "tls_now T t = (now, t')" "now \<le> deadline" "inbox t' = inbox t" "outbox t' = outbox t"
  using assms unfolding delivers_def by blast

lemma delivers_read:
  assumes "delivers T inbox outbox deadline" "0 < n" "inbox t \<noteq> []"
  obtains bs t' where "tls_read T n t = (Ok bs, t')" "bs \<noteq> []" "length bs \<le> n"
    "inbox t = bs @ inbox t'" "outbox t' = outbox t"
  using assms unfolding delivers_def by blast

lemma delivers_write:
  assumes "delivers T inbox outbox deadline" "buf \<noteq> []"
  obtains n t' where "tls_write T buf t = (Ok n, t')" "0 < n" "n \<le> length buf"
    "outbox t' = outbox t @ take n buf" "inbox t' = inbox t"
  using assms unfolding delivers_def by blast

lemma read_exact_from_delivers:
  assumes "delivers T inbox outbox deadline"
  shows "length acc + length msg = n \<Longrightarrow> inbox t = msg @ rest \<Longrightarrow>
    \<exists>t'. read_exact_from T n deadline acc t = (Ok (acc @ msg), t') \<and> inbox t' = rest \<and> outbox t' = outbox t"
proof (induction "length msg" arbitrary: acc msg t rule: less_induct)
  case less
  show ?case
  proof (cases "msg = []")
    case True
    then show ?thesis using less.prems by (simp add: read_exact_from.simps)
  next
    case False
    obtain now t1 where now: "tls_now T t = (now, t1)" "now \<le> deadline" "inbox t1 = inbox t" "outbox t1 = outbox t"
      using delivers_now [OF assms] by blast
    have "0 < n - length acc" "inbox t1 \<noteq> []" using False less.prems now by auto
    then obtain bs t2 where bs: "tls_read T (n - length acc) t1 = (Ok bs, t2)" "bs \<noteq> []"
      "length bs \<le> n - length acc" "inbox t1 = bs @ inbox t2" "outbox t2 = outbox t1"
      using delivers_read [OF assms] by blast
    have len: "length bs \<le> length msg" using bs(3) less.prems(1) by simp
    have "msg @ rest = bs @ inbox t2" using less.prems(2) now(3) bs(4) by simp
    then obtain msg' where msg: "msg = bs @ msg'" "inbox t2 = msg' @ rest"
      using len by (auto simp: append_eq_append_conv2)
    have "\<exists>t'. read_exact_from T n deadline (acc @ bs) t2 = (Ok ((acc @ bs) @ msg'), t')
               \<and> inbox t' = rest \<and> outbox t' = outbox t2"
      by (rule less.hyps) (use bs msg less.prems in auto)
    moreover have "read_exact_from T n deadline acc t = read_exact_from T n deadline (acc @ bs) t2"
    proof -
      have "\<not> n \<le> length acc" using False less.prems(1) by auto
      then show ?thesis using now(1,2) bs(1,2,3) by (subst read_exact_from.simps) simp
    qed
    ultimately show ?thesis using now bs msg by simp
  qed
qed

lemma read_exact_delivers:
  assumes "delivers T inbox outbox deadline" "inbox t = msg @ rest" "length msg = n"
  obtains t' where "read_exact T n deadline t = (Ok msg, t')" "inbox t' = rest" "outbox t' = outbox t"
  using read_exact_from_delivers [OF assms(1), of "[]" msg n t rest] assms that by (auto simp: read_exact_def)

lemma write_all_delivers_ex:
  assumes "delivers T inbox outbox deadline"
  shows "\<exists>t'. write_all T buf deadline t = (Ok (), t') \<and> inbox t' = inbox t \<and> outbox t' = outbox t @ buf"
proof (induction "length buf" arbitrary: buf t rule: less_induct)
  case less
  show ?case
  proof (cases "buf = []")
    case True
    then show ?thesis by (simp add: write_all.simps)
  next
    case False
    obtain now t1 where now: "tls_now T t = (now, t1)" "now \<le> deadline" "inbox t1 = inbox t" "outbox t1 = outbox t"
      using delivers_now [OF assms] by blast
    obtain n t2 where n: "tls_write T buf t1 = (Ok n, t2)" "0 < n" "n \<le> length buf"
      "outbox t2 = outbox t1 @ take n buf" "inbox t2 = inbox t1"
      using delivers_write [OF assms False] by blast
    have "\<exists>t'. write_all T (drop n buf) deadline t2 = (Ok (), t') \<and> inbox t' = inbox t2
               \<and> outbox t' = outbox t2 @ drop n buf"
      by (rule less.hyps) (use n False in auto)
    moreover have "write_all T buf deadline t = write_all T (drop n buf) deadline t2"
      using now(1,2) n(1,2) False by (subst write_all.simps) simp
    ultimately show ?thesis using now n by simp
  qed
qed

lemma write_all_delivers:
  assumes "delivers T inbox outbox deadline"
  obtains t' where "write_all T buf deadline t = (Ok (), t')" "inbox t' = inbox t" "outbox t' = outbox t @ buf"
  using write_all_delivers_ex [OF assms] by blast

section \<open>The dialogue over such a link\<close>

text \<open>A packet on the wire.\<close>

definition packet_bytes :: "u8 \<Rightarrow> bytes \<Rightarrow> bytes" where
  "packet_bytes kind body = [VERSION, kind] @ to_be32 (word_of_nat (length body)) @ body"

lemma encode_header_packet:
  assumes "body \<noteq> []" "length body \<le> 16384"
  obtains h where "encode_header kind (length body) = Ok h" "packet_bytes kind body = h @ body"
  using assms that by (simp add: encode_header_def packet_bytes_def MAX_PAYLOAD_def)

lemma write_packet_delivers:
  assumes "delivers T inbox outbox deadline" "body \<noteq> []" "length body \<le> 16384"
  obtains t' where "write_packet T kind body deadline t = (Ok (), t')" "inbox t' = inbox t"
    "outbox t' = outbox t @ packet_bytes kind body"
proof -
  obtain h where h: "encode_header kind (length body) = Ok h" "packet_bytes kind body = h @ body"
    using encode_header_packet [OF assms(2,3)] .
  obtain t1 where t1: "write_all T h deadline t = (Ok (), t1)" "inbox t1 = inbox t" "outbox t1 = outbox t @ h"
    using write_all_delivers [OF assms(1)] .
  obtain t2 where t2: "write_all T body deadline t1 = (Ok (), t2)" "inbox t2 = inbox t1" "outbox t2 = outbox t1 @ body"
    using write_all_delivers [OF assms(1)] .
  show ?thesis by (rule that [of t2]) (use h t1 t2 in \<open>simp_all add: write_packet_def\<close>)
qed

lemma read_packet_delivers:
  assumes "delivers T inbox outbox deadline" "body \<noteq> []" "length body \<le> 16384"
    and "kind = TYPE_SPAKE2_MSG \<or> kind = TYPE_PEER_INFO" and "inbox t = packet_bytes kind body @ rest"
  obtains t' where "read_packet T kind complaint deadline t = (Ok body, t')" "inbox t' = rest" "outbox t' = outbox t"
proof -
  obtain h where h: "encode_header kind (length body) = Ok h" "packet_bytes kind body = h @ body"
    using encode_header_packet [OF assms(2,3)] .
  note dec = decode_encode_header [OF h(1) assms(4)]
  have "inbox t = h @ (body @ rest)" using assms(5) h(2) by simp
  then obtain t1 where t1: "read_exact T HEADER_LEN deadline t = (Ok h, t1)" "inbox t1 = body @ rest" "outbox t1 = outbox t"
    using read_exact_delivers [OF assms(1) _ dec(1)] by blast
  obtain t2 where t2: "read_exact T (length body) deadline t1 = (Ok body, t2)" "inbox t2 = rest" "outbox t2 = outbox t1"
    using read_exact_delivers [OF assms(1) t1(2) refl] .
  show ?thesis by (rule that [of t2]) (use t1 t2 dec(2) in \<open>simp_all add: read_packet_def\<close>)
qed

text \<open>The parameters of the cryptography, as their documentation has them.\<close>

definition sound_crypto :: "('p :: ab_group_add) crypto \<Rightarrow> bool" where
  "sound_crypto X \<longleftrightarrow>
     (\<forall>p. decompress_point (cr_curve X) (compress (cr_curve X) p) = Some p
          \<and> length (compress (cr_curve X) p) = 32)
     \<and> decompress_point (cr_curve X) M_ENCODED \<noteq> None \<and> decompress_point (cr_curve X) N_ENCODED \<noteq> None
     \<and> (\<forall>k n p. gcm_open (cr_aead X) k n (gcm_seal (cr_aead X) k n p) = Some p
          \<and> length (gcm_seal (cr_aead X) k n p) = length p + 16)"

lemma sound_crypto_points:
  assumes "sound_crypto X"
  shows "decompress_point (cr_curve X) (compress (cr_curve X) p) = Some p" "length (compress (cr_curve X) p) = 32"
    and "\<exists>m n. decompress_point (cr_curve X) M_ENCODED = Some m \<and> decompress_point (cr_curve X) N_ENCODED = Some n"
  using assms unfolding sound_crypto_def by blast+

lemma length_generate_msg:
  assumes "sound_crypto X" "generate_msg H (cr_curve X) r st = Some (msg, st')"
  shows "length msg = 32"
  using assms
  by (auto simp: sound_crypto_def generate_msg_def decompress_def Let_def split: option.splits)

lemma pair_over_link:
  assumes X: "sound_crypto X"
    and now: "tls_now T t0 = (now, t)" and est: "tls_establish T t = (Ok exporter, t1)"
    and link: "delivers T inbox outbox (now + timeout)"
    and a: "generate_msg (cr_hash X) (cr_curve X) r (spake2_new (cr_hash X) True (password @ exporter)) = Some (ma, a)"
    and mb: "length mb = 32" and key: "process_msg (cr_hash X) (cr_curve X) mb a = Ok key"
    and ours: "peer_info pubkey = Ok ours" and theirs: "length theirs = PEER_INFO_SIZE"
    and inbox: "inbox t1 = packet_bytes TYPE_SPAKE2_MSG mb
        @ packet_bytes TYPE_PEER_INFO (fst (cipher_encrypt (cr_aead X) theirs (cipher_new (cr_aead X) key)))"
  shows "\<exists>t'. pair T X r password pubkey timeout t0 = Some (Ok theirs, t')
    \<and> outbox t' = outbox t1 @ packet_bytes TYPE_SPAKE2_MSG ma
        @ packet_bytes TYPE_PEER_INFO (fst (cipher_encrypt (cr_aead X) ours (cipher_new (cr_aead X) key)))"
proof -
  let ?A = "cr_aead X" and ?d = "now + timeout"
  let ?seal = "\<lambda>p. fst (cipher_encrypt ?A p (cipher_new ?A key))"
  have sealed: "length (?seal p) = length p + 16" for p
    using X by (simp add: sound_crypto_def cipher_encrypt_def)
  have ma: "length ma = 32" by (rule length_generate_msg [OF X a])
  have "ma \<noteq> []" "mb \<noteq> []" using ma mb by auto
  note ne = this
  have so: "?seal ours \<noteq> []" "length (?seal ours) \<le> 16384"
    using sealed [of ours] length_peer_info [OF ours] by (auto simp: PEER_INFO_SIZE_def simp flip: length_greater_0_conv)
  have st: "?seal theirs \<noteq> []" "length (?seal theirs) \<le> 16384"
    using sealed [of theirs] theirs by (auto simp: PEER_INFO_SIZE_def simp flip: length_greater_0_conv)
  obtain t2 where t2: "write_packet T TYPE_SPAKE2_MSG ma ?d t1 = (Ok (), t2)" "inbox t2 = inbox t1"
      "outbox t2 = outbox t1 @ packet_bytes TYPE_SPAKE2_MSG ma"
    by (rule write_packet_delivers [OF link ne(1)]) (use ma in simp_all)
  have in2: "inbox t2 = packet_bytes TYPE_SPAKE2_MSG mb @ packet_bytes TYPE_PEER_INFO (?seal theirs)"
    using inbox t2(2) by simp
  obtain t3 where t3: "read_packet T TYPE_SPAKE2_MSG ''expected a SPAKE2 message'' ?d t2 = (Ok mb, t3)"
      "inbox t3 = packet_bytes TYPE_PEER_INFO (?seal theirs)" "outbox t3 = outbox t2"
    by (rule read_packet_delivers [OF link ne(2) _ _ in2]) (use mb in simp_all)
  obtain t4 where t4: "write_packet T TYPE_PEER_INFO (?seal ours) ?d t3 = (Ok (), t4)" "inbox t4 = inbox t3"
      "outbox t4 = outbox t3 @ packet_bytes TYPE_PEER_INFO (?seal ours)"
    using write_packet_delivers [OF link so] .
  have "inbox t4 = packet_bytes TYPE_PEER_INFO (?seal theirs) @ []" using t3(2) t4(2) by simp
  then obtain t5 where t5: "read_packet T TYPE_PEER_INFO ''expected PeerInfo'' ?d t4 = (Ok (?seal theirs), t5)"
      "outbox t5 = outbox t4"
    using read_packet_delivers [OF link st, of TYPE_PEER_INFO] by blast
  obtain s c where c: "cipher_encrypt ?A ours (cipher_new ?A key) = (s, c)" by force
  have "fst (cipher_decrypt ?A (?seal theirs) c) = Ok theirs"
    using X c by (auto simp: sound_crypto_def cipher_encrypt_def cipher_decrypt_def cipher_new_def Let_def)
  then have "pair T X r password pubkey timeout t0 = Some (Ok theirs, t5)"
    using now est a t2(1) t3(1) mb key ours c t4(1) t5(1) theirs by (simp add: pair_def Let_def)
  then show ?thesis using t2 t3 t4 t5 by simp
qed

lemma phone_opens_record:
  assumes "sound_crypto X"
  shows "fst (cipher_decrypt (cr_aead X) (fst (cipher_encrypt (cr_aead X) p (cipher_new (cr_aead X) key)))
           (cipher_new (cr_aead X) key)) = Ok p"
  using assms by (simp add: sound_crypto_def cipher_encrypt_def cipher_decrypt_def cipher_new_def Let_def)

end
