(* ===== verification/Pair_Mdns.thy ===== *)
theory Pair_Mdns
  imports Pair_Client Rust_Str
begin

text \<open>
  Discovery of the phone over multicast DNS (\<open>adb-pairing/src/mdns.rs\<close>): building a query, reading
  names with compression pointers, parsing a response and the discovery loop. The socket is the
  sequence of what the loop's rounds observe, and the order in which the map of instances is walked
  is a parameter. The lemmas show that reading a name always ends, that names are read as written,
  when discovery can succeed at all and when the parser panics.
\<close>

section \<open>Names\<close>

definition PAIRING_TYPE :: string where "PAIRING_TYPE = ''_adb-tls-pairing._tcp.local''"
definition CONNECT_TYPE :: string where "CONNECT_TYPE = ''_adb-tls-connect._tcp.local''"

definition write_name :: "string \<Rightarrow> bytes" where
  "write_name name =
     concat (map (\<lambda>label. if label = [] then [] else word_of_nat (length label) # as_bytes label)
       (split_on (CHR ''.'') name)) @ [0]"

definition to_be16 :: "u16 \<Rightarrow> bytes" where
  "to_be16 w = rev (to_le16 w)"

definition from_be16 :: "u8 \<Rightarrow> u8 \<Rightarrow> u16" where
  "from_be16 hi lo = from_le16 [lo, hi]"

definition build_query :: "u16 \<Rightarrow> string \<Rightarrow> bytes" where
  "build_query query_id service_type =
     to_be16 query_id @ [0x00, 0x00] @ [0x00, 0x01] @ [0x00, 0x00] @ [0x00, 0x00] @ [0x00, 0x00]
     @ write_name service_type @ [0x00, 0x0C] @ [0x80, 0x01]"

text \<open>
  \<open>read_name_depth\<close>: the loop over the labels, with the parts read so far. The result comes with the
  offset the caller is left with; a pointer leaves it behind the pointer.
\<close>

function read_labels :: "bytes \<Rightarrow> nat \<Rightarrow> string list \<Rightarrow> nat \<Rightarrow> (pair_error + string) \<times> nat" where
  "read_labels msg depth parts off =
     (if depth > 10 then (Err (Protocol ''dns compression loop or recursion limit''), off)
      else if off \<ge> length msg then (Err (Protocol ''dns name overrun''), off)
      else if msg ! off = 0 then (Ok (join_with ''.'' parts), off + 1)
      else if msg ! off AND 0xC0 = 0xC0
      then (if off + 1 \<ge> length msg then (Err (Protocol ''dns ptr overrun''), off + 1)
            else let ptr = push_bit 8 (unat (msg ! off AND 0x3F)) OR unat (msg ! (off + 1))
                 in if ptr \<ge> length msg then (Err (Protocol ''dns ptr out of bounds''), off + 2)
                    else case fst (read_labels msg (depth + 1) [] ptr) of
                           Inl e \<Rightarrow> (Err e, off + 2)
                         | Inr tail \<Rightarrow>
                             if tail \<noteq> []
                             then (let all = join_with ''.'' parts
                                   in (Ok ((if all \<noteq> [] then all @ ''.'' else all) @ tail), off + 2))
                             else (Ok (join_with ''.'' parts), off + 2))
      else if off + 1 + unat (msg ! off) > length msg
      then (Err (Protocol ''dns label overrun''), off + 1)
      else read_labels msg depth
             (parts @ [from_utf8_lossy (slice (off + 1) (off + 1 + unat (msg ! off)) msg)])
             (off + 1 + unat (msg ! off)))"
  by pat_completeness auto
termination
  by (relation "measures [\<lambda>(msg, depth, parts, off). 11 - depth, \<lambda>(msg, depth, parts, off). length msg - off]")
    auto

declare read_labels.simps [simp del]

definition read_name :: "bytes \<Rightarrow> nat \<Rightarrow> (pair_error + string) \<times> nat" where
  "read_name msg off = read_labels msg 0 [] off"

section \<open>Responses\<close>

type_synonym ipv4 = "u8 \<times> u8 \<times> u8 \<times> u8"

datatype Record = Ptr string | Srv string u16 | Txt "string list" | A ipv4

function txt_strings :: "bytes \<Rightarrow> nat \<Rightarrow> nat \<Rightarrow> string list" where
  "txt_strings msg p rdata_end =
     (if p < rdata_end
      then (let slen = (if p < length msg then unat (msg ! p) else 0)
            in from_utf8_lossy (if p + 1 + slen \<le> length msg then slice (p + 1) (p + 1 + slen) msg else [])
               # txt_strings msg (p + 1 + slen) rdata_end)
      else [])"
  by pat_completeness auto
termination
  by (relation "measure (\<lambda>(msg, p, rdata_end). rdata_end - p)") auto

declare txt_strings.simps [simp del]

definition get_or_0 :: "bytes \<Rightarrow> nat \<Rightarrow> u8" where
  "get_or_0 msg i = (if i < length msg then msg ! i else 0)"

text \<open>
  One record: its data at \<open>off\<close>, of type \<open>rtype\<close> and length \<open>rdlen\<close>, with the offset behind it.
  \<open>None\<close> is the panic of an index out of range.
\<close>

definition parse_rdata :: "bytes \<Rightarrow> u16 \<Rightarrow> nat \<Rightarrow> nat \<Rightarrow> (Record option \<times> nat) option" where
  "parse_rdata msg rtype rdlen off =
     (if rtype = 12
      then (case read_name msg off of (r, off') \<Rightarrow> Some (map_option Ptr (ok r), off'))
      else if rtype = 33
      then (let port = from_be16 (get_or_0 msg (off + 4)) (get_or_0 msg (off + 5))
            in case read_name msg (off + 6) of
                 (r, off') \<Rightarrow> Some (map_option (\<lambda>target. Srv target port) (ok r), off'))
      else if rtype = 16 then Some (Some (Txt (txt_strings msg off (off + rdlen))), off + rdlen)
      else if rtype = 1 \<and> rdlen = 4
      then (if off + 3 < length msg
            then Some (Some (A (msg ! off, msg ! (off + 1), msg ! (off + 2), msg ! (off + 3))), off + rdlen)
            else None)
      else Some (None, off + rdlen))"

fun skip_questions :: "nat \<Rightarrow> bytes \<Rightarrow> nat \<Rightarrow> nat option" where
  "skip_questions 0 msg off = Some off"
| "skip_questions (Suc n) msg off =
     (case read_name msg off of
        (Inl _, _) \<Rightarrow> None
      | (Inr _, off') \<Rightarrow> skip_questions n msg (off' + 4))"

fun parse_records :: "nat \<Rightarrow> bytes \<Rightarrow> nat \<Rightarrow> (string \<times> Record) list option" where
  "parse_records 0 msg off = Some []"
| "parse_records (Suc n) msg off =
     (case read_name msg off of
        (Inl _, _) \<Rightarrow> Some []
      | (Inr owner, off) \<Rightarrow>
          if off + 10 > length msg then Some []
          else let rtype = from_be16 (msg ! off) (msg ! (off + 1));
                   rdlen = unat (from_be16 (msg ! (off + 8)) (msg ! (off + 9)))
               in case parse_rdata msg rtype rdlen (off + 10) of
                    None \<Rightarrow> None
                  | Some (record_opt, off') \<Rightarrow>
                      map_option (\<lambda>rest. (case record_opt of None \<Rightarrow> rest | Some r \<Rightarrow> (owner, r) # rest))
                        (parse_records n msg off'))"

definition parse_response :: "bytes \<Rightarrow> (string \<times> Record) list option" where
  "parse_response msg =
     (if length msg < 12 then Some []
      else let counts = \<lambda>i. unat (from_be16 (msg ! i) (msg ! (i + 1)))
           in case skip_questions (counts 4) msg 12 of
                None \<Rightarrow> Some []
              | Some off \<Rightarrow> parse_records (counts 6 + counts 8 + counts 10) msg off)"

section \<open>Discovery\<close>

record ServiceEndpoint =
  ep_instance :: string
  ep_host :: string
  ep_ip :: ipv4
  ep_port :: u16
  ep_txt :: "string \<Rightarrow> string option"

record seen =
  ptrs :: "string list"
  srvs :: "string \<Rightarrow> (string \<times> u16) option"
  txts :: "string \<Rightarrow> (string \<Rightarrow> string option) option"
  addrs :: "string \<Rightarrow> ipv4 option"

definition nothing_seen :: seen where
  "nothing_seen = \<lparr>ptrs = [], srvs = (\<lambda>_. None), txts = (\<lambda>_. None), addrs = (\<lambda>_. None)\<rparr>"

definition service_instance_name :: "string \<Rightarrow> string \<Rightarrow> string" where
  "service_instance_name service_type target =
     (case str_strip_suffix (''.'' @ service_type) target of None \<Rightarrow> target | Some t \<Rightarrow> t)"

definition txt_map :: "string list \<Rightarrow> string \<Rightarrow> string option" where
  "txt_map strings =
     foldl (\<lambda>m s. case split_once (CHR ''='') s of None \<Rightarrow> m | Some (k, v) \<Rightarrow> m(k \<mapsto> v)) (\<lambda>_. None) strings"

definition absorb :: "string \<Rightarrow> string option \<Rightarrow> seen \<Rightarrow> string \<times> Record \<Rightarrow> seen" where
  "absorb service_type inst s r =
     (case r of (owner, rec) \<Rightarrow>
      case rec of
        Ptr target \<Rightarrow>
          if inst = None \<or> inst = Some (service_instance_name service_type target)
          then s\<lparr>ptrs := List.insert target (ptrs s)\<rparr> else s
      | Srv target port \<Rightarrow> s\<lparr>srvs := (srvs s)(target \<mapsto> (target, port))\<rparr>
      | Txt strings \<Rightarrow> s\<lparr>txts := (txts s)(owner \<mapsto> txt_map strings)\<rparr>
      | A ip \<Rightarrow> s\<lparr>addrs := (addrs s)(owner \<mapsto> ip)\<rparr>)"

fun resolve :: "string \<Rightarrow> string option \<Rightarrow> string list \<Rightarrow> seen \<Rightarrow> ServiceEndpoint option" where
  "resolve service_type inst [] s = None"
| "resolve service_type inst (target # targets) s =
     (let name = service_instance_name service_type target
      in if inst \<noteq> None \<and> inst \<noteq> Some name then resolve service_type inst targets s
         else case srvs s target of
                None \<Rightarrow> None
              | Some (host, port) \<Rightarrow>
                  (case addrs s host of
                     None \<Rightarrow> None
                   | Some ip \<Rightarrow>
                       Some \<lparr>ep_instance = name, ep_host = host, ep_ip = ip, ep_port = port,
                             ep_txt = (case txts s target of None \<Rightarrow> (\<lambda>_. None) | Some m \<Rightarrow> m)\<rparr>))"

text \<open>
  The loop. A round is the clock at its start and what the socket received, \<open>None\<close> for a receive
  that failed or timed out; \<open>sent\<close> collects the queries, each of which goes to two addresses.
\<close>

datatype discovery = Found ServiceEndpoint | Failed pair_error | Panicked | Running

fun discover_loop ::
  "(string list \<Rightarrow> string list) \<Rightarrow> string \<Rightarrow> string option \<Rightarrow> nat \<Rightarrow> u16 \<Rightarrow> seen \<Rightarrow> bytes list
     \<Rightarrow> (nat \<times> bytes option) list \<Rightarrow> discovery \<times> bytes list" where
  "discover_loop keys ty inst deadline query_id s sent [] = (Running, sent)"
| "discover_loop keys ty inst deadline query_id s sent ((now, received) # rounds) =
     (if now \<ge> deadline then (Failed Timeout, sent)
      else let query_id = query_id + 1;
               sent = sent @ [build_query query_id ty, build_query query_id ty]
           in case received of
                None \<Rightarrow> discover_loop keys ty inst deadline query_id s sent rounds
              | Some datagram \<Rightarrow>
                  (case parse_response (take 4096 datagram) of
                     None \<Rightarrow> (Panicked, sent)
                   | Some records \<Rightarrow>
                       let s = foldl (absorb ty inst) s records
                       in case resolve ty inst (keys (ptrs s)) s of
                            Some ep \<Rightarrow> (Found ep, sent)
                          | None \<Rightarrow> discover_loop keys ty inst deadline query_id s sent rounds))"

definition discover ::
  "(string list \<Rightarrow> string list) \<Rightarrow> (pair_error + unit) \<Rightarrow> string \<Rightarrow> string option \<Rightarrow> nat \<Rightarrow> nat \<Rightarrow> nat
     \<Rightarrow> (nat \<times> bytes option) list \<Rightarrow> discovery \<times> bytes list" where
  "discover keys socket ty inst subsec_nanos now timeout rounds =
     (case socket of
        Inl e \<Rightarrow> (Failed e, [])
      | Inr _ \<Rightarrow>
          discover_loop keys ty inst (now + timeout) (word_of_nat (subsec_nanos mod 65535)) nothing_seen []
            rounds)"

section \<open>Names are read as written\<close>

definition plain_label :: "string \<Rightarrow> bool" where
  "plain_label l \<longleftrightarrow> l \<noteq> [] \<and> length l < 64 \<and> CHR ''.'' \<notin> set l \<and> utf8_valid (as_bytes l)"

definition label_bytes :: "string list \<Rightarrow> bytes" where
  "label_bytes ls = concat (map (\<lambda>l. word_of_nat (length l) # as_bytes l) ls)"

lemma short_length_byte:
  assumes "0 < n" "n < 64"
  shows "unat (word_of_nat n :: u8) = n" "(word_of_nat n :: u8) \<noteq> 0" "(word_of_nat n :: u8) AND 0xC0 \<noteq> 0xC0"
proof -
  show u: "unat (word_of_nat n :: u8) = n" using assms by (simp add: unat_of_nat)
  then show "(word_of_nat n :: u8) \<noteq> 0" using assms(1) by force
  show "(word_of_nat n :: u8) AND 0xC0 \<noteq> 0xC0"
  proof
    assume "(word_of_nat n :: u8) AND 0xC0 = 0xC0"
    then have "bit ((word_of_nat n :: u8) AND 0xC0) 7" by simp
    then have "bit (word_of_nat n :: u8) 7" by (simp add: bit_and_iff)
    then have "bit (unat (word_of_nat n :: u8)) 7" by (simp add: bit_unsigned_iff)
    then show False using assms(2) unfolding u by (simp add: bit_iff_odd)
  qed
qed

lemma read_labels_written:
  assumes "\<forall>l \<in> set ls. plain_label l" "depth \<le> 10"
  shows "read_labels (pre @ label_bytes ls @ 0 # post) depth parts (length pre)
    = (Ok (join_with ''.'' (parts @ ls)), length pre + length (label_bytes ls) + 1)"
  using assms(1)
proof (induction ls arbitrary: pre parts)
  case Nil
  then show ?case using assms(2) by (subst read_labels.simps) (simp add: label_bytes_def)
next
  case (Cons l ls)
  let ?msg = "pre @ label_bytes (l # ls) @ 0 # post" and ?pre = "pre @ word_of_nat (length l) # as_bytes l"
  have l: "plain_label l" and ls: "\<forall>l \<in> set ls. plain_label l" using Cons.prems by auto
  have len: "0 < length l" "length l < 64" using l by (auto simp: plain_label_def)
  have msg: "?msg = ?pre @ label_bytes ls @ 0 # post" by (simp add: label_bytes_def)
  have at: "?msg ! length pre = word_of_nat (length l)" by (simp add: label_bytes_def nth_append)
  have sl: "slice (length pre + 1) (length pre + 1 + length l) ?msg = as_bytes l"
    by (simp add: label_bytes_def slice_def)
  have "from_utf8_lossy (as_bytes l) = l"
    using l by (simp add: plain_label_def from_utf8_lossy_valid)
  then have "read_labels ?msg depth parts (length pre) = read_labels ?msg depth (parts @ [l]) (length ?pre)"
    using assms(2) at sl short_length_byte [OF len]
    by (subst read_labels.simps) (simp add: label_bytes_def)
  also have "\<dots> = (Ok (join_with ''.'' ((parts @ [l]) @ ls)), length ?pre + length (label_bytes ls) + 1)"
    unfolding msg by (rule Cons.IH [OF ls])
  finally show ?case by (simp add: label_bytes_def)
qed

lemma write_name_labels:
  assumes "ls \<noteq> []" "\<forall>l \<in> set ls. plain_label l"
  shows "write_name (join_with ''.'' ls) = label_bytes ls @ [0]"
proof -
  have "split_on (CHR ''.'') (join_with ''.'' ls) = ls"
    by (rule split_on_join) (use assms in \<open>auto simp: plain_label_def\<close>)
  moreover have "\<forall>l \<in> set ls. l \<noteq> []" using assms(2) by (simp add: plain_label_def)
  ultimately show ?thesis by (simp add: write_name_def label_bytes_def cong: map_cong)
qed

lemma read_name_written:
  assumes "ls \<noteq> []" "\<forall>l \<in> set ls. plain_label l"
  shows "read_name (pre @ write_name (join_with ''.'' ls) @ post) (length pre)
    = (Ok (join_with ''.'' ls), length pre + length (write_name (join_with ''.'' ls)))"
  using read_labels_written [OF assms(2), of 0 pre post "[]"] assms
  by (simp add: read_name_def write_name_labels)

section \<open>What discovery can find\<close>

text \<open>The service records are filed under their target, so a found host is a key of the map.\<close>

definition srvs_by_target :: "seen \<Rightarrow> bool" where
  "srvs_by_target s \<longleftrightarrow> (\<forall>k h p. srvs s k = Some (h, p) \<longrightarrow> h = k)"

lemma absorb_srvs_by_target: "srvs_by_target s \<Longrightarrow> srvs_by_target (absorb ty inst s r)"
  by (auto simp: srvs_by_target_def absorb_def split: prod.splits Record.splits)

lemma absorb_all_srvs_by_target: "srvs_by_target s \<Longrightarrow> srvs_by_target (foldl (absorb ty inst) s rs)"
  by (induction rs arbitrary: s) (simp_all add: absorb_srvs_by_target)

lemma resolve_host:
  "srvs_by_target s \<Longrightarrow> resolve ty inst targets s = Some ep \<Longrightarrow>
     ep_host ep \<in> set targets \<and> ep_instance ep = service_instance_name ty (ep_host ep)
     \<and> addrs s (ep_host ep) = Some (ep_ip ep) \<and> (inst = None \<or> inst = Some (ep_instance ep))"
proof (induction targets)
  case (Cons target targets)
  have key: "host = target" if "srvs s target = Some (host, port)" for host port
    using Cons.prems(1) that unfolding srvs_by_target_def by blast
  show ?case
  proof (cases "srvs s target")
    case None
    then show ?thesis using Cons by (auto simp: Let_def split: if_splits)
  next
    case (Some hp)
    then obtain port where "srvs s target = Some (target, port)" by (cases hp) (use key in auto)
    then show ?thesis using Cons by (auto simp: Let_def split: if_splits option.splits)
  qed
qed simp

lemma discover_loop_host:
  "srvs_by_target s \<Longrightarrow> fst (discover_loop keys ty inst deadline q s sent rounds) = Found ep \<Longrightarrow>
     ep_instance ep = service_instance_name ty (ep_host ep)"
proof (induction rounds arbitrary: q s sent)
  case (Cons round rounds)
  obtain now received where r: "round = (now, received)" by force
  show ?case
  proof (cases received)
    case None
    then show ?thesis using Cons r by (auto simp: Let_def split: if_splits)
  next
    case (Some datagram)
    show ?thesis
    proof (cases "parse_response (take 4096 datagram)")
      case None
      then show ?thesis using Cons.prems r Some by (auto simp: Let_def split: if_splits)
    next
      case (Some records)
      let ?s = "foldl (absorb ty inst) s records"
      have inv: "srvs_by_target ?s" by (rule absorb_all_srvs_by_target [OF Cons.prems(1)])
      show ?thesis
      proof (cases "resolve ty inst (keys (ptrs ?s)) ?s")
        case None
        then show ?thesis
          using Cons.prems(2) Cons.IH [OF inv] r Some \<open>received = Some datagram\<close>
          by (auto simp: Let_def split: if_splits)
      next
        case (Some e)
        then show ?thesis
          using Cons.prems(2) resolve_host [OF inv Some] r \<open>parse_response (take 4096 datagram) = Some records\<close>
            \<open>received = Some datagram\<close>
          by (auto simp: Let_def split: if_splits)
      qed
    qed
  qed
qed simp

lemma discover_loop_ends:
  "\<exists>(now, r) \<in> set rounds. deadline \<le> now \<Longrightarrow>
     fst (discover_loop keys ty inst deadline q s sent rounds) \<noteq> Running"
proof (induction rounds arbitrary: q s sent)
  case (Cons round rounds)
  obtain now received where r: "round = (now, received)" by force
  show ?case
  proof (cases "deadline \<le> now")
    case False
    then have "\<exists>(now, r) \<in> set rounds. deadline \<le> now" using Cons.prems r by auto
    from Cons.IH [OF this] False show ?thesis
      by (auto simp: r Let_def split: option.split)
  qed (simp add: r)
qed simp

text \<open>
  A response as a phone sends it: the instance \<open>i.ty\<close> is served by the host \<open>android.local\<close>, whose
  address follows. Every record is there, and yet nothing resolves, because the service record is
  filed under \<open>android.local\<close> and looked up under the instance.
\<close>

definition phone_records :: "string \<Rightarrow> string \<Rightarrow> string \<Rightarrow> u16 \<Rightarrow> ipv4 \<Rightarrow> (string \<times> Record) list" where
  "phone_records ty i host port ip =
     [(ty, Ptr (i @ ''.'' @ ty)), (i @ ''.'' @ ty, Srv host port), (i @ ''.'' @ ty, Txt []), (host, A ip)]"

lemma resolve_None: "\<forall>t \<in> set targets. srvs s t = None \<Longrightarrow> resolve ty inst targets s = None"
  by (induction targets) (simp_all add: Let_def)

lemma phone_records_unresolved:
  assumes "host \<noteq> i @ ''.'' @ ty" "\<And>ks. set (keys ks) = set ks"
  shows "resolve ty inst (keys (ptrs (foldl (absorb ty inst) nothing_seen (phone_records ty i host port ip))))
           (foldl (absorb ty inst) nothing_seen (phone_records ty i host port ip)) = None"
  using assms
  by (intro resolve_None) (auto simp: phone_records_def absorb_def nothing_seen_def)

text \<open>Only a short address record makes the parser panic, and it does.\<close>

lemma parse_rdata_panics:
  "parse_rdata msg rtype rdlen off = None \<longleftrightarrow> rtype = 1 \<and> rdlen = 4 \<and> length msg \<le> off + 3"
  by (auto simp: parse_rdata_def Let_def split: prod.splits)

definition cut_response :: bytes where
  "cut_response = [0, 0, 0x84, 0, 0, 0, 0, 1, 0, 0, 0, 0] @ [0] @ [0, 1, 0, 1, 0, 0, 0, 120, 0, 4]"

lemma cut_response_panics: "parse_response cut_response = None"
proof -
  have "read_name cut_response 12 = (Ok [], 13)"
    by (simp add: read_name_def read_labels.simps cut_response_def)
  then show ?thesis
    by (simp add: parse_response_def cut_response_def parse_rdata_def from_be16_def from_le16_def Let_def)
qed

end
