(* ===== verification/Pair_Properties.thy ===== *)
theory Pair_Properties
  imports Pair_Mdns
begin

text \<open>The properties of wireless pairing: the dialogue, the password scalar and discovery.\<close>

section \<open>The dialogue\<close>









section \<open>The password scalar\<close>

text \<open>
  C33. The scalar \<open>Spake2::new\<close> derives from the password is a multiple of eight, as the code asserts.
  It is meant to be the password hash up to multiples of the group order, but it is that only when
  the reduced hash is a multiple of eight already: the constant the loop adds is not the order of
  Ed25519, two of its bytes differ.
\<close>

theorem password_scalar_keeps_hash_iff:
  fixes spake :: "('p :: ab_group_add) spake2"
  assumes "length (sc_reduce H (sha512 H password)) = 32"
    and "le_nat (sc_reduce H (sha512 H password)) = le_nat (sha512 H password) mod ed25519_order"
    and "spake = spake2_new H alice password"
  shows "8 dvd le_nat (password_scalar spake)
    \<and> (le_nat (password_scalar spake) mod ed25519_order = le_nat (sha512 H password) mod ed25519_order
         \<longleftrightarrow> 8 dvd le_nat (sha512 H password) mod ed25519_order)"
  using password_scalar_residue [OF assms(1,2)] by (simp add: assms(3) spake2_new_def Let_def)

theorem password_scalar_keeps_hash_iff_witness:
  "le_nat (password_scalar (spake2_new \<lparr>sha512 = (\<lambda>_. 1 # replicate 63 0), sc_reduce = take 32\<rparr> True [] :: int spake2))
     mod ed25519_order \<noteq> 1"
proof -
  let ?H = "\<lparr>sha512 = (\<lambda>_. 1 # replicate 63 0), sc_reduce = take 32\<rparr>"
  have zeros: "le_nat (replicate n 0) = 0" for n by (induction n) simp_all
  have "1 < ed25519_order" by (simp add: ed25519_order_def)
  then have one: "1 mod ed25519_order = 1" "ed25519_order \<noteq> Suc 0" by (simp_all only: mod_less)
  have "length (sc_reduce ?H (sha512 ?H [])) = 32"
    "le_nat (sc_reduce ?H (sha512 ?H [])) = le_nat (sha512 ?H []) mod ed25519_order"
    by (simp_all add: take_Cons' zeros one)
  from password_scalar_keeps_hash_iff [OF this refl, where alice = True and 'p = int] show ?thesis
    by (simp add: zeros one)
qed

section \<open>Discovery\<close>

text \<open>
  C34. Whatever arrives, discovery can only find an instance whose service record names as its host
  the instance itself: an endpoint it returns has an instance name that is its host name without
  the service type. A phone answers with a host of its own, and for that answer nothing is found.
\<close>

theorem discovery_needs_host_named_as_instance:
  assumes "discover keys socket ty inst nanos now timeout rounds = (Found ep, sent)"
  shows "ep_instance ep = service_instance_name ty (ep_host ep)"
  using assms discover_loop_host [of nothing_seen keys ty inst _ _ _ rounds ep]
  by (auto simp: discover_def srvs_by_target_def nothing_seen_def split: sum.splits dest: arg_cong [of _ _ fst])

definition self_hosted_response :: bytes where
  "self_hosted_response =
     [0, 0, 0x84, 0, 0, 0, 0, 3, 0, 0, 0, 0]
     @ [0, 0, 12, 0, 1, 0, 0, 0, 9, 0, 3, 1, 120, 0]
     @ [0, 0, 33, 0, 1, 0, 0, 0, 9, 0, 9, 0, 0, 0, 0, 0x12, 0x34, 1, 120, 0]
     @ [1, 120, 0, 0, 1, 0, 1, 0, 0, 0, 9, 0, 4, 10, 0, 0, 5]"

lemma lossy_x: "from_utf8_lossy [120] = ''x''"
proof -
  have "utf8_head [120] = (1, True)" by (simp add: utf8_head_def safe_get_def Let_def)
  then have "utf8_lossy [120] = [120]" by (subst utf8_lossy.simps) simp
  moreover have "as_bytes ''x'' = [120]" by (simp add: as_bytes_def byte_of_char_def)
  ultimately show ?thesis by (metis from_utf8_lossy_def from_as_bytes)
qed

lemma read_one_label:
  assumes "off + 2 < length msg" "msg ! off = 1" "msg ! (off + 1) = 120" "msg ! (off + 2) = 0"
  shows "read_name msg off = (Ok ''x'', off + 3)"
proof -
  have "slice (off + 1) (off + 2) msg = [120]"
    using assms by (simp add: slice_def flip: Cons_nth_drop_Suc)
  have "read_name msg off = read_labels msg 0 [''x''] (off + 2)"
    unfolding read_name_def using assms lossy_x \<open>slice (off + 1) (off + 2) msg = [120]\<close>
    by (subst read_labels.simps) simp
  also have "\<dots> = (Ok ''x'', off + 3)" using assms by (subst read_labels.simps) simp
  finally show ?thesis .
qed

lemma read_root:
  assumes "off < length msg" "msg ! off = 0"
  shows "read_name msg off = (Ok [], off + 1)"
  unfolding read_name_def using assms by (subst read_labels.simps) simp

lemma self_hosted_parsed:
  "parse_response self_hosted_response
     = Some [([], Ptr ''x''), ([], Srv ''x'' 0x1234), (''x'', A (10, 0, 0, 5))]"
proof -
  have "read_name self_hosted_response 12 = (Ok [], 12 + 1)" "read_name self_hosted_response 26 = (Ok [], 26 + 1)"
    by (rule read_root; simp add: self_hosted_response_def)+
  moreover have "read_name self_hosted_response 23 = (Ok ''x'', 23 + 3)"
    "read_name self_hosted_response 43 = (Ok ''x'', 43 + 3)" "read_name self_hosted_response 46 = (Ok ''x'', 46 + 3)"
    by (rule read_one_label; simp add: self_hosted_response_def)+
  moreover have "unat (from_be16 0 3) = Suc (Suc (Suc 0))" "unat (from_be16 0 0) = 0"
    "unat (from_be16 0 4) = 4" "from_be16 0 12 = 12" "from_be16 0 33 = 33" "from_be16 0 1 = 1"
    "from_be16 0x12 0x34 = 0x1234"
    by (simp_all add: from_be16_def from_le16_def)
  ultimately show ?thesis
    by (simp add: parse_response_def parse_rdata_def get_or_0_def Let_def self_hosted_response_def)
qed

theorem discovery_needs_host_named_as_instance_witness:
  "ep_instance \<lparr>ep_instance = ''x'', ep_host = ''x'', ep_ip = (10, 0, 0, 5), ep_port = 0x1234, ep_txt = (\<lambda>_. None)\<rparr>
     = service_instance_name ''t'' ''x''"
proof -
  have "\<exists>sent. discover (\<lambda>k. k) (Ok ()) ''t'' None 0 0 1 [(0, Some self_hosted_response)]
      = (Found \<lparr>ep_instance = ''x'', ep_host = ''x'', ep_ip = (10, 0, 0, 5), ep_port = 0x1234, ep_txt = (\<lambda>_. None)\<rparr>, sent)"
  proof -
    have "take 4096 self_hosted_response = self_hosted_response" by (simp add: self_hosted_response_def)
    moreover have no_suffix: "\<not> suffix ''.t'' ''x''" by (auto dest: suffix_length_le)
    ultimately show ?thesis
      by (simp add: discover_def self_hosted_parsed Let_def absorb_def nothing_seen_def service_instance_name_def
          str_strip_suffix_def no_suffix)
  qed
  then obtain sent where
    "discover (\<lambda>k. k) (Ok ()) ''t'' None 0 0 1 [(0, Some self_hosted_response)]
      = (Found \<lparr>ep_instance = ''x'', ep_host = ''x'', ep_ip = (10, 0, 0, 5), ep_port = 0x1234, ep_txt = (\<lambda>_. None)\<rparr>, sent)"
    by blast
  from discovery_needs_host_named_as_instance [OF this] show ?thesis by simp
qed

end
