(* ===== verification/Rust_Text.thy ===== *)
theory Rust_Text
  imports Rust_Str
begin

text \<open>
  More of Rust's \<open>str\<close>, for the parts of the program that read the output of other programs:
  \<open>split_whitespace\<close> and the parsing of numbers, with the facts by which printed text is read back.
\<close>

section \<open>Words\<close>

fun take_word :: "bytes \<Rightarrow> bytes \<times> bytes" where
  "take_word [] = ([], [])"
| "take_word (x # xs) =
     (if ws_front (x # xs) \<noteq> 0 then ([], x # xs)
      else case take_word xs of (w, rest) \<Rightarrow> (x # w, rest))"

lemma length_take_word: "length (snd (take_word b)) \<le> length b"
  by (induction b) (auto split: prod.splits)

lemma take_word_shorter:
  "b \<noteq> [] \<Longrightarrow> ws_front b = 0 \<Longrightarrow> length (snd (take_word b)) < length b"
  using length_take_word [of "tl b"] by (cases b) (auto split: prod.splits)

lemma length_trim_front: "length (trim_front b) \<le> length b"
proof (induction b rule: trim_front.induct)
  case (1 b)
  then show ?case by (subst trim_front.simps) (auto intro: order_trans)
qed

lemma ws_front_Nil [simp]: "ws_front [] = 0"
  by (simp add: ws_front_def)

lemma trim_front_ws: "ws_front (trim_front b) = 0"
proof (induction b rule: trim_front.induct)
  case (1 b)
  show ?case
  proof (cases "b = [] \<or> ws_front b = 0")
    case True
    then show ?thesis by (auto simp: trim_front.simps [of b])
  next
    case False
    then have "trim_front b = trim_front (drop (ws_front b) b)" by (subst trim_front.simps) simp
    then show ?thesis using 1 [OF False] by simp
  qed
qed

function words :: "bytes \<Rightarrow> bytes list" where
  "words b =
     (if trim_front b = [] then []
      else fst (take_word (trim_front b)) # words (snd (take_word (trim_front b))))"
  by pat_completeness auto
termination
proof (relation "measure length", simp)
  fix b :: bytes
  assume "trim_front b \<noteq> []"
  with take_word_shorter [of "trim_front b"] length_trim_front [of b]
  show "(snd (take_word (trim_front b)), b) \<in> measure length" by (simp add: trim_front_ws)
qed

declare words.simps [simp del]

definition split_whitespace :: "string \<Rightarrow> string list" where
  "split_whitespace s = map from_bytes (words (as_bytes s))"

lemma take_word_solid:
  assumes "\<And>c. c \<in> set w \<Longrightarrow> solid c" "r = [] \<or> ws_front r \<noteq> 0"
  shows "take_word (as_bytes w @ r) = (as_bytes w, r)"
  using assms(1)
proof (induction w)
  case Nil
  then show ?case using assms(2) by (cases r) (auto simp: as_bytes_def)
next
  case (Cons c w)
  then show ?case using ws_front_solid [of c] by (simp add: as_bytes_def)
qed

lemma split_whitespace_Nil [simp]: "split_whitespace [] = []"
  by (simp add: split_whitespace_def words.simps trim_front.simps as_bytes_def)

definition blank :: "char \<Rightarrow> bool" where
  "blank c \<longleftrightarrow> byte_of_char c \<in> {0x09, 0x0A, 0x0B, 0x0C, 0x0D, 0x20}"

lemma ws_front_blank: "blank c \<Longrightarrow> ws_front (byte_of_char c # b) = 1"
  by (simp add: blank_def ws_front_def)

lemma words_blank: "blank c \<Longrightarrow> words (byte_of_char c # b) = words b"
  by (simp add: words.simps [of "byte_of_char c # b"] words.simps [of b] trim_front.simps [of "byte_of_char c # b"]
      ws_front_blank)

lemma split_whitespace_blank: "blank c \<Longrightarrow> split_whitespace (c # s) = split_whitespace s"
  by (simp add: split_whitespace_def as_bytes_def words_blank)

lemma words_solid:
  assumes "w \<noteq> []" "\<And>c. c \<in> set w \<Longrightarrow> solid c" "r = [] \<or> ws_front r \<noteq> 0"
  shows "words (as_bytes w @ r) = as_bytes w # words r"
proof -
  have "ws_front (as_bytes w @ r) = 0"
    using assms(1,2) ws_front_solid by (cases w) (simp_all add: as_bytes_def)
  then have "trim_front (as_bytes w @ r) = as_bytes w @ r" by (simp add: trim_front.simps)
  then show ?thesis
    using assms(1) take_word_solid [OF assms(2,3)] by (subst words.simps) (simp add: as_bytes_def)
qed

lemma split_whitespace_word:
  assumes "w \<noteq> []" "\<And>c. c \<in> set w \<Longrightarrow> solid c"
  shows "split_whitespace w = [w]"
    and "blank b \<Longrightarrow> split_whitespace (w @ b # s) = w # split_whitespace s"
proof -
  show "split_whitespace w = [w]"
    using words_solid [OF assms, of "[]"]
    by (simp add: split_whitespace_def words.simps [of "[]"] trim_front.simps)
  assume b: "blank b"
  have "ws_front (as_bytes (b # s)) \<noteq> 0" by (simp add: as_bytes_def ws_front_blank [OF b])
  then have "words (as_bytes w @ as_bytes (b # s)) = as_bytes w # words (as_bytes (b # s))"
    using words_solid [OF assms, of "as_bytes (b # s)"] by blast
  then show "split_whitespace (w @ b # s) = w # split_whitespace s"
  proof -
    have "as_bytes (w @ b # s) = as_bytes w @ as_bytes (b # s)" by (simp add: as_bytes_def)
    moreover have "words (as_bytes (b # s)) = words (as_bytes s)" using words_blank [OF b] by (simp add: as_bytes_def)
    ultimately show ?thesis by (simp add: split_whitespace_def \<open>words (as_bytes w @ as_bytes (b # s)) = _\<close>)
  qed
qed

section \<open>Numbers\<close>

text \<open>\<open>from_str_radix\<close> for an unsigned type of the given number of values.\<close>

definition digit_value :: "char \<Rightarrow> nat option" where
  "digit_value c =
     (let n = of_char c :: nat
      in if 48 \<le> n \<and> n \<le> 57 then Some (n - 48)
         else if 97 \<le> n \<and> n \<le> 122 then Some (n - 87)
         else if 65 \<le> n \<and> n \<le> 90 then Some (n - 55)
         else None)"

fun digits_value :: "nat \<Rightarrow> nat \<Rightarrow> string \<Rightarrow> nat option" where
  "digits_value radix acc [] = Some acc"
| "digits_value radix acc (c # cs) =
     (case digit_value c of
        None \<Rightarrow> None
      | Some d \<Rightarrow> if d < radix then digits_value radix (acc * radix + d) cs else None)"

definition from_str_radix :: "nat \<Rightarrow> nat \<Rightarrow> string \<Rightarrow> nat option" where
  "from_str_radix bound radix s =
     (let digits = (case s of c # cs \<Rightarrow> if c = CHR ''+'' then cs else s | [] \<Rightarrow> [])
      in if digits = [] then None
         else case digits_value radix 0 digits of
                None \<Rightarrow> None
              | Some n \<Rightarrow> if n < bound then Some n else None)"

definition hex_char :: "nat \<Rightarrow> char" where
  "hex_char n = char_of (if n < 10 then 48 + n else 87 + n)"

text \<open>\<open>format!("{:04x}")\<close> of a number below 65536.\<close>

definition show_hex04 :: "nat \<Rightarrow> string" where
  "show_hex04 n = [hex_char (n div 4096 mod 16), hex_char (n div 256 mod 16), hex_char (n div 16 mod 16), hex_char (n mod 16)]"

lemma digit_value_hex_char: "n < 16 \<Longrightarrow> digit_value (hex_char n) = Some n"
  by (auto simp: digit_value_def hex_char_def Let_def)

lemma hex_char_not_plus:
  assumes "n < 16" shows "hex_char n \<noteq> CHR ''+''"
proof
  assume "hex_char n = CHR ''+''"
  then have "digit_value (CHR ''+'') = Some n" using digit_value_hex_char [OF assms] by simp
  then show False by (simp add: digit_value_def)
qed

lemma from_str_radix_show_hex04:
  assumes "n < 65536" "65536 \<le> bound"
  shows "from_str_radix bound 16 (show_hex04 n) = Some n"
proof -
  have "digits_value 16 0 (show_hex04 n)
        = Some (((n div 4096 mod 16 * 16 + n div 256 mod 16) * 16 + n div 16 mod 16) * 16 + n mod 16)"
    by (simp add: show_hex04_def digit_value_hex_char)
  also have "((n div 4096 mod 16 * 16 + n div 256 mod 16) * 16 + n div 16 mod 16) * 16 + n mod 16 = n"
  proof -
    define a b c where "a = n div 16" and "b = a div 16" and "c = b div 16"
    have dc: "n div 256 = b" "n div 4096 = c"
      unfolding a_def b_def c_def div_mult2_eq [symmetric] by simp_all
    moreover have "c mod 16 = c"
    proof (rule mod_less)
      show "c < 16" using assms(1) dc(2) by linarith
    qed
    moreover have "16 * a + n mod 16 = n" "16 * b + a mod 16 = a" "16 * c + b mod 16 = b"
      unfolding a_def b_def c_def by (rule mult_div_mod_eq)+
    ultimately show ?thesis unfolding a_def [symmetric] by simp
  qed
  finally show ?thesis
    using assms hex_char_not_plus [of "n div 4096 mod 16"]
    by (simp add: from_str_radix_def Let_def show_hex04_def)
qed

section \<open>ASCII text\<close>

lemma utf8_valid_ascii: "\<forall>b \<in> set bs. b < 128 \<Longrightarrow> utf8_valid bs"
proof (induction bs)
  case (Cons b bs)
  have "utf8_head (b # bs) = (1, True)" using Cons.prems by (simp add: utf8_head_def safe_get_def Let_def)
  then show ?case using Cons by (subst utf8_valid.simps) simp
qed simp

lemma from_utf8_ascii: "\<forall>b \<in> set (as_bytes s). b < 128 \<Longrightarrow> from_utf8 (as_bytes s) = Some s"
  by (simp add: from_utf8_def utf8_valid_ascii)

lemma from_utf8_lossy_ascii: "\<forall>b \<in> set (as_bytes s). b < 128 \<Longrightarrow> from_utf8_lossy (as_bytes s) = s"
  by (simp add: from_utf8_lossy_valid utf8_valid_ascii)

lemma hex_char_ascii: "n < 16 \<Longrightarrow> byte_of_char (hex_char n) < 128"
  by (simp add: byte_of_char_def hex_char_def word_less_nat_alt unat_of_nat)

lemma show_hex04_ascii: "\<forall>b \<in> set (as_bytes (show_hex04 n)). b < 128"
  by (simp add: show_hex04_def as_bytes_def hex_char_ascii)

lemma length_show_hex04 [simp]: "length (show_hex04 n) = 4"
  by (simp add: show_hex04_def)

end
