(* ===== verification/Device_Watcher.thy ===== *)
theory Device_Watcher
  imports Rust_Text
begin

text \<open>
  The device watcher (\<open>adb-device/src/watcher.rs\<close> and \<open>device.rs\<close>): asking the adb server for its
  devices, starting that server, the two pollers and the loop that hands their events to a
  receiver. The socket to the server, running \<open>adb\<close> and the USB library are parameters. The lemmas
  show that the server's list is read back as written and that a receiver that applies the events
  always knows the set of devices of the last poll that worked.
\<close>

section \<open>Devices\<close>

datatype DeviceState = Online | Offline | Unauthorized | Recovery | Sideload | Bootloader | Unknown

record DeviceInfo =
  dev_id :: string
  dev_state :: DeviceState

datatype WatchEvent = Added string | Removed string | Changed string

section \<open>The adb server\<close>

datatype watch_error = ConnectionRefused | WatchError string

text \<open>
  The parameters: sending a request and receiving all that the server answers until it closes,
  and running \<open>adb\<close> with arguments.
\<close>

datatype run_outcome = Spawn_failed string | Run_timed_out | Wait_failed string | Exited bool

record 's server =
  srv_ask :: "string \<Rightarrow> nat \<Rightarrow> bytes \<Rightarrow> 's \<Rightarrow> (watch_error + bytes) \<times> 's"
  srv_run :: "string \<Rightarrow> string list \<Rightarrow> 's \<Rightarrow> run_outcome \<times> 's"

definition state_of :: "string \<Rightarrow> DeviceState" where
  "state_of s =
     (if s = ''device'' then Online
      else if s = ''offline'' then Offline
      else if s = ''unauthorized'' then Unauthorized
      else if s = ''recovery'' then Recovery
      else if s = ''sideload'' then Sideload
      else if s = ''bootloader'' then Bootloader
      else Unknown)"

definition parse_device_line :: "string \<Rightarrow> DeviceInfo option" where
  "parse_device_line line =
     (if line = [] then None
      else let parts = split_whitespace line;
               serial = (case parts of [] \<Rightarrow> [] | p # _ \<Rightarrow> p);
               state = state_of (case parts of _ # q # _ \<Rightarrow> q | _ \<Rightarrow> [])
           in if serial = [] then None else Some \<lparr>dev_id = serial, dev_state = state\<rparr>)"

definition parse_devices :: "string \<Rightarrow> DeviceInfo list" where
  "parse_devices text = List.map_filter parse_device_line (str_lines text)"

definition devices_request :: bytes where
  "devices_request =
     (let payload = ''host:devices-l'' in as_bytes (show_hex04 (length payload)) @ as_bytes payload)"

definition read_reply :: "bytes \<Rightarrow> watch_error + DeviceInfo list" where
  "read_reply reply =
     (if length reply < 8 then Err (WatchError ''early eof'')
      else case from_utf8 (slice 0 4 reply) of
             None \<Rightarrow> Err (WatchError ''bad status'')
           | Some status \<Rightarrow>
               if status \<noteq> ''OKAY'' then Err (WatchError (''adb server: '' @ status))
               else case from_utf8 (slice 4 8 reply) of
                      None \<Rightarrow> Err (WatchError ''bad length'')
                    | Some len_str \<Rightarrow>
                        (case from_str_radix (2 ^ 64) 16 len_str of
                           None \<Rightarrow> Err (WatchError (''bad length '' @ len_str))
                         | Some body_len \<Rightarrow>
                             if length reply < 8 + body_len then Err (WatchError ''early eof'')
                             else Ok (parse_devices (from_utf8_lossy (slice 8 (8 + body_len) reply)))))"

definition query_adb_server :: "'s server \<Rightarrow> string \<Rightarrow> nat \<Rightarrow> 's \<Rightarrow> (watch_error + DeviceInfo list) \<times> 's" where
  "query_adb_server S host port s =
     (case srv_ask S host port devices_request s of
        (Inl e, s) \<Rightarrow> (Err e, s)
      | (Inr reply, s) \<Rightarrow> (read_reply reply, s))"

definition ensure_adb_server_via ::
  "'s server \<Rightarrow> string \<Rightarrow> string list \<Rightarrow> string \<Rightarrow> nat \<Rightarrow> 's \<Rightarrow> (watch_error + unit) \<times> 's" where
  "ensure_adb_server_via S program args host port s =
     (if host \<noteq> ''127.0.0.1'' \<and> host \<noteq> ''localhost'' \<and> host \<noteq> ''::1''
      then (Err (WatchError (''adb server at '' @ host @ '':'' @ show_nat port @ '' unreachable'')), s)
      else case srv_run S program args s of
             (Spawn_failed e, s) \<Rightarrow> (Err (WatchError (''spawn '' @ program @ '': '' @ e)), s)
           | (Run_timed_out, s) \<Rightarrow> (Err (WatchError ''adb start-server timed out''), s)
           | (Wait_failed e, s) \<Rightarrow> (Err (WatchError e), s)
           | (Exited success, s) \<Rightarrow>
               if \<not> success then (Err (WatchError ''adb start-server failed''), s) else (Ok (), s))"

definition ensure_adb_server :: "'s server \<Rightarrow> string \<Rightarrow> nat \<Rightarrow> 's \<Rightarrow> (watch_error + unit) \<times> 's" where
  "ensure_adb_server S host port s =
     ensure_adb_server_via S ''adb''
       (''start-server'' # (if port \<noteq> 5037 then [''-P'', show_nat port] else [])) host port s"

definition fetch :: "'s server \<Rightarrow> string \<Rightarrow> nat \<Rightarrow> 's \<Rightarrow> (watch_error + DeviceInfo list) \<times> 's" where
  "fetch S host port s =
     (case query_adb_server S host port s of
        (Inr devices, s) \<Rightarrow> (Ok devices, s)
      | (Inl e, s) \<Rightarrow>
          if e = ConnectionRefused
          then (case ensure_adb_server S host port s of
                  (Inl e, s) \<Rightarrow> (Err e, s)
                | (Inr _, s) \<Rightarrow> query_adb_server S host port s)
          else (Err e, s))"

section \<open>Polling\<close>

definition ids :: "DeviceInfo list \<Rightarrow> string set" where
  "ids ds = dev_id ` set ds"

definition changed :: "DeviceInfo list \<Rightarrow> DeviceInfo \<Rightarrow> bool" where
  "changed prev d =
     (case find (\<lambda>p. dev_id p = dev_id d) prev of
        None \<Rightarrow> False
      | Some p \<Rightarrow> dev_state p \<noteq> dev_state d)"

definition netstat_events :: "DeviceInfo list \<Rightarrow> DeviceInfo list \<Rightarrow> WatchEvent list" where
  "netstat_events prev current =
     List.map_filter (\<lambda>d. if dev_id d \<notin> ids prev then Some (Added (dev_id d))
                     else if changed prev d then Some (Changed (dev_id d)) else None) current
     @ List.map_filter (\<lambda>p. if dev_id p \<notin> ids current then Some (Removed (dev_id p)) else None) prev"

definition netstat_poll ::
  "'s server \<Rightarrow> string \<Rightarrow> nat \<Rightarrow> DeviceInfo list \<times> 's \<Rightarrow> WatchEvent list \<times> DeviceInfo list \<times> 's" where
  "netstat_poll S host port st =
     (case st of (last_set, s) \<Rightarrow>
      case fetch S host port s of
        (Inl e, s) \<Rightarrow> ([], last_set, s)
      | (Inr current, s) \<Rightarrow> (netstat_events last_set current, current, s))"

text \<open>USB: the descriptors of a device, where the library could read them.\<close>

type_synonym usb_interface = "u8 \<times> u8 \<times> u8"

record usb_device =
  usb_vendor :: "u16 option"
  usb_configs :: "usb_interface list list option list"
  usb_bus :: nat
  usb_addr :: nat

definition VENDOR_GOOGLE :: u16 where "VENDOR_GOOGLE = 0x18d1"
definition VENDOR_SAMSUNG :: u16 where "VENDOR_SAMSUNG = 0x04e8"
definition ADB_CLASS :: u8 where "ADB_CLASS = 0xff"
definition ADB_SUBCLASS :: u8 where "ADB_SUBCLASS = 0x42"
definition ADB_PROTOCOL :: u8 where "ADB_PROTOCOL = 0x01"

definition is_adb_device :: "usb_device \<Rightarrow> bool" where
  "is_adb_device device =
     (case usb_vendor device of
        None \<Rightarrow> False
      | Some vendor \<Rightarrow>
          if vendor \<noteq> VENDOR_GOOGLE \<and> vendor \<noteq> VENDOR_SAMSUNG then False
          else list_ex (\<lambda>cfg. case cfg of
                          None \<Rightarrow> False
                        | Some ifaces \<Rightarrow>
                            list_ex (list_ex (\<lambda>i. i = (ADB_CLASS, ADB_SUBCLASS, ADB_PROTOCOL))) ifaces)
                 (usb_configs device))"

definition pad3 :: "nat \<Rightarrow> string" where
  "pad3 n = replicate (3 - length (show_nat n)) (CHR ''0'') @ show_nat n"

definition usb_id :: "usb_device \<Rightarrow> string" where
  "usb_id device = ''usb:'' @ pad3 (usb_bus device) @ '':'' @ pad3 (usb_addr device)"

definition usb_events :: "DeviceInfo list \<Rightarrow> DeviceInfo list \<Rightarrow> WatchEvent list" where
  "usb_events prev current =
     List.map_filter (\<lambda>d. if dev_id d \<notin> ids prev then Some (Added (dev_id d)) else None) current
     @ List.map_filter (\<lambda>p. if dev_id p \<notin> ids current then Some (Removed (dev_id p)) else None) prev"

text \<open>\<open>usb_list\<close> is what the library lists, \<open>None\<close> where it fails.\<close>

definition usb_poll ::
  "('s \<Rightarrow> usb_device list option \<times> 's) \<Rightarrow> DeviceInfo list \<times> 's \<Rightarrow> WatchEvent list \<times> DeviceInfo list \<times> 's" where
  "usb_poll usb_list st =
     (case st of (last_set, s) \<Rightarrow>
      case usb_list s of
        (None, s) \<Rightarrow> ([], last_set, s)
      | (Some devices, s) \<Rightarrow>
          let current = map (\<lambda>d. \<lparr>dev_id = usb_id d, dev_state = Online\<rparr>) (filter is_adb_device devices)
          in (usb_events last_set current, current, s))"

section \<open>The loop\<close>

text \<open>
  \<open>subscribe\<close>: the thread sends the events of each round one by one until a send finds the receiver
  gone, and stops after a round in which the receiver went. \<open>open_for n\<close> says whether the receiver
  is there at the \<open>n\<close>th send, \<open>gone_after\<close> lists, round by round, whether it is gone at the sleep.
\<close>

fun send_events :: "(nat \<Rightarrow> bool) \<Rightarrow> WatchEvent list \<Rightarrow> WatchEvent list \<Rightarrow> WatchEvent list \<times> bool" where
  "send_events open_for sent [] = (sent, True)"
| "send_events open_for sent (e # es) =
     (if open_for (length sent) then send_events open_for (sent @ [e]) es else (sent, False))"

fun watch_loop ::
  "('w \<Rightarrow> WatchEvent list \<times> 'w) \<Rightarrow> (nat \<Rightarrow> bool) \<Rightarrow> bool list \<Rightarrow> WatchEvent list \<times> 'w \<Rightarrow> WatchEvent list \<times> 'w" where
  "watch_loop poll open_for [] (sent, w) = (sent, w)"
| "watch_loop poll open_for (gone # rounds) (sent, w) =
     (case poll w of (events, w) \<Rightarrow>
      case send_events open_for sent events of
        (sent, False) \<Rightarrow> (sent, w)
      | (sent, True) \<Rightarrow> if gone then (sent, w) else watch_loop poll open_for rounds (sent, w))"

section \<open>What a receiver knows\<close>

fun apply_event :: "string set \<Rightarrow> WatchEvent \<Rightarrow> string set" where
  "apply_event A (Added i) = insert i A"
| "apply_event A (Removed i) = A - {i}"
| "apply_event A (Changed i) = A"

definition known :: "WatchEvent list \<Rightarrow> string set" where
  "known es = foldl apply_event {} es"

lemma known_append: "known (es @ fs) = foldl apply_event (known es) fs"
  by (simp add: known_def)

lemma map_filter_Cons:
  "List.map_filter f (x # xs) = (case f x of None \<Rightarrow> [] | Some y \<Rightarrow> [y]) @ List.map_filter f xs"
  by (auto simp: List.map_filter_def split: option.splits)

lemma map_filter_Nil: "List.map_filter f [] = []"
  by (simp add: List.map_filter_def)

lemmas map_filter_rec = map_filter_Cons map_filter_Nil

lemma apply_removed:
  "foldl apply_event A (List.map_filter (\<lambda>p. if dev_id p \<notin> C then Some (Removed (dev_id p)) else None) ps)
   = A - (dev_id ` set ps - C)"
  by (induction ps arbitrary: A) (auto simp: map_filter_rec)

lemma apply_added_changed:
  "foldl apply_event A (List.map_filter (\<lambda>d. if dev_id d \<notin> P then Some (Added (dev_id d))
      else if ch d then Some (Changed (dev_id d)) else None) ds)
   = A \<union> (dev_id ` set ds - P)"
  by (induction ds arbitrary: A) (auto simp: map_filter_rec)

lemma apply_added:
  "foldl apply_event A (List.map_filter (\<lambda>d. if dev_id d \<notin> P then Some (Added (dev_id d)) else None) ds)
   = A \<union> (dev_id ` set ds - P)"
  by (induction ds arbitrary: A) (auto simp: map_filter_rec)

lemma netstat_events_apply: "foldl apply_event (ids prev) (netstat_events prev current) = ids current"
  unfolding netstat_events_def foldl_append apply_added_changed apply_removed by (auto simp: ids_def)

lemma usb_events_apply: "foldl apply_event (ids prev) (usb_events prev current) = ids current"
  unfolding usb_events_def foldl_append apply_added apply_removed by (auto simp: ids_def)

text \<open>
  What the loop needs of a watcher, the contract of the trait \<open>WatcherImpl\<close>: applying the events of
  a poll to the devices known before gives the devices known after.
\<close>

locale watcher_impl =
  fixes poll :: "'w \<Rightarrow> WatchEvent list \<times> 'w"
    and seen :: "'w \<Rightarrow> string set"
  assumes poll_events: "poll w = (es, w') \<Longrightarrow> foldl apply_event (seen w) es = seen w'"
begin

lemma send_events_all:
  "(\<And>n. open_for n) \<Longrightarrow> send_events open_for sent es = (sent @ es, True)"
  by (induction es arbitrary: sent) simp_all

lemma watch_loop_known:
  assumes "\<And>n. open_for n"
  shows "known sent = seen w \<Longrightarrow> watch_loop poll open_for rounds (sent, w) = (sent', w') \<Longrightarrow> known sent' = seen w'"
proof (induction rounds arbitrary: sent w)
  case (Cons gone rounds)
  obtain es w1 where p: "poll w = (es, w1)" by force
  have k: "known (sent @ es) = seen w1"
    using poll_events [OF p] Cons.prems(1) by (simp add: known_append)
  show ?case
  proof (cases gone)
    case True
    then show ?thesis using Cons.prems(2) k by (simp add: p send_events_all [OF assms])
  next
    case False
    then show ?thesis using Cons.prems(2) Cons.IH [OF k] by (simp add: p send_events_all [OF assms])
  qed
qed simp

lemma watch_loop_prefix:
  "\<exists>more. fst (watch_loop poll open_for rounds (sent, w)) = sent @ more"
proof (induction rounds arbitrary: sent w)
  case (Cons gone rounds)
  have send: "\<exists>more. fst (send_events open_for sent es) = sent @ more" for es sent
    by (induction es arbitrary: sent) (auto, metis append.assoc append_Cons)
  obtain es w1 where p: "poll w = (es, w1)" by force
  obtain sent1 b where s: "send_events open_for sent es = (sent1, b)" by force
  then obtain more where m: "sent1 = sent @ more" using send [of sent es] by auto
  show ?case using Cons.IH [of sent1 w1] m by (auto simp: p s split: bool.split)
qed simp

end

interpretation netstat: watcher_impl "netstat_poll S host port" "\<lambda>(last_set, s). ids last_set"
  for S :: "'s server" and host port
proof
  fix w es w'
  assume "netstat_poll S host port w = (es, w')"
  then show "foldl apply_event (case w of (last_set, s) \<Rightarrow> ids last_set) es = (case w' of (last_set, s) \<Rightarrow> ids last_set)"
    by (auto simp: netstat_poll_def netstat_events_apply split: prod.splits sum.splits)
qed

interpretation usb: watcher_impl "usb_poll usb_list" "\<lambda>(last_set, s). ids last_set"
  for usb_list :: "'s \<Rightarrow> usb_device list option \<times> 's"
proof
  fix w es w'
  assume "usb_poll usb_list w = (es, w')"
  then show "foldl apply_event (case w of (last_set, s) \<Rightarrow> ids last_set) es = (case w' of (last_set, s) \<Rightarrow> ids last_set)"
    by (auto simp: usb_poll_def usb_events_apply Let_def split: prod.splits option.splits)
qed

section \<open>The server's list\<close>

text \<open>A list as the server prints it: serial, state and further words of a device on a line.\<close>

fun state_name :: "DeviceState \<Rightarrow> string" where
  "state_name Online = ''device''"
| "state_name Offline = ''offline''"
| "state_name Unauthorized = ''unauthorized''"
| "state_name Recovery = ''recovery''"
| "state_name Sideload = ''sideload''"
| "state_name Bootloader = ''bootloader''"
| "state_name Unknown = ''unknown''"

definition device_line :: "DeviceInfo \<Rightarrow> string" where
  "device_line d = dev_id d @ CHR 0x20 # state_name (dev_state d) @ '' product:x''"

definition good_serial :: "string \<Rightarrow> bool" where
  "good_serial s \<longleftrightarrow> s \<noteq> [] \<and> list_all solid s"

definition server_reply :: "DeviceInfo list \<Rightarrow> bytes" where
  "server_reply ds =
     (let body = as_bytes (concat (map (\<lambda>d. device_line d @ [CHR 0x0A]) ds))
      in as_bytes ''OKAY'' @ as_bytes (show_hex04 (length body)) @ body)"

lemma state_of_name: "state_of (state_name st) = st"
  by (cases st) (simp_all add: state_of_def)

lemma blank_space: "blank (CHR 0x20)"
  by (simp add: blank_def byte_of_char_def)

lemma state_name_solid: "state_name st \<noteq> []" "c \<in> set (state_name st) \<Longrightarrow> solid c"
  by (cases st; auto simp: solid_def)+

lemma parse_device_line_written:
  assumes "good_serial (dev_id d)"
  shows "parse_device_line (device_line d) = Some d"
proof -
  have "\<And>c. c \<in> set (dev_id d) \<Longrightarrow> solid c" "dev_id d \<noteq> []"
    using assms by (auto simp: good_serial_def list_all_iff)
  then have "split_whitespace (device_line d)
      = dev_id d # state_name (dev_state d) # split_whitespace ''product:x''"
    using split_whitespace_word(2) [of "dev_id d" "CHR 0x20"] blank_space
      split_whitespace_word(2) [of "state_name (dev_state d)" "CHR 0x20"] state_name_solid
    by (simp add: device_line_def)
  then show ?thesis using \<open>dev_id d \<noteq> []\<close>
    by (simp add: parse_device_line_def device_line_def state_of_name Let_def)
qed

lemma device_line_chars:
  assumes "good_serial (dev_id d)" "c \<in> set (device_line d)"
  shows "solid c \<or> c = CHR 0x20"
  using assms state_name_solid(2) [of c "dev_state d"]
  by (auto simp: device_line_def good_serial_def list_all_iff solid_def)

lemma ascii_body:
  assumes "list_all (\<lambda>d. good_serial (dev_id d)) ds"
  shows "\<forall>b \<in> set (as_bytes (concat (map (\<lambda>d. device_line d @ [CHR 0x0A]) ds))). b < 128"
proof
  fix b assume "b \<in> set (as_bytes (concat (map (\<lambda>d. device_line d @ [CHR 0x0A]) ds)))"
  then obtain c where "b = byte_of_char c" "(\<exists>d \<in> set ds. c \<in> set (device_line d)) \<or> c = CHR 0x0A"
    by (auto simp: as_bytes_def split: if_splits)
  moreover then have "solid c \<or> c = CHR 0x20 \<or> c = CHR 0x0A"
    using device_line_chars assms by (auto simp: list_all_iff)
  ultimately show "b < 128" using solid_byte(2) by (auto simp: byte_of_char_def)
qed

lemma parse_devices_written:
  assumes "list_all (\<lambda>d. good_serial (dev_id d)) ds"
  shows "parse_devices (concat (map (\<lambda>d. device_line d @ [CHR 0x0A]) ds)) = ds"
proof -
  have "str_lines (concat (map (\<lambda>l. l @ [CHR 0x0A]) (map device_line ds))) = map device_line ds"
  proof (rule str_lines_join)
    fix l assume "l \<in> set (map device_line ds)"
    then obtain d where d: "l = device_line d" "good_serial (dev_id d)" using assms by (auto simp: list_all_iff)
    show "CHR 0x0A \<notin> set l \<and> (l = [] \<or> last l \<noteq> CHR 0x0D)"
    proof
      show "CHR 0x0A \<notin> set l" using device_line_chars [OF d(2), of "CHR 0x0A"] by (auto simp: d(1) solid_def)
      show "l = [] \<or> last l \<noteq> CHR 0x0D" by (simp add: d(1) device_line_def)
    qed
  qed
  then have "parse_devices (concat (map (\<lambda>d. device_line d @ [CHR 0x0A]) ds))
      = List.map_filter parse_device_line (map device_line ds)"
    by (simp add: parse_devices_def o_def)
  also have "\<dots> = ds" using assms
    by (induction ds) (simp_all add: map_filter_rec parse_device_line_written)
  finally show ?thesis .
qed

lemma read_reply_written:
  assumes "list_all (\<lambda>d. good_serial (dev_id d)) ds"
    and "length (concat (map (\<lambda>d. device_line d @ [CHR 0x0A]) ds)) < 65536"
  shows "read_reply (server_reply ds) = Ok ds"
proof -
  let ?body = "concat (map (\<lambda>d. device_line d @ [CHR 0x0A]) ds)"
  let ?hex = "show_hex04 (length ?body)"
  have reply: "server_reply ds = as_bytes ''OKAY'' @ as_bytes ?hex @ as_bytes ?body"
    by (simp add: server_reply_def Let_def)
  have "slice 0 4 (server_reply ds) = as_bytes ''OKAY''" "slice 4 8 (server_reply ds) = as_bytes ?hex"
    "slice 8 (8 + length ?body) (server_reply ds) = as_bytes ?body"
    unfolding reply by (simp_all add: slice_def)
  moreover have "from_utf8 (as_bytes ''OKAY'') = Some ''OKAY''"
    by (rule from_utf8_ascii) (simp add: as_bytes_def byte_of_char_def)
  moreover have "from_utf8 (as_bytes ?hex) = Some ?hex" by (rule from_utf8_ascii [OF show_hex04_ascii])
  moreover have "from_str_radix (2 ^ 64) 16 ?hex = Some (length ?body)"
    using assms(2) by (intro from_str_radix_show_hex04) simp_all
  moreover have "length (server_reply ds) = 8 + length ?body" by (simp add: reply)
  ultimately show ?thesis
    using parse_devices_written [OF assms(1)] from_utf8_lossy_ascii [OF ascii_body [OF assms(1)]]
    by (simp add: read_reply_def)
qed

end
