(* ===== verification/Device_Properties.thy ===== *)
theory Device_Properties
  imports Device_Watcher
begin

text \<open>The properties of the device watcher.\<close>

text \<open>
  C20. A receiver that applies the events it is sent, starting from nothing, always knows exactly the
  devices of the last poll that worked, for both watchers, whatever the adb server, its start and the
  USB library answer from poll to poll.
\<close>

theorem events_track_devices:
  assumes "watch_loop (netstat_poll S host port) (\<lambda>_. True) rounds ([], [], s) = (sent, current, s')"
    and "watch_loop (usb_poll usb_list) (\<lambda>_. True) rounds' ([], [], u) = (sent', current', u')"
  shows "known sent = ids current \<and> known sent' = ids current'"
  using netstat.watch_loop_known [of "\<lambda>_. True" "[]" "([], s)", OF _ _ assms(1)]
    usb.watch_loop_known [of "\<lambda>_. True" "[]" "([], u)", OF _ _ assms(2)]
  by (simp add: known_def ids_def)

text \<open>A server that first refuses, then lists one phone, then fails, then lists another.\<close>

definition demo_server :: "nat server" where
  "demo_server =
     \<lparr>srv_ask = (\<lambda>_ _ _ n.
        (if n = 0 then Err ConnectionRefused
         else if n = 1 then Ok (server_reply [\<lparr>dev_id = ''A1'', dev_state = Online\<rparr>])
         else if n = 2 then Err (WatchError ''busy'')
         else Ok (server_reply [\<lparr>dev_id = ''B2'', dev_state = Offline\<rparr>]), n + 1)),
      srv_run = (\<lambda>_ _ n. (Exited True, n))\<rparr>"

lemma demo_replies:
  "read_reply (server_reply [\<lparr>dev_id = ''A1'', dev_state = Online\<rparr>]) = Ok [\<lparr>dev_id = ''A1'', dev_state = Online\<rparr>]"
  "read_reply (server_reply [\<lparr>dev_id = ''B2'', dev_state = Offline\<rparr>]) = Ok [\<lparr>dev_id = ''B2'', dev_state = Offline\<rparr>]"
  by (rule read_reply_written; simp add: good_serial_def solid_def device_line_def)+

theorem events_track_devices_witness:
  "known [Added ''A1'', Added ''B2'', Removed ''A1''] = {''B2''}"
proof -
  have "watch_loop (netstat_poll demo_server ''localhost'' 5037) (\<lambda>_. True) [False, False, False] ([], [], 0)
      = ([Added ''A1'', Added ''B2'', Removed ''A1''], [\<lparr>dev_id = ''B2'', dev_state = Offline\<rparr>], 4)"
    by (simp add: netstat_poll_def fetch_def query_adb_server_def ensure_adb_server_def ensure_adb_server_via_def
        demo_server_def demo_replies netstat_events_def map_filter_rec ids_def)
  from events_track_devices [OF this, of "\<lambda>u. (None, u)" "[]" "()"] show ?thesis by (simp add: ids_def)
qed

end
