(* ===== verification/Daemon_Shell.thy ===== *)
theory Daemon_Shell
  imports Rust_Text
begin

text \<open>
  What the daemon lets through to the shell of the phone (\<open>adb-daemon/src/main.rs\<close>): package names,
  the allowlist of \<open>run_shell\<close>, the quoting of paths and the checks of addresses and tree paths.
  \<open>sh_split\<close> is a reference of how a POSIX shell splits a command line, with \<open>None\<close> for a line that
  has an unquoted character with a meaning of its own. The lemmas show that what passes the checks
  reaches the phone as the words that were meant.
\<close>

section \<open>Characters\<close>

definition is_ascii_digit :: "char \<Rightarrow> bool" where
  "is_ascii_digit c \<longleftrightarrow> (48 :: nat) \<le> of_char c \<and> of_char c \<le> (57 :: nat)"

definition is_ascii_alphabetic :: "char \<Rightarrow> bool" where
  "is_ascii_alphabetic c \<longleftrightarrow>
     ((65 :: nat) \<le> of_char c \<and> of_char c \<le> (90 :: nat)) \<or> ((97 :: nat) \<le> of_char c \<and> of_char c \<le> (122 :: nat))"

definition is_ascii_alphanumeric :: "char \<Rightarrow> bool" where
  "is_ascii_alphanumeric c \<longleftrightarrow> is_ascii_digit c \<or> is_ascii_alphabetic c"

section \<open>Checks\<close>

definition is_segment :: "string \<Rightarrow> bool" where
  "is_segment segment =
     (case segment of
        [] \<Rightarrow> False
      | first # chars \<Rightarrow>
          is_ascii_alphabetic first \<and> list_all (\<lambda>c. is_ascii_alphanumeric c \<or> c = CHR ''_'') chars)"

definition is_package_name :: "string \<Rightarrow> bool" where
  "is_package_name package =
     (if package = [] \<or> length package > 224 then False
      else list_all is_segment (split_on (CHR ''.'') package))"

definition SHELL_ALLOWLIST :: "string list" where
  "SHELL_ALLOWLIST =
     [''pm'', ''am'', ''svc'', ''settings'', ''wm'', ''getprop'', ''dumpsys'', ''input'', ''monkey'']"

definition is_safe_shell_arg :: "string \<Rightarrow> bool" where
  "is_safe_shell_arg arg \<longleftrightarrow>
     arg \<noteq> [] \<and> length arg \<le> 512
     \<and> list_all (\<lambda>c. is_ascii_alphanumeric c \<or> c \<in> set ''-_./:=@,+%'') arg"

definition arg_at :: "string list \<Rightarrow> nat \<Rightarrow> string" where
  "arg_at argv i = (if i < length argv then argv ! i else [])"

definition allowed_subcommand :: "string \<Rightarrow> string list \<Rightarrow> bool" where
  "allowed_subcommand head argv =
     (if head = ''getprop'' \<or> head = ''dumpsys'' then True
      else if head = ''svc''
      then arg_at argv 1 \<in> {''wifi'', ''data'', ''bluetooth''} \<and> arg_at argv 2 \<in> {''enable'', ''disable''}
      else if head = ''settings'' then arg_at argv 1 \<in> {''get'', ''put''}
      else if head = ''wm'' then arg_at argv 1 \<in> {''size'', ''density''}
      else if head = ''am'' then arg_at argv 1 = ''force-stop''
      else if head = ''pm'' then arg_at argv 1 \<in> {''clear'', ''grant'', ''revoke'', ''list'', ''path''}
      else if head = ''input'' then arg_at argv 1 \<in> {''tap'', ''text'', ''keyevent'', ''swipe''}
      else if head = ''monkey''
      then length argv = 6 \<and> arg_at argv 1 = ''-p'' \<and> arg_at argv 3 = ''-c''
           \<and> arg_at argv 4 = ''android.intent.category.LAUNCHER'' \<and> arg_at argv 5 = ''1''
      else False)"

text \<open>Why a command is refused; the daemon renders each as a sentence.\<close>

datatype shell_refusal =
    Empty_argv | Not_allowed string | Unsafe_argument | Bad_svc "string list" | Bad_subcommand string string | Bad_monkey

definition validate_shell_argv :: "string list \<Rightarrow> shell_refusal + unit" where
  "validate_shell_argv argv =
     (case argv of
        [] \<Rightarrow> Err Empty_argv
      | head # _ \<Rightarrow>
          if head \<notin> set SHELL_ALLOWLIST then Err (Not_allowed head)
          else if \<not> list_all is_safe_shell_arg argv then Err Unsafe_argument
          else if allowed_subcommand head argv then Ok ()
          else if head = ''svc'' then Err (Bad_svc argv)
          else if head = ''monkey'' then Err Bad_monkey
          else Err (Bad_subcommand head (arg_at argv 1)))"

definition escape_quotes :: "string \<Rightarrow> string" where
  "escape_quotes path = concat (map (\<lambda>c. if c = CHR 0x27 then [CHR 0x27, CHR 0x5C, CHR 0x27, CHR 0x27] else [c]) path)"

definition quoted :: "string \<Rightarrow> string" where
  "quoted s = [CHR 0x27] @ s @ [CHR 0x27]"

definition check_tree_path :: "string \<Rightarrow> string + unit" where
  "check_tree_path path =
     (if \<not> prefix ''/'' path then Err ''tree paths must be absolute''
      else if CHR 0x00 \<in> set path \<or> length path > 4096
      then Err ''tree paths must be non-NUL and at most 4096 bytes''
      else Ok ())"

definition bracketed_host :: "string \<Rightarrow> string" where
  "bracketed_host host =
     (case str_strip_prefix ''['' host of
        Some h \<Rightarrow> (case str_strip_suffix '']'' h of Some h \<Rightarrow> h | None \<Rightarrow> [])
      | None \<Rightarrow> if suffix '']'' host then [] else host)"

definition validate_host_port :: "string \<Rightarrow> bool" where
  "validate_host_port address =
     (case rsplit_once (CHR '':'') address of
        None \<Rightarrow> False
      | Some (host, port) \<Rightarrow>
          if port = [] \<or> \<not> list_all is_ascii_digit port then False
          else case from_str_radix 65536 10 port of
                 None \<Rightarrow> False
               | Some p \<Rightarrow>
                   if p = 0 then False
                   else let host = bracketed_host host
                        in host \<noteq> [] \<and> CHR ''['' \<notin> set host \<and> CHR '']'' \<notin> set host
                           \<and> list_all (\<lambda>c. is_ascii_alphanumeric c \<or> c \<in> set ''.-_:%'') host)"

text \<open>\<open>chars\<close> of a valid \<open>str\<close>: its bytes without the continuation bytes, where only ASCII is looked at.\<close>

definition sanitize_mount_name :: "string \<Rightarrow> string option" where
  "sanitize_mount_name serial =
     (let cleaned = map (\<lambda>c. if is_ascii_alphanumeric c \<or> c \<in> set ''-_.'' then c else CHR ''_'')
          (filter (\<lambda>c. \<not> is_cont (byte_of_char c)) serial)
      in if cleaned = [] \<or> cleaned = ''.'' \<or> cleaned = ''..'' then None else Some cleaned)"

definition is_wireless_serial :: "string \<Rightarrow> bool" where
  "is_wireless_serial serial =
     (case rsplit_once (CHR '':'') serial of
        Some (host, port) \<Rightarrow> host \<noteq> [] \<and> from_str_radix 65536 10 port \<noteq> None
      | None \<Rightarrow> False)"

definition parse_adb_server :: "string \<Rightarrow> string \<times> nat" where
  "parse_adb_server spec =
     (let default = (\<lambda>p. case from_str_radix 65536 10 p of Some n \<Rightarrow> n | None \<Rightarrow> 5037);
          bracketed = (case str_strip_prefix ''['' spec of
                         None \<Rightarrow> None
                       | Some rest \<Rightarrow> split_once (CHR '']'') rest)
      in case bracketed of
           Some (host, after) \<Rightarrow>
             (host, case str_strip_prefix '':'' after of Some p \<Rightarrow> default p | None \<Rightarrow> 5037)
         | None \<Rightarrow>
             if \<not> prefix ''['' spec \<and> length (filter (\<lambda>c. c = CHR '':'') spec) > 1 then (spec, 5037)
             else case rsplit_once (CHR '':'') spec of
                    Some (host, port) \<Rightarrow> (host, default port)
                  | None \<Rightarrow> (spec, 5037))"

section \<open>A reference shell\<close>

definition sh_meta :: "char set" where
  "sh_meta = {CHR ''|'', CHR ''&'', CHR '';'', CHR ''<'', CHR ''>'', CHR ''('', CHR '')'', CHR 0x24, CHR 0x60, CHR 0x22,
     CHR ''*'', CHR ''?'', CHR ''['', CHR '']'', CHR ''#'', CHR ''~'', CHR ''!'', CHR ''{'', CHR ''}'', CHR 0x0A,
     CHR 0x09, CHR 0x0D, CHR 0x00}"

definition add_char :: "string option \<Rightarrow> char \<Rightarrow> string option" where
  "add_char w c = Some (case w of None \<Rightarrow> [c] | Some w \<Rightarrow> w @ [c])"

definition end_word :: "string option \<Rightarrow> string list \<Rightarrow> string list" where
  "end_word w ws = (case w of None \<Rightarrow> ws | Some w \<Rightarrow> w # ws)"

fun sh_lex :: "bool \<Rightarrow> string option \<Rightarrow> string \<Rightarrow> string list option" where
  "sh_lex quote w [] = (if quote then None else Some (end_word w []))"
| "sh_lex True w (c # s) =
     (if c = CHR 0x27 then sh_lex False w s else sh_lex True (add_char w c) s)"
| "sh_lex False w (c # s) =
     (if c = CHR 0x27 then sh_lex True (Some (case w of None \<Rightarrow> [] | Some w \<Rightarrow> w)) s
      else if c = CHR 0x5C then (case s of [] \<Rightarrow> None | d # s \<Rightarrow> sh_lex False (add_char w d) s)
      else if c = CHR 0x20 then map_option (end_word w) (sh_lex False None s)
      else if c \<in> sh_meta then None
      else sh_lex False (add_char w c) s)"

definition sh_split :: "string \<Rightarrow> string list option" where
  "sh_split s = sh_lex False None s"

section \<open>The words the phone sees\<close>

definition plain :: "char \<Rightarrow> bool" where
  "plain c \<longleftrightarrow> c \<noteq> CHR 0x27 \<and> c \<noteq> CHR 0x5C \<and> c \<noteq> CHR 0x20 \<and> c \<notin> sh_meta"

lemma lex_plain:
  "list_all plain w \<Longrightarrow> sh_lex False (Some p) (w @ s) = sh_lex False (Some (p @ w)) s"
  by (induction w arbitrary: p) (auto simp: plain_def add_char_def)

lemma lex_plain_word:
  "w \<noteq> [] \<Longrightarrow> list_all plain w \<Longrightarrow> sh_lex False None (w @ s) = sh_lex False (Some w) s"
  using lex_plain [of "tl w" "[hd w]" s] by (cases w) (auto simp: plain_def add_char_def)

lemma lex_word_space:
  "w \<noteq> [] \<Longrightarrow> list_all plain w \<Longrightarrow> sh_lex False None (w @ CHR 0x20 # s) = map_option ((#) w) (sh_lex False None s)"
  using lex_plain_word [of w "CHR 0x20 # s"] by (simp add: end_word_def [abs_def])

lemma lex_word_end: "w \<noteq> [] \<Longrightarrow> list_all plain w \<Longrightarrow> sh_lex False None w = Some [w]"
  using lex_plain_word [of w "[]"] by (simp add: end_word_def)

lemma lex_in_quotes:
  "CHR 0x27 \<notin> set w \<Longrightarrow> sh_lex True (Some p) (w @ CHR 0x27 # s) = sh_lex False (Some (p @ w)) s"
  by (induction w arbitrary: p) (auto simp: add_char_def)

lemma lex_escaped:
  "sh_lex True (Some p) (escape_quotes w @ CHR 0x27 # s) = sh_lex False (Some (p @ w)) s"
proof (induction w arbitrary: p)
  case (Cons c w)
  show ?case
  proof (cases "c = CHR 0x27")
    case True
    then have "sh_lex True (Some p) (escape_quotes (c # w) @ CHR 0x27 # s)
        = sh_lex True (Some (p @ [c])) (escape_quotes w @ CHR 0x27 # s)"
      by (simp add: escape_quotes_def add_char_def)
    then show ?thesis using Cons by simp
  next
    case False
    then have "sh_lex True (Some p) (escape_quotes (c # w) @ CHR 0x27 # s)
        = sh_lex True (Some (p @ [c])) (escape_quotes w @ CHR 0x27 # s)"
      by (simp add: escape_quotes_def add_char_def)
    then show ?thesis using Cons by simp
  qed
qed (simp add: escape_quotes_def)

lemma lex_quoted: "sh_lex False None (quoted (escape_quotes w) @ s) = sh_lex False (Some w) s"
  using lex_escaped [of "[]" w s] by (simp add: quoted_def)

lemma sh_split_join:
  assumes "\<And>w. w \<in> set ws \<Longrightarrow> w \<noteq> [] \<and> list_all plain w"
  shows "sh_split (join_with [CHR 0x20] ws) = Some ws"
  using assms unfolding sh_split_def
proof (induction "[CHR 0x20]" ws rule: join_with.induct)
  case 1
  then show ?case by (simp add: end_word_def)
next
  case (2 x)
  then have "x \<noteq> []" "list_all plain x" by simp_all
  then show ?case by (simp add: lex_word_end)
next
  case (3 x y xs)
  have "sh_lex False None (join_with [CHR 0x20] (y # xs)) = Some (y # xs)" by (rule 3(1)) (simp add: 3(2))
  moreover have "x \<noteq> []" "list_all plain x" using 3(2) [of x] by auto
  ultimately show ?case using lex_word_space [of x "join_with [CHR 0x20] (y # xs)"] by simp
qed

lemma alnum_plain: "is_ascii_alphanumeric c \<Longrightarrow> plain c"
  by (auto simp: is_ascii_alphanumeric_def is_ascii_digit_def is_ascii_alphabetic_def plain_def sh_meta_def)

lemma safe_char_plain: "c \<in> set ''-_./:=@,+%'' \<Longrightarrow> plain c"
  by (auto simp: plain_def sh_meta_def)

lemma safe_arg_plain: "is_safe_shell_arg w \<Longrightarrow> w \<noteq> [] \<and> list_all plain w"
proof
  assume w: "is_safe_shell_arg w"
  show "w \<noteq> []" using w unfolding is_safe_shell_arg_def by blast
  have "list_all (\<lambda>c. is_ascii_alphanumeric c \<or> c \<in> set ''-_./:=@,+%'') w"
    using w unfolding is_safe_shell_arg_def by blast
  then show "list_all plain w" by (rule list.pred_mono_strong) (use alnum_plain safe_char_plain in blast)
qed

lemma segment_chars: "is_segment s \<Longrightarrow> list_all (\<lambda>c. is_ascii_alphanumeric c \<or> c = CHR ''_'') s"
  by (auto simp: is_segment_def is_ascii_alphanumeric_def list_all_iff split: list.splits)

lemma package_name_chars:
  assumes "is_package_name p" "c \<in> set p"
  shows "is_ascii_alphanumeric c \<or> c = CHR ''_'' \<or> c = CHR ''.''"
proof -
  have segs: "list_all is_segment (split_on (CHR ''.'') p)"
    using assms(1) by (auto simp: is_package_name_def split: if_splits)
  have "c \<in> set (join_with [CHR ''.''] (split_on (CHR ''.'') p))" using assms(2) by (simp add: join_split_on)
  moreover have "set (join_with [d] ws) \<subseteq> insert d (\<Union> (set ` set ws))" for d :: char and ws
    by (induction "[d]" ws rule: join_with.induct) auto
  ultimately show ?thesis using segs segment_chars by (force simp: list_all_iff)
qed

lemma package_name_plain: "is_package_name p \<Longrightarrow> p \<noteq> [] \<and> list_all plain p"
proof
  assume p: "is_package_name p"
  show "p \<noteq> []" using p unfolding is_package_name_def by metis
  have "plain (CHR ''_'')" "plain (CHR ''.'')" by (simp_all add: plain_def sh_meta_def)
  then show "list_all plain p" unfolding list_all_iff using package_name_chars [OF p] alnum_plain by metis
qed

lemma escape_package_name: "is_package_name p \<Longrightarrow> escape_quotes p = p"
proof -
  assume "is_package_name p"
  then have "list_all plain p" using package_name_plain by blast
  then show ?thesis by (induction p) (auto simp: escape_quotes_def plain_def)
qed

lemma lex_quoted_package:
  "is_package_name p \<Longrightarrow> sh_lex False None (quoted p @ s) = sh_lex False (Some p) s"
  using lex_quoted [of p s] by (simp add: escape_package_name)

text \<open>A mount directory is one component below the mount base.\<close>

lemma sanitize_mount_name_component:
  assumes "sanitize_mount_name serial = Some name"
  shows "name \<noteq> []" "name \<noteq> ''.''" "name \<noteq> ''..''" "CHR ''/'' \<notin> set name"
proof -
  have name: "name = map (\<lambda>c. if is_ascii_alphanumeric c \<or> c \<in> set ''-_.'' then c else CHR ''_'')
      (filter (\<lambda>c. \<not> is_cont (byte_of_char c)) serial)"
    and "name \<noteq> []" "name \<noteq> ''.''" "name \<noteq> ''..''"
    using assms by (auto simp: sanitize_mount_name_def Let_def split: if_splits)
  then show "name \<noteq> []" "name \<noteq> ''.''" "name \<noteq> ''..''" by blast+
  have "\<not> is_ascii_alphanumeric (CHR ''/'')"
    by (simp add: is_ascii_alphanumeric_def is_ascii_digit_def is_ascii_alphabetic_def)
  then show "CHR ''/'' \<notin> set name" by (auto simp: name)
qed

text \<open>Numbers are plain words.\<close>

lemma show_nat_digits: "show_nat n \<noteq> [] \<and> list_all is_ascii_digit (show_nat n)"
proof (induction n rule: show_nat.induct)
  case (1 n)
  have d: "is_ascii_digit (char_of (48 + m))" if "m < 10" for m :: nat
    using that by (simp add: is_ascii_digit_def)
  show ?case
  proof (cases "n < 10")
    case True
    then show ?thesis using d [of n] by (simp add: show_nat.simps [of n])
  next
    case False
    then show ?thesis using 1 d [of "n mod 10"] by (subst (1 2) show_nat.simps) simp
  qed
qed

lemma show_nat_plain: "show_nat n \<noteq> [] \<and> list_all plain (show_nat n)"
proof -
  have "list_all plain (show_nat n)"
    using show_nat_digits [of n] by (auto simp: list_all_iff intro: alnum_plain [unfolded is_ascii_alphanumeric_def])
  then show ?thesis using show_nat_digits by blast
qed

end
