(* ===== verification/Daemon_Packages.thy ===== *)
theory Daemon_Packages
  imports Daemon_Shell "HOL-Library.List_Lexorder" "HOL-Library.Char_ord"
begin

text \<open>
  The package inventory of the daemon and the changes of a package's state
  (\<open>adb-daemon/src/packages.rs\<close>). What \<open>adb shell\<close> prints is a parameter. A batch of changes is a step
  relation in which any running call may end next. The lemmas show that a listing is read back as
  printed, that a batch gives one result per request in the order of the requests for every order
  in which the calls end, and that at most eight calls run at once.
\<close>

section \<open>Actions\<close>

datatype PackageState = Enabled | Disabled | Uninstalled

datatype PackageAction = Disable | Enable | Uninstall | Restore

fun target_state :: "PackageAction \<Rightarrow> PackageState" where
  "target_state Disable = Disabled"
| "target_state Enable = Enabled"
| "target_state Restore = Enabled"
| "target_state Uninstall = Uninstalled"

fun pm_command :: "PackageAction \<Rightarrow> string \<Rightarrow> u16 \<Rightarrow> string" where
  "pm_command Disable package user = ''pm disable-user --user '' @ show_nat (unat user) @ '' '' @ quoted package"
| "pm_command Enable package user = ''pm enable --user '' @ show_nat (unat user) @ '' '' @ quoted package"
| "pm_command Uninstall package user = ''pm uninstall -k --user '' @ show_nat (unat user) @ '' '' @ quoted package"
| "pm_command Restore package user = ''cmd package install-existing '' @ quoted package"

record PackageRow =
  row_id :: string
  row_state :: PackageState
  row_system :: bool
  row_apk_path :: "string option"

record PackageRequest =
  rq_package :: string
  rq_action :: PackageAction

record PackageResult =
  rs_package :: string
  rs_action :: PackageAction
  rs_ok :: bool
  rs_state :: "PackageState option"
  rs_code :: "string option"
  rs_message :: "string option"
  rs_raw :: "string option"

section \<open>The inventory\<close>

record ListedPackage =
  lp_id :: string
  lp_path :: "string option"

definition parse_package_line :: "string \<Rightarrow> ListedPackage option" where
  "parse_package_line line =
     (case str_strip_prefix ''package:'' (str_trim line) of
        None \<Rightarrow> None
      | Some rest \<Rightarrow>
          let rest = str_trim rest
          in case rsplit_once (CHR ''='') rest of
               Some (path, ident) \<Rightarrow>
                 let path = str_trim path; ident = str_trim ident
                 in if prefix ''/'' path \<and> ident \<noteq> [] then Some \<lparr>lp_id = ident, lp_path = Some path\<rparr> else None
             | None \<Rightarrow> Some \<lparr>lp_id = rest, lp_path = None\<rparr>)"

definition parse_package_list :: "string \<Rightarrow> ListedPackage list" where
  "parse_package_list output =
     filter (\<lambda>p. lp_id p \<noteq> []) (List.map_filter parse_package_line (str_lines output))"

definition package_ids :: "string \<Rightarrow> string set" where
  "package_ids output = set (map lp_id (parse_package_list output))"

text \<open>\<open>inventory\<close>: \<open>sh\<close> is \<open>adb shell\<close> on the device.\<close>

definition row_of :: "string set \<Rightarrow> string set \<Rightarrow> string set \<Rightarrow> ListedPackage \<Rightarrow> PackageRow" where
  "row_of enabled disabled system listed =
     \<lparr>row_id = lp_id listed,
      row_state = (if lp_id listed \<in> enabled then Enabled
                   else if lp_id listed \<in> disabled then Disabled else Uninstalled),
      row_system = (lp_id listed \<in> system),
      row_apk_path = lp_path listed\<rparr>"

definition pm_inventory :: "(string \<Rightarrow> string + string) \<Rightarrow> u16 \<Rightarrow> string + PackageRow list" where
  "pm_inventory sh user =
     (let u = show_nat (unat user)
      in bind_result (sh (''pm list packages -f -u --user '' @ u)) (\<lambda>all.
         bind_result (sh (''pm list packages -e --user '' @ u)) (\<lambda>enabled.
         bind_result (sh (''pm list packages -d --user '' @ u)) (\<lambda>disabled.
         bind_result (sh (''pm list packages -s --user '' @ u)) (\<lambda>system.
           Ok (sort_key row_id
                (map (row_of (package_ids enabled) (package_ids disabled) (package_ids system))
                  (parse_package_list all))))))))"

section \<open>One change\<close>

definition is_failure :: "string \<Rightarrow> bool" where
  "is_failure output \<longleftrightarrow>
     str_contains ''Failure'' output \<or> str_contains ''Error'' output \<or> str_contains ''Exception'' output
     \<or> str_contains ''not installed for'' output \<or> str_contains ''Unknown package'' output"

definition first_line :: "string \<Rightarrow> string" where
  "first_line output =
     (case find (\<lambda>line. line \<noteq> [] \<and> \<not> prefix ''at '' line) (map str_trim (str_lines output)) of
        Some line \<Rightarrow> line
      | None \<Rightarrow> ''the package manager refused'')"

definition classify :: "string \<Rightarrow> string option \<times> string" where
  "classify output =
     (if str_contains ''only root can delete system app'' output
      then (Some ''system_uninstall_blocked'',
            ''This Android version does not let ADB remove a system app. Removing it needs root.'')
      else if str_contains ''Cannot disable system packages'' output
      then (Some ''system_disable_blocked'',
            ''This Android version does not let ADB switch a system app off. Only apps you installed yourself can be changed.'')
      else if str_contains ''DELETE_FAILED_DEVICE_POLICY_MANAGER'' output
      then (Some ''blocked_by_policy'', ''A device administrator or work profile blocks removing this app.'')
      else if str_contains ''DELETE_FAILED_OWNER_BLOCKED'' output
      then (Some ''blocked_by_owner'', ''The device owner blocks removing this app.'')
      else if str_contains ''DELETE_FAILED_INTERNAL_ERROR'' output
      then (Some ''internal_error'',
            ''The package manager refused without saying why. The app is probably in use or is depended on by another app.'')
      else if str_contains ''not installed for'' output \<or> str_contains ''Unknown package'' output
      then (Some ''not_installed'', ''The app is not installed for this user, so there was nothing to change.'')
      else if str_contains ''INSTALL_FAILED_VERSION_DOWNGRADE'' output
      then (Some ''version_downgrade'', ''Restoring the app failed: a newer version is already installed.'')
      else if str_contains ''INSTALL_FAILED_UPDATE_INCOMPATIBLE'' output
      then (Some ''signature_mismatch'',
            ''Restoring the app failed: its signature does not match the installed one.'')
      else if str_contains ''Unknown command'' output \<or> str_contains ''not found'' output
      then (Some ''unsupported'', ''This Android version does not support that command.'')
      else if str_contains ''SecurityException'' output \<or> str_contains ''Exception occurred'' output
      then (Some ''refused'', ''The package manager refused: '' @ first_line output)
      else (Some ''unknown'', first_line output))"

text \<open>What running \<open>adb shell\<close> comes to: no answer in time, no process, or its output and status.\<close>

datatype adb_answer = Timed_out | Not_started string | Answered bytes bytes bool

definition pm :: "adb_answer \<Rightarrow> string + string" where
  "pm answer =
     (case answer of
        Timed_out \<Rightarrow> Err ''the phone did not answer in time''
      | Not_started err \<Rightarrow> Err (''adb shell failed: '' @ err)
      | Answered out err success \<Rightarrow>
          let text = from_utf8_lossy out @ from_utf8_lossy err
          in if str_trim text = [] \<and> \<not> success then Err ''the phone did not answer'' else Ok text)"

definition refused :: "string \<Rightarrow> PackageAction \<Rightarrow> string option \<Rightarrow> string \<Rightarrow> string option \<Rightarrow> PackageResult" where
  "refused package action code message raw =
     \<lparr>rs_package = package, rs_action = action, rs_ok = False, rs_state = None, rs_code = code,
      rs_message = Some message, rs_raw = raw\<rparr>"

definition worked :: "string \<Rightarrow> PackageAction \<Rightarrow> string option \<Rightarrow> PackageResult" where
  "worked package action raw =
     \<lparr>rs_package = package, rs_action = action, rs_ok = True, rs_state = Some (target_state action), rs_code = None,
      rs_message = None, rs_raw = raw\<rparr>"

text \<open>\<open>ask\<close> is what the phone answers to a command.\<close>

definition apply_one :: "(string \<Rightarrow> adb_answer) \<Rightarrow> u16 \<Rightarrow> PackageRequest \<Rightarrow> PackageResult" where
  "apply_one ask user request =
     (let package = str_trim (rq_package request); action = rq_action request
      in if \<not> is_package_name package
         then refused package action (Some ''not_a_package_name'') (package @ '' is not a package name.'') None
         else case pm (ask (pm_command action package user)) of
                Inl err \<Rightarrow> refused package action (Some ''device_unreachable'') err None
              | Inr output \<Rightarrow>
                  let trimmed = str_trim output
                  in if trimmed = [] then worked package action None
                     else if is_failure trimmed
                     then (case classify trimmed of (code, message) \<Rightarrow>
                             refused package action code message (Some trimmed))
                     else worked package action (Some trimmed))"

section \<open>A batch\<close>

definition PM_CONCURRENCY :: nat where "PM_CONCURRENCY = 8"

definition not_run :: PackageResult where
  "not_run = \<lparr>rs_package = [], rs_action = Disable, rs_ok = False, rs_state = None, rs_code = Some ''not_run'',
     rs_message = Some ''the action did not run'', rs_raw = None\<rparr>"

record batch =
  b_slots :: "PackageResult option list"
  b_running :: "(nat \<times> PackageRequest) list"
  b_next :: "(nat \<times> PackageRequest) list"

definition batch_start :: "PackageRequest list \<Rightarrow> batch" where
  "batch_start requests =
     \<lparr>b_slots = replicate (length requests) None,
      b_running = take PM_CONCURRENCY (enumerate 0 requests),
      b_next = drop PM_CONCURRENCY (enumerate 0 requests)\<rparr>"

definition spawn_next :: "batch \<Rightarrow> batch" where
  "spawn_next b =
     (case b_next b of
        [] \<Rightarrow> b
      | task # rest \<Rightarrow> b\<lparr>b_running := b_running b @ [task], b_next := rest\<rparr>)"

text \<open>
  The task at place \<open>k\<close> of the running ones ends: \<open>one\<close> returned its index and result, or the task
  ended badly. \<open>ask i\<close> is what the phone answers to the call with index \<open>i\<close>.
\<close>

definition joined :: "(nat \<Rightarrow> string \<Rightarrow> adb_answer) \<Rightarrow> u16 \<Rightarrow> nat \<Rightarrow> bool \<Rightarrow> batch \<Rightarrow> batch" where
  "joined ask user k bad b =
     (case b_running b ! k of (index, request) \<Rightarrow>
        spawn_next (b\<lparr>b_running := remove_at k (b_running b),
          b_slots := (if bad then b_slots b
                      else (b_slots b)[index := Some (apply_one (ask index) user request)])\<rparr>))"

definition batch_results :: "batch \<Rightarrow> PackageResult list" where
  "batch_results b = map (\<lambda>slot. case slot of Some r \<Rightarrow> r | None \<Rightarrow> not_run) (b_slots b)"

text \<open>\<open>apply_all\<close> as the runs of the loop, with the indices of the calls that ended badly.\<close>

inductive batch_run ::
  "(nat \<Rightarrow> string \<Rightarrow> adb_answer) \<Rightarrow> u16 \<Rightarrow> PackageRequest list \<Rightarrow> nat \<Rightarrow> nat set \<Rightarrow> batch \<Rightarrow> bool"
  for ask user requests where
  start: "batch_run ask user requests 0 {} (batch_start requests)"
| join_ok: "batch_run ask user requests n C b \<Longrightarrow> k < length (b_running b) \<Longrightarrow>
    batch_run ask user requests (Suc n) C (joined ask user k False b)"
| join_bad: "batch_run ask user requests n C b \<Longrightarrow> k < length (b_running b) \<Longrightarrow>
    batch_run ask user requests (Suc n) (insert (fst (b_running b ! k)) C) (joined ask user k True b)"

section \<open>Batches end with every result in its place\<close>

text \<open>What a slot holds once its request was taken care of.\<close>

definition settled :: "(nat \<Rightarrow> string \<Rightarrow> adb_answer) \<Rightarrow> u16 \<Rightarrow> PackageRequest list \<Rightarrow> nat set \<Rightarrow> nat \<Rightarrow> PackageResult option" where
  "settled ask user requests C i = (if i \<in> C then None else Some (apply_one (ask i) user (requests ! i)))"

definition batch_inv ::
  "(nat \<Rightarrow> string \<Rightarrow> adb_answer) \<Rightarrow> u16 \<Rightarrow> PackageRequest list \<Rightarrow> nat \<Rightarrow> nat set \<Rightarrow> batch \<Rightarrow> bool" where
  "batch_inv ask user requests n C b \<longleftrightarrow>
     (let open_tasks = b_running b @ b_next b in
      set open_tasks \<subseteq> set (enumerate 0 requests) \<and> distinct (map fst open_tasks)
      \<and> n + length open_tasks = length requests
      \<and> length (b_slots b) = length requests
      \<and> (\<forall>i < length requests. i \<notin> fst ` set open_tasks \<longrightarrow> b_slots b ! i = settled ask user requests C i)
      \<and> (\<forall>i \<in> fst ` set open_tasks. i \<notin> C \<and> b_slots b ! i = None)
      \<and> length (b_running b) \<le> PM_CONCURRENCY \<and> (b_running b = [] \<longrightarrow> b_next b = []))"

lemma batch_inv_start: "batch_inv ask user requests 0 {} (batch_start requests)"
proof -
  have "take PM_CONCURRENCY (enumerate 0 requests) @ drop PM_CONCURRENCY (enumerate 0 requests) = enumerate 0 requests"
    by (rule append_take_drop_id)
  moreover have "fst ` set (enumerate 0 requests) = {0..<length requests}"
    by (metis map_fst_enumerate set_map set_upt plus_nat.add_0)
  ultimately show ?thesis
    by (auto simp: batch_inv_def batch_start_def Let_def map_fst_enumerate PM_CONCURRENCY_def in_set_enumerate_eq)
qed

lemma tasks_spawn_next: "b_running (spawn_next b) @ b_next (spawn_next b) = b_running b @ b_next b"
  by (simp add: spawn_next_def split: list.split)

lemma slots_spawn_next [simp]: "b_slots (spawn_next b) = b_slots b"
  by (simp add: spawn_next_def split: list.split)

lemma running_spawn_next:
  "length (b_running (spawn_next b)) \<le> Suc (length (b_running b))"
  "b_running (spawn_next b) = [] \<Longrightarrow> b_next (spawn_next b) = []"
  by (auto simp: spawn_next_def split: list.splits)

lemma batch_inv_joined:
  assumes inv: "batch_inv ask user requests n C b" and k: "k < length (b_running b)"
  defines "i \<equiv> fst (b_running b ! k)"
  shows "batch_inv ask user requests (Suc n) (if bad then insert i C else C) (joined ask user k bad b)"
proof -
  obtain req where t: "b_running b ! k = (i, req)" by (metis i_def prod.collapse)
  define ys zs where "ys = take k (b_running b)" and "zs = drop (Suc k) (b_running b)"
  have run: "b_running b = ys @ (i, req) # zs"
    unfolding ys_def zs_def using id_take_nth_drop [OF k] t by simp
  have rem: "remove_at k (b_running b) = ys @ zs" by (simp add: remove_at_def ys_def zs_def)
  let ?C = "if bad then insert i C else C"
  let ?b = "b\<lparr>b_running := ys @ zs, b_slots := (if bad then b_slots b
      else (b_slots b)[i := Some (apply_one (ask i) user req)])\<rparr>"
  let ?old = "b_running b @ b_next b" and ?new = "ys @ zs @ b_next b"
  have j: "joined ask user k bad b = spawn_next ?b" by (simp add: joined_def t rem)
  have sub: "set ?old \<subseteq> set (enumerate 0 requests)" and dist: "distinct (map fst ?old)"
    and cnt: "n + length ?old = length requests" and len: "length (b_slots b) = length requests"
    and old: "\<And>x. x < length requests \<Longrightarrow> x \<notin> fst ` set ?old \<Longrightarrow> b_slots b ! x = settled ask user requests C x"
    and op: "\<forall>x \<in> fst ` set ?old. x \<notin> C \<and> b_slots b ! x = None" and few: "length (b_running b) \<le> PM_CONCURRENCY"
    using inv unfolding batch_inv_def Let_def by simp_all
  note fresh = bspec [OF op]
  have ireq: "i < length requests" "req = requests ! i"
    using sub run by (auto simp: in_set_enumerate_eq)
  have ids: "fst ` set ?old = insert i (fst ` set ?new)" by (auto simp: run)
  have new: "i \<notin> fst ` set ?new" using dist by (auto simp: run)
  have "i \<notin> C" using fresh ids by blast
  have slots: "b_slots ?b ! x = settled ask user requests ?C x" if "x < length requests" "x \<notin> fst ` set ?new" for x
  proof (cases "x = i")
    case True
    then show ?thesis using fresh [of i] ids len ireq by (auto simp: settled_def)
  next
    case False
    then show ?thesis using old [of x] that ids by (auto simp: settled_def)
  qed
  have open_slots: "x \<notin> ?C \<and> b_slots ?b ! x = None" if "x \<in> fst ` set ?new" for x
  proof -
    have "x \<noteq> i" using that new by blast
    then show ?thesis using fresh [of x] that ids by auto
  qed
  have tasks: "b_running (joined ask user k bad b) @ b_next (joined ask user k bad b) = ?new"
    unfolding j tasks_spawn_next by simp
  have "length (b_running (joined ask user k bad b)) \<le> PM_CONCURRENCY"
    unfolding j using running_spawn_next(1) [of ?b] few by (simp add: run)
  moreover have "b_slots (joined ask user k bad b) = b_slots ?b" unfolding j by simp
  moreover have "set ?new \<subseteq> set (enumerate 0 requests)" "distinct (map fst ?new)" "Suc n + length ?new = length requests"
    "length (b_slots ?b) = length requests"
    using sub dist cnt len by (auto simp: run)
  moreover have "b_running (joined ask user k bad b) = [] \<Longrightarrow> b_next (joined ask user k bad b) = []"
    unfolding j by (rule running_spawn_next(2))
  ultimately show ?thesis unfolding batch_inv_def tasks Let_def using slots open_slots by simp
qed

lemma batch_run_inv: "batch_run ask user requests n C b \<Longrightarrow> batch_inv ask user requests n C b"
proof (induction rule: batch_run.induct)
  case start
  show ?case by (rule batch_inv_start)
next
  case (join_ok n C b k)
  then show ?case using batch_inv_joined [where bad = False] by simp
next
  case (join_bad n C b k)
  then show ?case using batch_inv_joined [where bad = True] by simp
qed

lemma batch_run_results:
  assumes "batch_run ask user requests n C b"
  shows "n \<le> length requests" "length (b_running b) \<le> PM_CONCURRENCY"
    and "b_running b = [] \<longleftrightarrow> n = length requests"
    and "b_running b = [] \<Longrightarrow> batch_results b
      = map (\<lambda>(i, r). if i \<in> C then not_run else apply_one (ask i) user r) (enumerate 0 requests)"
proof -
  note inv = batch_run_inv [OF assms, unfolded batch_inv_def Let_def]
  then show "n \<le> length requests" "length (b_running b) \<le> PM_CONCURRENCY"
    and iff: "b_running b = [] \<longleftrightarrow> n = length requests" by auto
  assume "b_running b = []"
  then have "length (b_slots b) = length requests"
    "\<And>i. i < length requests \<Longrightarrow> b_slots b ! i = settled ask user requests C i" using inv by auto
  then show "batch_results b = map (\<lambda>(i, r). if i \<in> C then not_run else apply_one (ask i) user r) (enumerate 0 requests)"
    by (intro nth_equalityI) (simp_all add: batch_results_def settled_def nth_enumerate_eq)
qed

lemma batch_run_goes_on:
  assumes "batch_run ask user requests n C b" "n < length requests"
  shows "batch_run ask user requests (Suc n) C (joined ask user 0 False b)"
  using batch_run.join_ok [OF assms(1), of 0] batch_run_results(3) [OF assms(1)] assms(2) by simp

section \<open>The words of a command\<close>

fun pm_words :: "PackageAction \<Rightarrow> string \<Rightarrow> u16 \<Rightarrow> string list" where
  "pm_words Disable package user = [''pm'', ''disable-user'', ''--user'', show_nat (unat user), package]"
| "pm_words Enable package user = [''pm'', ''enable'', ''--user'', show_nat (unat user), package]"
| "pm_words Uninstall package user = [''pm'', ''uninstall'', ''-k'', ''--user'', show_nat (unat user), package]"
| "pm_words Restore package user = [''cmd'', ''package'', ''install-existing'', package]"

lemma lex_last_quoted: "is_package_name p \<Longrightarrow> sh_lex False None (quoted p) = Some [p]"
  using lex_quoted_package [of p "[]"] by (simp add: end_word_def)

lemma sh_lex_words:
  assumes "\<And>w. w \<in> set ws \<Longrightarrow> w \<noteq> [] \<and> list_all plain w"
  shows "sh_lex False None (concat (map (\<lambda>w. w @ [CHR 0x20]) ws) @ s) = map_option ((@) ws) (sh_lex False None s)"
  using assms
proof (induction ws)
  case Nil
  then show ?case by (simp add: option.map_id [unfolded id_def])
next
  case (Cons w ws)
  have IH: "sh_lex False None (concat (map (\<lambda>w. w @ [CHR 0x20]) ws) @ s) = map_option ((@) ws) (sh_lex False None s)"
    by (rule Cons.IH) (simp add: Cons.prems)
  have "w \<noteq> []" "list_all plain w" using Cons.prems [of w] by simp_all
  from lex_word_space [OF this] IH show ?case by (simp add: option.map_comp o_def)
qed

lemma butlast_words_plain:
  assumes "w \<in> set (butlast (pm_words action package user))"
  shows "w \<noteq> [] \<and> list_all plain w"
  using assms show_nat_plain by (cases action) (auto simp: plain_def sh_meta_def)

lemma pm_command_words:
  assumes "is_package_name package"
  shows "sh_split (pm_command action package user) = Some (pm_words action package user)"
proof -
  have last: "last (pm_words action package user) = package" by (cases action) simp_all
  have words: "pm_words action package user \<noteq> []" by (cases action) simp_all
  have "pm_command action package user
      = concat (map (\<lambda>w. w @ [CHR 0x20]) (butlast (pm_words action package user))) @ quoted package"
    by (cases action) simp_all
  then have "sh_split (pm_command action package user)
      = map_option ((@) (butlast (pm_words action package user))) (Some [package])"
    using sh_lex_words [OF butlast_words_plain, where s = "quoted package"] lex_last_quoted [OF assms]
    by (simp add: sh_split_def)
  also have "\<dots> = Some (pm_words action package user)"
    using append_butlast_last_id [OF words] last by simp
  finally show ?thesis .
qed

section \<open>Listings are read as printed\<close>

definition listing_line :: "ListedPackage \<Rightarrow> string" where
  "listing_line p = ''package:'' @ (case lp_path p of None \<Rightarrow> [] | Some path \<Rightarrow> path @ ''='') @ lp_id p"

text \<open>An entry as \<open>pm\<close> prints it: a package name, and a path without white space at its ends.\<close>

definition listable :: "ListedPackage \<Rightarrow> bool" where
  "listable p \<longleftrightarrow> is_package_name (lp_id p)
     \<and> (case lp_path p of None \<Rightarrow> True
        | Some path \<Rightarrow> prefix ''/'' path \<and> solid (last path) \<and> CHR 0x0A \<notin> set path)"

lemma alnum_solid: "is_ascii_alphanumeric c \<Longrightarrow> solid c"
  by (auto simp: is_ascii_alphanumeric_def is_ascii_digit_def is_ascii_alphabetic_def solid_def)

lemma package_name_solid:
  assumes "is_package_name p"
  shows "p \<noteq> []" "\<And>c. c \<in> set p \<Longrightarrow> solid c \<and> c \<noteq> CHR ''='' \<and> c \<noteq> CHR 0x0A \<and> c \<noteq> CHR 0x0D"
proof -
  show "p \<noteq> []" using package_name_plain [OF assms] by blast
  fix c assume "c \<in> set p"
  from package_name_chars [OF assms this]
  consider "is_ascii_alphanumeric c" | "c = CHR ''_''" | "c = CHR ''.''" by blast
  then show "solid c \<and> c \<noteq> CHR ''='' \<and> c \<noteq> CHR 0x0A \<and> c \<noteq> CHR 0x0D"
  proof cases
    case 1
    then have "solid c" by (rule alnum_solid)
    moreover have "c \<noteq> CHR ''=''" using 1
      by (auto simp: is_ascii_alphanumeric_def is_ascii_digit_def is_ascii_alphabetic_def)
    ultimately show ?thesis by (auto simp: solid_def)
  qed (simp_all add: solid_def)
qed

lemma parse_listing_line:
  assumes "listable p"
  shows "parse_package_line (listing_line p) = Some p"
proof -
  have name: "is_package_name (lp_id p)" using assms by (simp add: listable_def)
  note sol = package_name_solid [OF name]
  have lid: "lp_id p \<noteq> []" "solid (last (lp_id p))" "solid (hd (lp_id p))" using sol by simp_all
  have eq: "CHR ''='' \<notin> set (lp_id p)" using sol(2) by blast
  let ?rest = "(case lp_path p of None \<Rightarrow> [] | Some path \<Rightarrow> path @ ''='') @ lp_id p"
  have "str_trim (''package:'' @ ?rest) = ''package:'' @ ?rest"
    by (rule trim_solid) (use lid in \<open>simp_all add: solid_def\<close>)
  moreover have "str_trim ?rest = ?rest"
    by (rule trim_solid) (use assms lid in \<open>auto simp: listable_def solid_def prefix_def split: option.splits\<close>)
  ultimately have line: "str_trim (listing_line p) = ''package:'' @ ?rest" "str_trim ?rest = ?rest"
    by (simp_all add: listing_line_def)
  have idt: "str_trim (lp_id p) = lp_id p" by (rule trim_solid) (use lid in simp_all)
  have strip: "str_strip_prefix ''package:'' (''package:'' @ ?rest) = Some ?rest"
    by (simp add: str_strip_prefix_def)
  show ?thesis
  proof (cases "lp_path p")
    case None
    then show ?thesis
      using line strip rsplit_once_None [OF eq] by (simp add: parse_package_line_def Let_def)
  next
    case (Some path)
    then have path: "prefix ''/'' path" "solid (last path)" using assms by (simp_all add: listable_def)
    have "path \<noteq> []" "hd path = CHR ''/''" using path(1) by (auto simp: prefix_def)
    then have "str_trim path = path" by (intro trim_solid) (use path in \<open>simp_all add: solid_def\<close>)
    moreover have "rsplit_once (CHR ''='') ?rest = Some (path, lp_id p)"
      using rsplit_once_hit [OF eq, of path] Some by simp
    moreover have "p = \<lparr>lp_id = lp_id p, lp_path = Some path\<rparr>" using Some by (cases p) simp
    ultimately show ?thesis
      using line strip idt path(1) lid(1) by (simp add: parse_package_line_def Let_def)
  qed
qed

lemma parse_listing:
  assumes "list_all listable ps"
  shows "parse_package_list (concat (map (\<lambda>p. listing_line p @ [CHR 0x0A]) ps)) = ps"
proof -
  have "str_lines (concat (map (\<lambda>l. l @ [CHR 0x0A]) (map listing_line ps))) = map listing_line ps"
  proof (rule str_lines_join)
    fix l assume "l \<in> set (map listing_line ps)"
    then obtain p where p: "l = listing_line p" "listable p" using assms by (auto simp: list_all_iff)
    then have name: "is_package_name (lp_id p)" by (simp add: listable_def)
    note sol = package_name_solid [OF name]
    have "CHR 0x0A \<notin> set l"
      using sol(2) [of "CHR 0x0A"] p by (auto simp: listing_line_def listable_def split: option.splits)
    moreover have "last l \<noteq> CHR 0x0D"
      using sol(2) [of "last (lp_id p)"] sol(1) by (auto simp: p(1) listing_line_def)
    ultimately show "CHR 0x0A \<notin> set l \<and> (l = [] \<or> last l \<noteq> CHR 0x0D)" by blast
  qed
  then have lines: "str_lines (concat (map (\<lambda>p. listing_line p @ [CHR 0x0A]) ps)) = map listing_line ps"
    by (simp add: o_def)
  have "List.map_filter parse_package_line (map listing_line ps) = ps"
    using assms by (induction ps) (simp_all add: parse_listing_line List.map_filter_def)
  moreover have "filter (\<lambda>p. lp_id p \<noteq> []) ps = ps"
    using assms package_name_solid(1) by (auto simp: filter_id_conv list_all_iff listable_def)
  ultimately show ?thesis by (simp add: parse_package_list_def lines)
qed

lemma inventory_of_listings:
  assumes "list_all listable ps" "list_all listable es" "list_all listable ds" "list_all listable ss"
    and "\<And>flag qs. (flag, qs) \<in> {(''-f -u'', ps), (''-e'', es), (''-d'', ds), (''-s'', ss)} \<Longrightarrow>
      sh (''pm list packages '' @ flag @ '' --user '' @ show_nat (unat user))
        = Ok (concat (map (\<lambda>p. listing_line p @ [CHR 0x0A]) qs))"
  shows "pm_inventory sh user
    = Ok (sort_key row_id (map (row_of (lp_id ` set es) (lp_id ` set ds) (lp_id ` set ss)) ps))"
proof -
  have "sh (''pm list packages -f -u --user '' @ show_nat (unat user)) = Ok (concat (map (\<lambda>p. listing_line p @ [CHR 0x0A]) ps))"
    "sh (''pm list packages -e --user '' @ show_nat (unat user)) = Ok (concat (map (\<lambda>p. listing_line p @ [CHR 0x0A]) es))"
    "sh (''pm list packages -d --user '' @ show_nat (unat user)) = Ok (concat (map (\<lambda>p. listing_line p @ [CHR 0x0A]) ds))"
    "sh (''pm list packages -s --user '' @ show_nat (unat user)) = Ok (concat (map (\<lambda>p. listing_line p @ [CHR 0x0A]) ss))"
    using assms(5) [of "''-f -u''" ps] assms(5) [of "''-e''" es] assms(5) [of "''-d''" ds] assms(5) [of "''-s''" ss]
    by simp_all
  then show ?thesis
    using assms(1-4) by (simp add: pm_inventory_def Let_def package_ids_def parse_listing)
qed

end
