(* ===== verification/Daemon_Installs.thy ===== *)
theory Daemon_Installs
  imports Daemon_Packages Paths
begin

text \<open>
  Installing an APK through the daemon (\<open>adb-daemon/src/main.rs\<close>): the request on the bus, the
  pipeline that stages the file, commits it and cleans up, and the bookkeeping the GUI reads. The
  map of installs is an association list; ids are counted without wrapping, which takes \<open>2 ^ 64\<close>
  installs. What \<open>adb\<close> and the local disk answer is a parameter. The lemmas show that one install
  runs at a time, that every exit of the pipeline releases the slot, and that the map stays small.
\<close>

section \<open>Status\<close>

record InstallStatus =
  in_id :: nat
  in_device :: string
  in_label :: string
  in_source :: string
  in_from_device :: bool
  in_stage :: nat
  in_percent :: nat
  in_bytes_done :: u64
  in_bytes_total :: u64
  in_state :: string
  in_error_code :: "string option"
  in_message :: "string option"
  in_raw :: "string option"
  in_finished :: bool

record install_table =
  installs :: "(nat \<times> InstallStatus) list"
  install_running :: bool
  next_install_id :: nat

definition INSTALL_HISTORY_CAP :: nat where "INSTALL_HISTORY_CAP = 25"
definition INSTALL_STAGE :: string where "INSTALL_STAGE = ''/data/local/tmp/adbshare_install_stage.apk''"

definition prune_installs :: "(nat \<times> InstallStatus) list \<Rightarrow> (nat \<times> InstallStatus) list" where
  "prune_installs m =
     (let finished = map fst (filter (\<lambda>(_, s). in_finished s) m)
      in if length finished \<le> INSTALL_HISTORY_CAP then m
         else let gone = take (length finished - INSTALL_HISTORY_CAP) (sort finished)
              in filter (\<lambda>(i, _). i \<notin> set gone) m)"

definition update_install :: "nat \<Rightarrow> (InstallStatus \<Rightarrow> InstallStatus) \<Rightarrow> install_table \<Rightarrow> install_table" where
  "update_install k f t = t\<lparr>installs := map (\<lambda>(i, s). (i, if i = k then f s else s)) (installs t)\<rparr>"

definition finish_status ::
  "string option \<Rightarrow> string option \<Rightarrow> string option \<Rightarrow> bool \<Rightarrow> InstallStatus \<Rightarrow> InstallStatus" where
  "finish_status code message raw success s =
     s\<lparr>in_finished := True, in_state := (if success then ''Done'' else ''Failed''), in_stage := 5,
       in_percent := (if success then 100 else in_percent s), in_error_code := code, in_message := message,
       in_raw := raw\<rparr>"

definition add_install_signed ::
  "nat \<Rightarrow> string option \<Rightarrow> string option \<Rightarrow> string option \<Rightarrow> bool \<Rightarrow> install_table \<Rightarrow> install_table" where
  "add_install_signed k code message raw success t =
     (let t = update_install k (finish_status code message raw success) (t\<lparr>install_running := False\<rparr>)
      in t\<lparr>installs := prune_installs (installs t)\<rparr>)"

definition install_failed :: "nat \<Rightarrow> string option \<Rightarrow> string \<Rightarrow> string option \<Rightarrow> install_table \<Rightarrow> install_table" where
  "install_failed k code message raw t = add_install_signed k code (Some message) raw False t"

definition install_succeeded :: "nat \<Rightarrow> string \<Rightarrow> install_table \<Rightarrow> install_table" where
  "install_succeeded k raw t = add_install_signed k None None (Some raw) True t"

definition to_ascii_lowercase :: "string \<Rightarrow> string" where
  "to_ascii_lowercase s =
     map (\<lambda>c. if (65 :: nat) \<le> of_char c \<and> of_char c \<le> (90 :: nat) then char_of (of_char c + 32 :: nat) else c) s"

definition classify_install_failure :: "string \<Rightarrow> string option \<times> string" where
  "classify_install_failure trimmed =
     (if str_contains ''INSTALL_FAILED_VERSION_DOWNGRADE'' trimmed
      then (Some ''downgrade'', ''A newer version of this application is already installed on the device.'')
      else if str_contains ''INSTALL_FAILED_UPDATE_INCOMPATIBLE'' trimmed
      then (Some ''signature_mismatch'',
            ''Signatures do not match the installed version. The old app has to be uninstalled'' @ [CHR 0x0A]
            @ ''             before installing this one; its data will be lost.'')
      else if str_contains ''INSTALL_FAILED_INSUFFICIENT_STORAGE'' trimmed
      then (Some ''insufficient_storage'', ''The device does not have enough storage space for this package.'')
      else if str_contains ''INSTALL_FAILED_CONFLICTING_PROVIDER'' trimmed
      then (Some ''conflicting_provider'', ''Another app already registers the same content provider.'')
      else if str_contains ''INSTALL_FAILED_NO_MATCHING_ABIS'' trimmed
      then (Some ''no_matching_abis'', ''This package does not support the device's CPU architecture.'')
      else if str_contains ''INSTALL_PARSE_FAILED'' trimmed
      then (Some ''parse_failed'', ''The file appears damaged or is not a valid APK.'')
      else if list_ex (\<lambda>needle. str_contains needle (to_ascii_lowercase trimmed))
                [''device not found'', ''no devices'', ''device offline'', ''closed'', ''more than one'']
      then (Some ''device_offline'', ''The phone disconnected (or is not authorised for debugging).'')
      else (Some ''unknown'', trimmed))"

section \<open>The pipeline\<close>

text \<open>
  The parameters: \<open>adb shell\<close> with a command, \<open>adb push\<close> with the readings of the staged size that
  the poller got before the push ended, and \<open>pm install\<close>. The poller is aborted without waiting
  for it, so a last reading may in fact be written a little later; it changes two numbers only.
\<close>

record 's install_adb =
  ia_shell :: "string \<Rightarrow> string \<Rightarrow> 's \<Rightarrow> (string + string) \<times> 's"
  ia_push :: "string \<Rightarrow> string \<Rightarrow> 's \<Rightarrow> (string option list \<times> adb_answer) \<times> 's"
  ia_pm_install :: "string \<Rightarrow> 's \<Rightarrow> adb_answer \<times> 's"

definition stage_command :: "string \<Rightarrow> string" where
  "stage_command path = ''cp '' @ quoted (escape_quotes path) @ '' '' @ INSTALL_STAGE"

text \<open>One reading of the poller; the product wraps at 64 bits.\<close>

definition poll_reading :: "nat \<Rightarrow> string option \<Rightarrow> install_table \<Rightarrow> install_table" where
  "poll_reading k reading t =
     (case reading of
        None \<Rightarrow> t
      | Some out \<Rightarrow>
          let bytes = (case from_str_radix (2 ^ 64) 10 (str_trim out) of Some n \<Rightarrow> word_of_nat n | None \<Rightarrow> 0) :: u64
          in update_install k (\<lambda>s. s\<lparr>in_bytes_done := bytes,
               in_percent := (if in_bytes_total s = 0 then in_percent s
                              else min 100 (unat (bytes * 100 div in_bytes_total s)))\<rparr>) t)"

definition pm_install_failed :: "bool \<Rightarrow> string \<Rightarrow> bool" where
  "pm_install_failed success trimmed \<longleftrightarrow>
     \<not> success \<or> str_contains ''Failure ['' trimmed \<or> prefix ''Failure'' trimmed
     \<or> str_contains ''INSTALL_FAILED'' trimmed"

definition commit_install :: "'s install_adb \<Rightarrow> nat \<Rightarrow> string \<Rightarrow> install_table \<times> 's \<Rightarrow> install_table \<times> 's" where
  "commit_install I k device st =
     (case st of (t, s) \<Rightarrow>
      let t = update_install k (\<lambda>x. x\<lparr>in_state := ''Installing'', in_stage := 4\<rparr>) t
      in case ia_pm_install I device s of (out, s) \<Rightarrow>
         case ia_shell I device (''rm -f '' @ INSTALL_STAGE) s of (_, s) \<Rightarrow>
         (case out of
            Timed_out \<Rightarrow> install_failed k (Some ''timeout'') ''pm install did not answer in time.'' None t
          | Not_started e \<Rightarrow>
              install_failed k (Some ''device_offline'') (''pm install: '' @ e) (Some (''pm install: '' @ e)) t
          | Answered stdout stderr success \<Rightarrow>
              let trimmed = str_trim (from_utf8_lossy stdout @ from_utf8_lossy stderr)
              in if pm_install_failed success trimmed
                 then (case classify_install_failure trimmed of (code, message) \<Rightarrow>
                         install_failed k code (message @ [CHR 0x0A, CHR 0x0A] @ trimmed) (Some trimmed) t)
                 else install_succeeded k trimmed t, s))"

definition pushed :: "'s install_adb \<Rightarrow> nat \<Rightarrow> string \<Rightarrow> adb_answer \<Rightarrow> install_table \<times> 's \<Rightarrow> install_table \<times> 's" where
  "pushed I k device answer st =
     (case st of (t, s) \<Rightarrow>
      case answer of
        Answered stdout stderr success \<Rightarrow>
          if \<not> success
          then let trimmed = str_trim (from_utf8_lossy stdout @ from_utf8_lossy stderr)
               in case classify_install_failure trimmed of (code, message) \<Rightarrow>
                    (install_failed k code
                       (if message \<noteq> trimmed then message @ [CHR 0x0A, CHR 0x0A] @ trimmed else message)
                       (Some trimmed) t, s)
          else commit_install I k device
                 (update_install k (\<lambda>x. x\<lparr>in_bytes_done := in_bytes_total x, in_percent := 100\<rparr>) t, s)
      | _ \<Rightarrow> (install_failed k (Some ''device_offline'') ''push never returned'' (Some ''push never returned'') t, s))"

definition perform_install :: "'s install_adb \<Rightarrow> nat \<Rightarrow> string \<Rightarrow> string \<Rightarrow> install_table \<times> 's \<Rightarrow> install_table \<times> 's" where
  "perform_install I k device path st =
     (case st of (t, s) \<Rightarrow>
      let from_device = (case map_of (installs t) k of Some x \<Rightarrow> in_from_device x | None \<Rightarrow> False);
          t = update_install k (\<lambda>x. x\<lparr>in_state := ''Copying'', in_stage := 2\<rparr>) t
      in if from_device
         then (case ia_shell I device (stage_command path) s of
                 (Inl e, s) \<Rightarrow>
                   let raw = ''copying '' @ path @ '' into the staging area: '' @ e
                   in (install_failed k (Some ''unknown'') raw (Some raw) t, s)
               | (Inr _, s) \<Rightarrow> commit_install I k device (t, s))
         else (case ia_push I device path s of
                 ((readings, answer), s) \<Rightarrow> pushed I k device answer (fold (poll_reading k) readings t, s)))"

text \<open>The error branch of \<open>run_install_pipeline\<close> has no source: \<open>perform_install\<close> always returns \<open>Ok\<close>.\<close>

section \<open>The request\<close>

datatype bus_error = InvalidArgs string | ServiceUnknown string | Failed string

definition is_device_local_path :: "(string \<Rightarrow> bool) \<Rightarrow> string \<Rightarrow> bool" where
  "is_device_local_path exists_here path \<longleftrightarrow>
     prefix ''/sdcard/'' path \<or> prefix ''/storage/'' path \<or> prefix ''/data/'' path \<or> prefix ''/mnt/'' path
     \<or> prefix ''/'' path \<and> \<not> exists_here path"

definition new_install ::
  "(string \<Rightarrow> bool) \<Rightarrow> (string \<Rightarrow> u64 option) \<Rightarrow> nat \<Rightarrow> string \<Rightarrow> string \<Rightarrow> bool \<Rightarrow> InstallStatus" where
  "new_install exists_here file_size k device path from_device =
     \<lparr>in_id = k, in_device = device,
      in_label = (case file_name path of Some n \<Rightarrow> to_string_lossy n | None \<Rightarrow> path),
      in_source = path, in_from_device = from_device, in_stage = 0, in_percent = 0, in_bytes_done = 0,
      in_bytes_total = (if from_device \<or> \<not> exists_here path then 0
                        else case file_size path of Some n \<Rightarrow> n | None \<Rightarrow> 0),
      in_state = ''Pending'', in_error_code = None, in_message = None, in_raw = None, in_finished = False\<rparr>"

definition start_install ::
  "(string \<Rightarrow> bool) \<Rightarrow> (string \<Rightarrow> bool) \<Rightarrow> (string \<Rightarrow> u64 option) \<Rightarrow> string \<Rightarrow> string \<Rightarrow> install_table
     \<Rightarrow> (bus_error + nat) \<times> install_table" where
  "start_install connected exists_here file_size device path t =
     (if device = [] \<or> path = [] then (Err (InvalidArgs ''device and path are required''), t)
      else if \<not> connected device then (Err (ServiceUnknown ''device not connected''), t)
      else let from_device = is_device_local_path exists_here path
           in if \<not> from_device \<and> \<not> exists_here path
              then (Err (InvalidArgs (path @ '' does not exist on this computer'')), t)
              else if install_running t
              then (Err (Failed ''another installation is already running; wait for it to finish''), t)
              else let k = next_install_id t;
                       status = new_install exists_here file_size k device path from_device
                   in (Ok k, t\<lparr>next_install_id := k + 1, install_running := True,
                               installs := prune_installs ((k, status) # filter (\<lambda>(i, _). i \<noteq> k) (installs t))\<rparr>))"

definition install_status_all :: "install_table \<Rightarrow> (nat \<times> InstallStatus) list" where
  "install_status_all t = rev (sort_key fst (installs t))"

section \<open>Keeping the map small\<close>

lemma length_filter_sort: "length (filter P (sort xs)) = length (filter P xs)"
  by (simp add: filter_sort)

lemma length_without_smallest:
  fixes xs :: "nat list"
  assumes "distinct xs"
  shows "length (filter (\<lambda>x. x \<notin> set (take n (sort xs))) xs) = length xs - n"
proof -
  let ?ys = "sort xs"
  have "distinct (take n ?ys @ drop n ?ys)" using assms by simp
  then have "filter (\<lambda>x. x \<notin> set (take n ?ys)) (drop n ?ys) = drop n ?ys"
    by (intro filter_True) (auto simp only: distinct_append)
  moreover have "filter (\<lambda>x. x \<notin> set (take n ?ys)) (take n ?ys) = []"
    by (simp add: filter_empty_conv)
  ultimately have "filter (\<lambda>x. x \<notin> set (take n ?ys)) (take n ?ys @ drop n ?ys) = drop n ?ys"
    by (simp only: filter_append append_Nil)
  then show ?thesis using length_filter_sort [of "\<lambda>x. x \<notin> set (take n ?ys)" xs] by simp
qed

lemma largest_not_dropped:
  fixes xs :: "nat list"
  assumes "distinct xs" "n < length xs" "\<And>x. x \<in> set xs \<Longrightarrow> x \<le> k"
  shows "k \<notin> set (take n (sort xs))"
proof
  assume k: "k \<in> set (take n (sort xs))"
  have d: "distinct (take n (sort xs) @ drop n (sort xs))"
    unfolding append_take_drop_id using assms(1) by simp
  have o: "sorted (take n (sort xs) @ drop n (sort xs))"
    unfolding append_take_drop_id by simp
  have "drop n (sort xs) \<noteq> []" using assms(2) by simp
  then obtain y where y: "y \<in> set (drop n (sort xs))" by (cases "drop n (sort xs)") auto
  have "k \<le> y" using o k y unfolding sorted_append by simp
  moreover have "y \<le> k" using in_set_dropD [OF y] by (intro assms(3)) simp
  ultimately have "y = k" by simp
  then show False using d k y unfolding distinct_append by auto
qed

abbreviation finished_ids :: "(nat \<times> InstallStatus) list \<Rightarrow> nat list" where
  "finished_ids m \<equiv> map fst (filter (\<lambda>(_, s). in_finished s) m)"

abbreviation unfinished :: "(nat \<times> InstallStatus) list \<Rightarrow> (nat \<times> InstallStatus) list" where
  "unfinished m \<equiv> filter (\<lambda>(_, s). \<not> in_finished s) m"

lemma distinct_map_fst_filter: "distinct (map fst m) \<Longrightarrow> distinct (map fst (filter P m))"
  by (induction m) auto

lemma prune_subset: "set (prune_installs m) \<subseteq> set m"
  by (auto simp: prune_installs_def Let_def)

lemma prune_distinct: "distinct (map fst m) \<Longrightarrow> distinct (map fst (prune_installs m))"
  by (simp add: prune_installs_def Let_def distinct_map_fst_filter)

lemma prune_bound:
  assumes "distinct (map fst m)"
  shows "length (finished_ids (prune_installs m)) \<le> INSTALL_HISTORY_CAP"
proof (cases "length (finished_ids m) \<le> INSTALL_HISTORY_CAP")
  case False
  let ?n = "length (finished_ids m) - INSTALL_HISTORY_CAP"
  let ?P = "\<lambda>i. i \<notin> set (take ?n (sort (finished_ids m)))"
  have "finished_ids (prune_installs m) = filter ?P (finished_ids m)"
    using False by (simp add: prune_installs_def Let_def filter_map filter_filter o_def case_prod_beta conj_commute)
  then show ?thesis
    using length_without_smallest [OF distinct_map_fst_filter [OF assms], of ?n "\<lambda>(_, s). in_finished s"] False
    by simp
qed (simp add: prune_installs_def)

lemma prune_unfinished:
  assumes "distinct (map fst m)"
  shows "unfinished (prune_installs m) = unfinished m"
proof (cases "length (finished_ids m) \<le> INSTALL_HISTORY_CAP")
  case False
  let ?gone = "take (length (finished_ids m) - INSTALL_HISTORY_CAP) (sort (finished_ids m))"
  have "i \<notin> set ?gone" if "(i, s) \<in> set m" "\<not> in_finished s" for i s
  proof
    assume "i \<in> set ?gone"
    then have "i \<in> set (finished_ids m)" using set_take_subset by fastforce
    then obtain s' where "(i, s') \<in> set m" "in_finished s'" by auto
    with that show False using assms by (metis map_of_is_SomeI option.inject)
  qed
  then have "unfinished (filter (\<lambda>(i, _). i \<notin> set ?gone) m) = unfinished m"
    unfolding filter_filter by (intro filter_cong) auto
  then show ?thesis using False by (simp add: prune_installs_def Let_def)
qed (simp add: prune_installs_def)

lemma prune_keeps_latest:
  assumes "distinct (map fst m)" "(k, s) \<in> set m" "\<And>i x. (i, x) \<in> set m \<Longrightarrow> i \<le> k"
  shows "(k, s) \<in> set (prune_installs m)"
proof (cases "length (finished_ids m) \<le> INSTALL_HISTORY_CAP")
  case False
  have "k \<notin> set (take (length (finished_ids m) - INSTALL_HISTORY_CAP) (sort (finished_ids m)))"
    using False assms(3) by (intro largest_not_dropped distinct_map_fst_filter [OF assms(1)])
      (auto simp: INSTALL_HISTORY_CAP_def)
  then show ?thesis using False assms(2) by (simp add: prune_installs_def Let_def)
qed (simp add: prune_installs_def assms(2))

section \<open>The single slot\<close>

definition install_inv :: "install_table \<Rightarrow> bool" where
  "install_inv t \<longleftrightarrow>
     distinct (map fst (installs t)) \<and> fst ` set (installs t) \<subseteq> {..<next_install_id t}
     \<and> length (finished_ids (installs t)) \<le> INSTALL_HISTORY_CAP
     \<and> Suc ` fst ` set (unfinished (installs t)) = (if install_running t then {next_install_id t} else {})"

definition running_inv :: "nat \<Rightarrow> install_table \<Rightarrow> bool" where
  "running_inv k t \<longleftrightarrow> install_inv t \<and> install_running t \<and> next_install_id t = Suc k"

lemma running_invD:
  assumes "running_inv k t"
  shows "distinct (map fst (installs t))" "fst ` set (installs t) \<subseteq> {..<Suc k}"
    "length (finished_ids (installs t)) \<le> INSTALL_HISTORY_CAP"
    "Suc ` fst ` set (unfinished (installs t)) = {Suc k}" "install_running t" "next_install_id t = Suc k"
  using assms unfolding running_inv_def install_inv_def by (elim conjE; simp only: if_True)+

lemma running_invI:
  assumes "distinct (map fst (installs t))" "fst ` set (installs t) \<subseteq> {..<Suc k}"
    "length (finished_ids (installs t)) \<le> INSTALL_HISTORY_CAP"
    "Suc ` fst ` set (unfinished (installs t)) = {Suc k}" "install_running t" "next_install_id t = Suc k"
  shows "running_inv k t"
  unfolding running_inv_def install_inv_def using assms by (simp only: if_True simp_thms)

lemma running_entry:
  assumes "running_inv k t"
  obtains s where "(k, s) \<in> set (installs t)" "\<not> in_finished s"
proof -
  have "Suc k \<in> Suc ` fst ` set (unfinished (installs t))"
    by (simp only: running_invD(4) [OF assms] insertI1)
  then show ?thesis using that by auto
qed

lemma ids_updated [simp]: "map fst (installs (update_install k f t)) = map fst (installs t)"
  by (simp add: update_install_def case_prod_beta)

lemma update_install_simps [simp]:
  "install_running (update_install k f t) = install_running t"
  "next_install_id (update_install k f t) = next_install_id t"
  by (simp_all add: update_install_def)

lemma update_running:
  assumes "running_inv k t" "\<And>s. in_finished (f s) = in_finished s"
  shows "running_inv k (update_install j f t)"
proof -
  let ?u = "\<lambda>(i, s). (i, if i = j then f s else s)"
  have "in_finished (snd (?u p)) = in_finished (snd p)" for p using assms(2) by (cases p) simp
  moreover have "fst (?u p) = fst p" for p by (cases p) simp
  ultimately have "map fst (filter (\<lambda>(_, s). P (in_finished s)) (map ?u m)) = map fst (filter (\<lambda>(_, s). P (in_finished s)) m)" for P m
    by (induction m) (auto simp: case_prod_beta)
  from this [of "\<lambda>b. b"] this [of Not]
  have same: "finished_ids (installs (update_install j f t)) = finished_ids (installs t)"
    "map fst (unfinished (installs (update_install j f t))) = map fst (unfinished (installs t))"
    by (simp_all add: update_install_def)
  have "fst ` set (installs (update_install j f t)) = fst ` set (installs t)"
    by (metis ids_updated list.set_map)
  moreover have "fst ` set (unfinished (installs (update_install j f t))) = fst ` set (unfinished (installs t))"
    by (metis same(2) list.set_map)
  ultimately show ?thesis
    using running_invD [OF assms(1)] by (intro running_invI) (simp_all only: same(1) ids_updated update_install_simps)
qed

lemma finish_installs:
  assumes "running_inv k t"
  shows "install_inv (add_install_signed k code message raw success t)"
    and "\<not> install_running (add_install_signed k code message raw success t)"
    and "length (installs (add_install_signed k code message raw success t)) \<le> INSTALL_HISTORY_CAP"
    and "\<exists>s. map_of (installs (add_install_signed k code message raw success t)) k
               = Some (finish_status code message raw success s)"
proof -
  let ?f = "finish_status code message raw success"
  let ?m = "map (\<lambda>(i, s). (i, if i = k then ?f s else s)) (installs t)"
  have t': "add_install_signed k code message raw success t
              = t\<lparr>install_running := False, installs := prune_installs ?m\<rparr>"
    by (simp add: add_install_signed_def update_install_def Let_def)
  note inv = running_invD(1,2,4,6) [OF assms]
  have ids: "map fst ?m = map fst (installs t)" by (simp add: case_prod_beta)
  have only: "in_finished s" if "(i, s) \<in> set (installs t)" "i \<noteq> k" for i s
  proof (rule ccontr)
    assume "\<not> in_finished s"
    with that(1) have "(i, s) \<in> set (unfinished (installs t))" by simp
    then have "Suc i \<in> Suc ` fst ` set (unfinished (installs t))" by (metis fst_conv imageI)
    with inv(3) that(2) show False by simp
  qed
  have "unfinished ?m = []"
    using only by (auto simp: filter_empty_conv finish_status_def split: if_splits)
  then have none: "unfinished (prune_installs ?m) = []"
    using prune_unfinished [of ?m] inv(1) by (simp only: ids)
  have bound: "length (finished_ids (prune_installs ?m)) \<le> INSTALL_HISTORY_CAP"
    by (rule prune_bound) (simp only: ids inv(1))
  have dist: "distinct (map fst (prune_installs ?m))"
    by (rule prune_distinct) (simp only: ids inv(1))
  have "fst ` set (prune_installs ?m) \<subseteq> fst ` set ?m" using prune_subset by (rule image_mono)
  also have "\<dots> = fst ` set (installs t)" by (metis ids list.set_map)
  also note inv(2)
  finally have small: "fst ` set (prune_installs ?m) \<subseteq> {..<Suc k}" .
  show "install_inv (add_install_signed k code message raw success t)"
    using dist small bound none by (simp add: t' install_inv_def inv(4) del: set_filter)
  show "\<not> install_running (add_install_signed k code message raw success t)" by (simp add: t')
  have "filter (\<lambda>(_, s). in_finished s) (prune_installs ?m) = prune_installs ?m"
    using none by (intro filter_True) (auto simp: filter_empty_conv)
  then show "length (installs (add_install_signed k code message raw success t)) \<le> INSTALL_HISTORY_CAP"
    using bound by (simp add: t')
  obtain s where "(k, s) \<in> set (installs t)" using running_entry [OF assms] .
  then have mem: "(k, ?f s) \<in> set ?m" by force
  have le: "i \<le> k" if "(i, x) \<in> set ?m" for i x
  proof -
    have "i \<in> set (map fst ?m)" using that by force
    then have "i \<in> fst ` set (installs t)" by (simp only: ids set_map)
    then show ?thesis using inv(2) by auto
  qed
  have "distinct (map fst ?m)" by (simp only: ids inv(1))
  then have "(k, ?f s) \<in> set (prune_installs ?m)" by (rule prune_keeps_latest [OF _ mem le])
  with dist show "\<exists>s. map_of (installs (add_install_signed k code message raw success t)) k = Some (?f s)"
    by (auto simp: t')
qed

section \<open>Every exit of the pipeline\<close>

definition install_outcome :: "'s install_adb \<Rightarrow> nat \<Rightarrow> string \<Rightarrow> install_table \<Rightarrow> bool" where
  "install_outcome I k device t' \<longleftrightarrow>
     (\<exists>code message raw success t. t' = add_install_signed k code message raw success t \<and> running_inv k t
        \<and> (if success
           then \<exists>out err s s'. ia_pm_install I device s = (Answered out err True, s')
                  \<and> \<not> pm_install_failed True (str_trim (from_utf8_lossy out @ from_utf8_lossy err))
           else code \<noteq> None \<and> message \<noteq> None))"

lemma outcome_released:
  assumes "install_outcome I k device t'"
  shows "install_inv t'" "\<not> install_running t'" "length (installs t') \<le> INSTALL_HISTORY_CAP"
  using assms unfolding install_outcome_def by (elim exE conjE; simp only: finish_installs simp_thms)+

lemma outcome_status:
  assumes "install_outcome I k device t'"
  shows "\<exists>x. map_of (installs t') k = Some x \<and> in_finished x
    \<and> (if in_state x = ''Done''
       then \<exists>out err s s'. ia_pm_install I device s = (Answered out err True, s')
              \<and> \<not> pm_install_failed True (str_trim (from_utf8_lossy out @ from_utf8_lossy err))
       else in_state x = ''Failed'' \<and> in_error_code x \<noteq> None \<and> in_message x \<noteq> None)"
proof -
  from assms obtain code message raw success t where t': "t' = add_install_signed k code message raw success t"
    and run: "running_inv k t"
    and res: "if success then \<exists>out err s s'. ia_pm_install I device s = (Answered out err True, s')
                \<and> \<not> pm_install_failed True (str_trim (from_utf8_lossy out @ from_utf8_lossy err))
              else code \<noteq> None \<and> message \<noteq> None"
    unfolding install_outcome_def by (elim exE conjE)
  from finish_installs(4) [OF run, of code message raw success] obtain s
    where "map_of (installs t') k = Some (finish_status code message raw success s)" unfolding t' by (elim exE)
  with res show ?thesis by (cases success) (simp_all add: finish_status_def)
qed

lemma failed_outcome:
  "running_inv k t \<Longrightarrow> code \<noteq> None \<Longrightarrow> install_outcome I k device (install_failed k code message raw t)"
  unfolding install_outcome_def install_failed_def by (metis option.distinct(1))

lemma succeeded_outcome:
  assumes "running_inv k t" "ia_pm_install I device s = (Answered out err True, s')"
    "\<not> pm_install_failed True (str_trim (from_utf8_lossy out @ from_utf8_lossy err))"
  shows "install_outcome I k device (install_succeeded k raw t)"
  unfolding install_outcome_def install_succeeded_def
  by (intro exI conjI) (rule refl, rule assms(1), use assms(2,3) in auto)

lemma classify_code: "fst (classify_install_failure x) \<noteq> None"
  by (simp add: classify_install_failure_def)

lemma commit_outcome:
  assumes "running_inv k t"
  shows "install_outcome I k device (fst (commit_install I k device (t, s)))"
proof -
  let ?t = "update_install k (\<lambda>x. x\<lparr>in_state := ''Installing'', in_stage := 4\<rparr>) t"
  have t: "running_inv k ?t" using assms by (rule update_running) simp
  obtain out s1 where pm: "ia_pm_install I device s = (out, s1)" by fastforce
  show ?thesis
  proof (cases out)
    case (Answered stdout stderr success)
    let ?x = "str_trim (from_utf8_lossy stdout @ from_utf8_lossy stderr)"
    obtain code message where c: "classify_install_failure ?x = (code, message)" by fastforce
    then have "code \<noteq> None" using classify_code [of ?x] by simp
    then have bad: "install_outcome I k device (install_failed k code m raw ?t)" for m raw by (rule failed_outcome [OF t])
    show ?thesis
    proof (cases "pm_install_failed success ?x")
      case True
      then show ?thesis using bad by (simp add: commit_install_def pm Answered c Let_def split: prod.split)
    next
      case False
      then have success by (simp add: pm_install_failed_def)
      with False have "install_outcome I k device (install_succeeded k ?x ?t)"
        using pm Answered by (intro succeeded_outcome [OF t]) simp_all
      with False show ?thesis by (simp add: commit_install_def pm Answered Let_def split: prod.split)
    qed
  qed (simp_all add: commit_install_def pm Let_def failed_outcome [OF t] split: prod.split)
qed

lemma pushed_outcome:
  assumes "running_inv k t"
  shows "install_outcome I k device (fst (pushed I k device answer (t, s)))"
proof (cases answer)
  case (Answered stdout stderr success)
  let ?x = "str_trim (from_utf8_lossy stdout @ from_utf8_lossy stderr)"
  obtain code message where c: "classify_install_failure ?x = (code, message)" by fastforce
  then have "code \<noteq> None" using classify_code [of ?x] by simp
  then have "install_outcome I k device (install_failed k code m raw t)" for m raw
    by (rule failed_outcome [OF assms])
  moreover have "install_outcome I k device (fst (commit_install I k device
      (update_install k (\<lambda>x. x\<lparr>in_bytes_done := in_bytes_total x, in_percent := 100\<rparr>) t, s)))"
    by (intro commit_outcome update_running [OF assms]) simp
  ultimately show ?thesis by (simp add: pushed_def Answered c Let_def)
qed (simp_all add: pushed_def failed_outcome [OF assms])

lemma poll_running: "running_inv k t \<Longrightarrow> running_inv k (fold (poll_reading j) readings t)"
proof (induction readings arbitrary: t)
  case (Cons r rs)
  have "running_inv k (poll_reading j r t)"
    by (cases r) (auto simp: poll_reading_def Let_def Cons.prems intro!: update_running)
  then show ?case using Cons.IH by simp
qed simp

lemma perform_outcome:
  assumes "running_inv k t"
  shows "install_outcome I k device (fst (perform_install I k device path (t, s)))"
proof -
  let ?t = "update_install k (\<lambda>x. x\<lparr>in_state := ''Copying'', in_stage := 2\<rparr>) t"
  have t: "running_inv k ?t" using assms by (rule update_running) simp
  obtain r s1 where cp: "ia_shell I device (stage_command path) s = (r, s1)" by fastforce
  obtain readings answer s2 where push: "ia_push I device path s = ((readings, answer), s2)" by (metis prod.exhaust)
  note exits = failed_outcome [OF t] commit_outcome [OF t] pushed_outcome [OF poll_running [OF t]]
  show ?thesis
    by (cases r) (simp_all add: perform_install_def cp push Let_def exits)
qed

section \<open>Reachable tables\<close>

definition no_installs :: install_table where
  "no_installs = \<lparr>installs = [], install_running = False, next_install_id = 0\<rparr>"

inductive install_reach :: "'s install_adb \<Rightarrow> install_table \<Rightarrow> bool" for I where
  at_start: "install_reach I no_installs"
| request: "install_reach I t \<Longrightarrow> install_reach I (snd (start_install connected exists_here file_size device path t))"
| pipeline: "install_reach I t \<Longrightarrow> install_running t \<Longrightarrow> next_install_id t = Suc k
    \<Longrightarrow> install_reach I (fst (perform_install I k device path (t, s)))"

lemma start_refused:
  "install_running t \<Longrightarrow> \<exists>e. start_install connected exists_here file_size device path t = (Err e, t)"
  by (simp add: start_install_def Let_def)

lemma start_running:
  assumes "install_inv t" "start_install connected exists_here file_size device path t = (Ok k, t')"
  shows "running_inv k t'"
proof -
  have free: "\<not> install_running t" using assms(2) by (auto simp: start_install_def Let_def split: if_splits)
  let ?x = "new_install exists_here file_size k device path (is_device_local_path exists_here path)"
  have x: "\<not> in_finished ?x" by (simp add: new_install_def)
  have k: "k = next_install_id t" and t': "t' = t\<lparr>next_install_id := k + 1, install_running := True,
      installs := prune_installs ((k, ?x) # filter (\<lambda>(i, _). i \<noteq> k) (installs t))\<rparr>"
    using assms(2) by (auto simp: start_install_def Let_def split: if_splits)
  have inv: "distinct (map fst (installs t))" "fst ` set (installs t) \<subseteq> {..<k}" "unfinished (installs t) = []"
    using assms(1) free by (auto simp: install_inv_def k filter_empty_conv)
  have "filter (\<lambda>(i, _). i \<noteq> k) (installs t) = installs t" using inv(2) by (intro filter_True) force
  then have t'': "t' = t\<lparr>next_install_id := k + 1, install_running := True, installs := prune_installs ((k, ?x) # installs t)\<rparr>"
    by (simp add: t')
  have dist: "distinct (map fst ((k, ?x) # installs t))" using inv(1,2) by auto
  have "fst ` set (prune_installs ((k, ?x) # installs t)) \<subseteq> fst ` set ((k, ?x) # installs t)"
    using prune_subset by (rule image_mono)
  also have "\<dots> \<subseteq> {..<Suc k}" using inv(2) by (auto dest: subsetD)
  finally have small: "fst ` set (prune_installs ((k, ?x) # installs t)) \<subseteq> {..<Suc k}" .
  have only: "unfinished (prune_installs ((k, ?x) # installs t)) = [(k, ?x)]"
    using prune_unfinished [OF dist] x inv(3) by simp
  show ?thesis
    by (rule running_invI)
      (simp_all add: t'' only prune_distinct [OF dist] prune_bound [OF dist, simplified] small del: set_filter)
qed

lemma reach_inv: "install_reach I t \<Longrightarrow> install_inv t"
proof (induction rule: install_reach.induct)
  case at_start
  show ?case by (simp add: no_installs_def install_inv_def)
next
  case (request t connected exists_here file_size device path)
  obtain r t' where st: "start_install connected exists_here file_size device path t = (r, t')" by fastforce
  show ?case
  proof (cases r)
    case (Inl e)
    with st have "t' = t" by (auto simp: start_install_def Let_def split: if_splits)
    with st request show ?thesis by simp
  next
    case (Inr k)
    with start_running [OF request.IH] st show ?thesis by (simp add: running_inv_def)
  qed
next
  case (pipeline t k device path s)
  then have "install_outcome I k device (fst (perform_install I k device path (t, s)))"
    by (intro perform_outcome) (simp add: running_inv_def)
  then show ?case by (rule outcome_released)
qed

end
