(* ===== verification/Daemon_Properties.thy ===== *)
theory Daemon_Properties
  imports Daemon_Installs
begin

text \<open>The properties of the daemon.\<close>

section \<open>The shell of the phone\<close>

text \<open>
  C14. Whatever a caller on the bus sends, the shell of the phone only ever sees the words that were
  meant: a command line made of an accepted argument vector splits into exactly that vector, a
  package command splits into its verb, its options and the package name, and the path of an
  APK on the phone is one word of the copy command, whatever characters it has.
\<close>

theorem shell_sees_intended_words:
  shows "(validate_shell_argv argv = Ok () \<longrightarrow> sh_split (join_with '' '' argv) = Some argv)
    \<and> (is_package_name package \<longrightarrow> sh_split (pm_command action package user) = Some (pm_words action package user))
    \<and> sh_split (stage_command path) = Some [''cp'', path, INSTALL_STAGE]"
proof (intro conjI impI)
  assume "validate_shell_argv argv = Ok ()"
  then have "list_all is_safe_shell_arg argv"
    by (auto simp: validate_shell_argv_def split: list.splits if_splits)
  then show "sh_split (join_with '' '' argv) = Some argv"
    by (intro sh_split_join safe_arg_plain) (simp add: list_all_iff)
next
  show "is_package_name package \<Longrightarrow> sh_split (pm_command action package user) = Some (pm_words action package user)"
    by (rule pm_command_words)
next
  have "sh_lex False None INSTALL_STAGE = Some [INSTALL_STAGE]"
    by (rule lex_word_end) (simp_all add: INSTALL_STAGE_def plain_def sh_meta_def)
  moreover have "stage_command path = ''cp'' @ CHR 0x20 # quoted (escape_quotes path) @ CHR 0x20 # INSTALL_STAGE"
    by (simp add: stage_command_def)
  moreover have "sh_lex False None (''cp'' @ CHR 0x20 # s) = map_option ((#) ''cp'') (sh_lex False None s)" for s
    by (rule lex_word_space) (simp_all add: plain_def sh_meta_def)
  ultimately show "sh_split (stage_command path) = Some [''cp'', path, INSTALL_STAGE]"
    by (simp only: sh_split_def lex_quoted) (simp add: end_word_def)
qed

theorem shell_sees_intended_words_witness:
  "sh_split (join_with '' '' [''pm'', ''list'', ''packages'']) = Some [''pm'', ''list'', ''packages'']
   \<and> sh_split (pm_command Disable ''com.a'' 0) = Some (pm_words Disable ''com.a'' 0)"
proof -
  have chars: "is_ascii_alphanumeric c" if "c \<in> set ''pmlistackgesco''" for c
    using that by (auto simp: is_ascii_alphanumeric_def is_ascii_digit_def is_ascii_alphabetic_def)
  have "validate_shell_argv [''pm'', ''list'', ''packages''] = Ok ()"
    by (simp add: validate_shell_argv_def SHELL_ALLOWLIST_def is_safe_shell_arg_def chars allowed_subcommand_def arg_at_def)
  moreover have "is_package_name ''com.a''"
    by (simp add: is_package_name_def is_segment_def is_ascii_alphabetic_def is_ascii_alphanumeric_def)
  ultimately show ?thesis
    using shell_sees_intended_words [of "[''pm'', ''list'', ''packages'']" "''com.a''" Disable 0 "[]"] by blast
qed

section \<open>Batches of package actions\<close>

text \<open>
  C15. In whatever order the calls of a batch end, at most eight run at once, the loop goes on until
  every request was taken care of and stops after exactly as many joins as there are requests, and
  then the results are those of the single actions in the order of the requests; only a task that
  ended badly is reported as not run.
\<close>

theorem batch_results_in_order:
  assumes "batch_run ask user requests n C b"
  shows "length (b_running b) \<le> PM_CONCURRENCY \<and> n \<le> length requests
    \<and> (if n < length requests
       then (\<exists>b'. batch_run ask user requests (Suc n) C b')
       else b_running b = []
            \<and> batch_results b = map (\<lambda>(i, r). if i \<in> C then not_run else apply_one (ask i) user r) (enumerate 0 requests))"
  using batch_run_results [OF assms] batch_run_goes_on [OF assms] by auto

theorem batch_results_in_order_witness:
  "batch_results (joined (\<lambda>_ _. Timed_out) 0 0 True (joined (\<lambda>_ _. Timed_out) 0 1 False
     (batch_start [\<lparr>rq_package = ''a'', rq_action = Disable\<rparr>, \<lparr>rq_package = ''b'', rq_action = Enable\<rparr>])))
   = [not_run, apply_one (\<lambda>_. Timed_out) 0 \<lparr>rq_package = ''b'', rq_action = Enable\<rparr>]"
proof -
  let ?rs = "[\<lparr>rq_package = ''a'', rq_action = Disable\<rparr>, \<lparr>rq_package = ''b'', rq_action = Enable\<rparr>]"
  let ?ask = "\<lambda>_ _. Timed_out"
  let ?b1 = "joined ?ask 0 1 False (batch_start ?rs)"
  have start: "b_running (batch_start ?rs) = [(0, ?rs ! 0), (1, ?rs ! 1)]" "b_next (batch_start ?rs) = []"
    by (simp_all add: batch_start_def PM_CONCURRENCY_def)
  have "batch_run ?ask 0 ?rs (Suc 0) {} ?b1"
    by (rule batch_run.join_ok [OF batch_run.start]) (simp add: start)
  moreover have run: "b_running ?b1 = [(0, ?rs ! 0)]"
    by (simp add: joined_def start spawn_next_def remove_at_def)
  ultimately have "batch_run ?ask 0 ?rs (Suc (Suc 0)) {0} (joined ?ask 0 0 True ?b1)"
    using batch_run.join_bad [of ?ask 0 ?rs "Suc 0" "{}" ?b1 0] by simp
  from batch_results_in_order [OF this] show ?thesis by simp
qed

section \<open>Installing an APK\<close>

text \<open>
  C13. One install runs at a time and every pipeline ends with its slot released. Once a request was
  accepted any other is refused and changes nothing until the pipeline has ended; however the phone
  and \<open>adb\<close> behave, the pipeline then leaves the slot free, at most twenty-five installs in the map,
  and the install it ran among them as finished: as done only when \<open>pm install\<close> answered with
  success, and otherwise as failed, with an error code and a message.
\<close>

theorem install_ends_released:
  assumes "install_reach I t"
    and "start_install connected exists_here file_size device path t = (Ok k, t1)"
  shows "(\<forall>d p. \<exists>e. start_install connected exists_here file_size d p t1 = (Err e, t1))
    \<and> (let t2 = fst (perform_install I k device path (t1, s))
       in \<not> install_running t2 \<and> length (installs t2) \<le> INSTALL_HISTORY_CAP
          \<and> (\<exists>x. map_of (installs t2) k = Some x \<and> in_finished x
              \<and> (if in_state x = ''Done''
                 then \<exists>out err s s'. ia_pm_install I device s = (Answered out err True, s')
                        \<and> \<not> pm_install_failed True (str_trim (from_utf8_lossy out @ from_utf8_lossy err))
                 else in_state x = ''Failed'' \<and> in_error_code x \<noteq> None \<and> in_message x \<noteq> None)))"
proof -
  have run: "running_inv k t1" using reach_inv [OF assms(1)] assms(2) by (rule start_running)
  note out = perform_outcome [OF run, of I device path s]
  show ?thesis
    unfolding Let_def
    by (intro conjI allI start_refused running_invD(5) [OF run] outcome_released(2,3) [OF out] outcome_status [OF out])
qed

theorem install_ends_released_witness:
  "let I = \<lparr>ia_shell = \<lambda>_ _ s. (Inr [], s), ia_push = \<lambda>_ _ s. (([], Timed_out), s),
            ia_pm_install = \<lambda>_ s. (Timed_out, s)\<rparr>;
       t1 = snd (start_install (\<lambda>_. True) (\<lambda>_. False) (\<lambda>_. None) ''d'' ''/sdcard/a.apk'' no_installs);
       t2 = fst (perform_install I 0 ''d'' ''/sdcard/a.apk'' (t1, ()))
   in install_running t1 \<and> \<not> install_running t2
      \<and> (\<exists>x. map_of (installs t2) 0 = Some x \<and> in_state x = ''Failed'')"
proof -
  let ?I = "\<lparr>ia_shell = \<lambda>_ _ s. (Inr [], s), ia_push = \<lambda>_ _ s. (([], Timed_out), s),
             ia_pm_install = \<lambda>_ s. (Timed_out, s)\<rparr> :: unit install_adb"
  let ?start = "start_install (\<lambda>_. True) (\<lambda>_. False) (\<lambda>_. None) ''d'' ''/sdcard/a.apk'' no_installs"
  have local_path: "is_device_local_path (\<lambda>_. False) ''/sdcard/a.apk''" by (simp add: is_device_local_path_def)
  have "?start = (Ok 0, snd ?start)" "install_running (snd ?start)"
    by (simp_all add: start_install_def Let_def local_path no_installs_def)
  then show ?thesis
    using install_ends_released [OF install_reach.at_start, of "\<lambda>_. True" "\<lambda>_. False" "\<lambda>_. None" "''d''"
        "''/sdcard/a.apk''" 0 "snd ?start" ?I "()"]
    by (auto simp: Let_def split: if_splits)
qed

end
