(* ===== verification/Transfer_Progress.thy ===== *)
theory Transfer_Progress
  imports Prelude
begin

text \<open>
  The progress meter of transfers (\<open>transfer-engine/src/progress.rs\<close>). Floating-point arithmetic is a
  parameter: the operations the code uses on \<open>f64\<close>, with \<open>Duration::from_secs_f64\<close> as a partial
  function because it panics on what does not fit. Times are nanoseconds.
\<close>

record 'f f64_ops =
  f_of_u64 :: "u64 \<Rightarrow> 'f"
  f_of_nanos :: "nat \<Rightarrow> 'f"
  f_max :: "'f \<Rightarrow> 'f \<Rightarrow> 'f"
  f_div :: "'f \<Rightarrow> 'f \<Rightarrow> 'f"
  f_pos :: "'f \<Rightarrow> bool"
  f_zero :: 'f
  f_milli :: 'f
  f_to_duration :: "'f \<Rightarrow> nat option"

record 'f SpeedSample =
  ss_at :: nat
  ss_bytes_done :: u64
  ss_bps :: 'f

record 'f ProgressSnapshot =
  ps_bytes_done :: u64
  ps_bytes_total :: u64
  ps_current_bps :: 'f
  ps_avg_bps :: 'f
  ps_eta :: "nat option"
  ps_history :: "'f SpeedSample list"

record 'f ProgressTracker =
  last_sample :: "(nat \<times> u64) option"
  history :: "'f SpeedSample list"
  max_history :: nat
  started :: nat

definition saturating_sub :: "u64 \<Rightarrow> u64 \<Rightarrow> u64" where
  "saturating_sub a b = (if b \<le> a then a - b else 0)"

definition tracker_new :: "nat \<Rightarrow> 'f ProgressTracker" where
  "tracker_new now = \<lparr>last_sample = None, history = [], max_history = 60, started = now\<rparr>"

definition tick :: "'f f64_ops \<Rightarrow> nat \<Rightarrow> u64 \<Rightarrow> 'f ProgressTracker \<Rightarrow> 'f SpeedSample \<times> 'f ProgressTracker" where
  "tick F now bytes_done t =
     (let bps = (case last_sample t of
                   Some (at, b) \<Rightarrow>
                     f_div F (f_of_u64 F (saturating_sub bytes_done b))
                       (f_max F (f_of_nanos F (now - at)) (f_milli F))
                 | None \<Rightarrow> f_zero F);
          sample = \<lparr>ss_at = now, ss_bytes_done = bytes_done, ss_bps = bps\<rparr>;
          hist = history t @ [sample]
      in (sample, t\<lparr>last_sample := Some (now, bytes_done),
                    history := drop (length hist - max_history t) hist\<rparr>))"

text \<open>\<open>None\<close> is the panic of an estimate that does not fit a \<open>Duration\<close>.\<close>

definition snapshot :: "'f f64_ops \<Rightarrow> nat \<Rightarrow> u64 \<Rightarrow> 'f ProgressTracker \<Rightarrow> 'f ProgressSnapshot option" where
  "snapshot F now total_bytes t =
     (let done = (if history t = [] then 0 else ss_bytes_done (last (history t)));
          current_bps = (if history t = [] then f_zero F else ss_bps (last (history t)));
          avg_bps = f_div F (f_of_u64 F done) (f_max F (f_of_nanos F (now - started t)) (f_milli F));
          snap = (\<lambda>eta. \<lparr>ps_bytes_done = done, ps_bytes_total = total_bytes, ps_current_bps = current_bps,
                        ps_avg_bps = avg_bps, ps_eta = eta, ps_history = history t\<rparr>)
      in if f_pos F current_bps \<and> total_bytes > 0
         then map_option (\<lambda>d. snap (Some d))
                (f_to_duration F (f_div F (f_of_u64 F (saturating_sub total_bytes done)) current_bps))
         else Some (snap None))"

lemma unat_saturating_sub: "unat (saturating_sub a b) = unat a - unat b"
  by (simp add: saturating_sub_def word_le_nat_alt unat_sub_if')

text \<open>The history is the last samples, newest last, and never more than the limit.\<close>

fun ticks :: "'f f64_ops \<Rightarrow> (nat \<times> u64) list \<Rightarrow> 'f ProgressTracker \<Rightarrow> 'f SpeedSample list \<times> 'f ProgressTracker" where
  "ticks F [] t = ([], t)"
| "ticks F ((now, b) # rest) t =
     (case tick F now b t of (s, t') \<Rightarrow> case ticks F rest t' of (ss, t'') \<Rightarrow> (s # ss, t''))"

lemma tick_history:
  "tick F now b t = (s, t') \<Longrightarrow>
     history t' = drop (length (history t @ [s]) - max_history t) (history t @ [s])
     \<and> max_history t' = max_history t \<and> ss_bytes_done s = b \<and> started t' = started t"
  by (auto simp: tick_def Let_def)

lemma keep_last_twice:
  fixes xs ys :: "'a list" and m :: nat
  defines "d \<equiv> length xs - m"
  shows "drop (length (drop d xs @ ys) - m) (drop d xs @ ys) = drop (length (xs @ ys) - m) (xs @ ys)"
proof -
  have "drop d xs @ ys = drop d (xs @ ys)" by (simp add: d_def)
  moreover have "length (drop d (xs @ ys)) - m + d = length (xs @ ys) - m" by (simp add: d_def)
  ultimately show ?thesis by (simp only: drop_drop)
qed

lemma ticks_history:
  "ticks F bs t = (ss, t') \<Longrightarrow> length (history t) \<le> max_history t \<Longrightarrow>
     history t' = drop (length (history t @ ss) - max_history t) (history t @ ss)
     \<and> max_history t' = max_history t \<and> map ss_bytes_done ss = map snd bs"
proof (induction bs arbitrary: t ss)
  case (Cons x bs)
  obtain now b where x: "x = (now, b)" by force
  obtain s t1 where s: "tick F now b t = (s, t1)" by force
  obtain ss' where ss: "ticks F bs t1 = (ss', t')" "ss = s # ss'"
    using Cons.prems(1) by (auto simp: x s split: prod.splits)
  note h = tick_history [OF s]
  have "length (history t1) \<le> max_history t1" using h by auto
  note IH = Cons.IH [OF ss(1) this]
  let ?m = "max_history t" and ?h = "history t @ [s]"
  have "history t' = drop (length (drop (length ?h - ?m) ?h @ ss') - ?m) (drop (length ?h - ?m) ?h @ ss')"
    using IH h by simp
  also have "\<dots> = drop (length (?h @ ss') - ?m) (?h @ ss')"
    by (rule keep_last_twice)
  finally show ?case using IH h ss(2) x by simp
qed simp

lemma history_bounded: "ticks F bs (tracker_new now) = (ss, t) \<Longrightarrow> length (history t) \<le> 60"
  using ticks_history [of F bs "tracker_new now" ss t] by (simp add: tracker_new_def)

end
